(* ===== verification/Prelude.thy ===== *)
theory Prelude
  imports Main "HOL-Library.Word"
begin

text \<open>
  Shared vocabulary of the development: C integers with their wrap-around written out,
  address alignment (\<^verbatim>\<open>src/include/sof/common.h\<close>), the outcome of a C operation that may
  panic or touch memory it does not own, and the list and arithmetic facts that several
  components use.
\<close>

unbundle bit_operations_syntax

named_theorems c_int "facts that remove wrap-around under range conditions"

section \<open>C integers\<close>

text \<open>
  Unsigned C values are naturals; every place where the source's arithmetic can wrap is
  written with \<open>u16\<close>, \<open>u32\<close> or \<open>u32_sub\<close>. Signed 32-bit values are integers
  wrapped by \<open>s32\<close>.
\<close>

definition u16 :: "nat \<Rightarrow> nat" where
  "u16 n = n mod 2 ^ 16"

definition u32 :: "nat \<Rightarrow> nat" where
  "u32 n = n mod 2 ^ 32"

definition u16_sub :: "nat \<Rightarrow> nat \<Rightarrow> nat" where
  "u16_sub a b = nat ((int a - int b) mod 2 ^ 16)"

definition u32_sub :: "nat \<Rightarrow> nat \<Rightarrow> nat" where
  "u32_sub a b = nat ((int a - int b) mod 2 ^ 32)"

definition s32 :: "int \<Rightarrow> int" where
  "s32 i = (i + 2 ^ 31) mod 2 ^ 32 - 2 ^ 31"

lemma u16_id [c_int]: "n < 2 ^ 16 \<Longrightarrow> u16 n = n"
  by (simp add: u16_def)

lemma u32_id [c_int]: "n < 2 ^ 32 \<Longrightarrow> u32 n = n"
  by (simp add: u32_def)

lemma u16_less [simp]: "u16 n < 65536"
  by (simp add: u16_def)

lemma u32_less [simp]: "u32 n < 4294967296"
  by (simp add: u32_def)

lemma u16_sub_id [c_int]: "b \<le> a \<Longrightarrow> a < 2 ^ 16 \<Longrightarrow> u16_sub a b = a - b"
  by (simp add: u16_sub_def flip: of_nat_diff)

lemma u32_sub_id [c_int]: "b \<le> a \<Longrightarrow> a < 2 ^ 32 \<Longrightarrow> u32_sub a b = a - b"
  by (simp add: u32_sub_def flip: of_nat_diff)

lemma s32_id [c_int]: "- (2 ^ 31) \<le> i \<Longrightarrow> i < 2 ^ 31 \<Longrightarrow> s32 i = i"
  by (simp add: s32_def)

lemma s32_range: "- (2 ^ 31) \<le> s32 i" "s32 i < 2 ^ 31"
  by (simp_all add: s32_def)

lemma s32_high: "2 ^ 31 \<le> i \<Longrightarrow> i < 2 ^ 32 \<Longrightarrow> s32 i = i - 2 ^ 32"
proof -
  assume i: "2 ^ 31 \<le> i" "i < 2 ^ 32"
  have "(i + 2 ^ 31) mod 2 ^ 32 = (i - 2 ^ 31 + 2 ^ 32) mod 2 ^ 32" by (simp add: add.commute)
  also have "\<dots> = (i - 2 ^ 31) mod 2 ^ 32" by (rule mod_add_self2)
  also have "\<dots> = i - 2 ^ 31" using i by simp
  finally show ?thesis by (simp add: s32_def)
qed

section \<open>Alignment\<close>

text \<open>
  \<^verbatim>\<open>ALIGN_UP_INTERNAL(val, align)\<close> of \<^verbatim>\<open>src/include/sof/common.h\<close>, on 32-bit operands:
  add \<open>align - 1\<close> and clear the low bits with the complement of \<open>align - 1\<close>.
\<close>

definition ALIGN_UP :: "nat \<Rightarrow> nat \<Rightarrow> nat" where
  "ALIGN_UP val align =
     unat ((word_of_nat val + word_of_nat align - 1) AND NOT (word_of_nat align - 1) :: 32 word)"

definition is_power_of_2 :: "nat \<Rightarrow> bool" where
  "is_power_of_2 x \<longleftrightarrow> x \<noteq> 0 \<and> x AND (x - 1) = 0"

text \<open>The bit test of \<open>is_power_of_2\<close> recognises exactly the powers of two.\<close>

lemma pow2_and_pred: "(2 ^ k :: nat) AND (2 ^ k - 1) = 0"
proof -
  have "(2 ^ k - 1 :: nat) = mask k"
    by (simp add: mask_eq_exp_minus_1)
  then show ?thesis
    by (auto intro!: bit_eqI simp: bit_simps)
qed

lemma and_pred_zero_pow2: "x \<noteq> 0 \<Longrightarrow> x AND (x - 1) = 0 \<Longrightarrow> \<exists>k. x = 2 ^ k" for x :: nat
proof (induction x rule: less_induct)
  case (less x)
  have rec: "of_bool (odd x \<and> odd (x - 1)) + 2 * (x div 2 AND (x - 1) div 2) = 0"
    using less.prems(2) and_rec [of x "x - 1"] by simp
  show ?case
  proof (cases "even x")
    case True
    then obtain y where y: "x = 2 * y" by blast
    with less.prems have "y \<noteq> 0" by simp
    with y have "(x - 1) div 2 = y - 1" by linarith
    with rec y have "y AND (y - 1) = 0" by simp
    with less.IH [of y] y \<open>y \<noteq> 0\<close> obtain k where "y = 2 ^ k" by auto
    with y show ?thesis by (metis power_Suc)
  next
    case False
    then have "(x - 1) div 2 = x div 2" by presburger
    with rec have "x div 2 = 0" by simp
    with False have "x = 2 ^ 0" by (cases x) auto
    then show ?thesis by blast
  qed
qed

lemma is_power_of_2_iff: "is_power_of_2 x \<longleftrightarrow> (\<exists>k. x = 2 ^ k)"
  using and_pred_zero_pow2 pow2_and_pred by (auto simp: is_power_of_2_def)

lemma is_power_of_2_pos: "is_power_of_2 a \<Longrightarrow> 0 < a"
  by (simp add: is_power_of_2_def)

text \<open>
  \<open>ALIGN_UP\<close> against its arithmetic meaning: the least multiple of the alignment that is not
  below the value, as long as the sum does not leave 32 bits.
\<close>

lemma ALIGN_UP_eq:
  assumes "is_power_of_2 a" and "v + a - 1 < 2 ^ 32"
  shows "ALIGN_UP v a = (v + a - 1) div a * a"
proof -
  obtain k where a: "a = 2 ^ k" using assms(1) by (auto simp: is_power_of_2_iff)
  let ?w = "word_of_nat (v + 2 ^ k - 1) :: 32 word"
  have 1: "(word_of_nat v + word_of_nat (2 ^ k) - 1 :: 32 word) = ?w"
    by (subst of_nat_diff) (simp_all add: trans_le_add2)
  have 2: "(word_of_nat (2 ^ k) - 1 :: 32 word) = mask k"
    by (simp add: mask_eq_exp_minus_1)
  have 3: "unat ?w = v + 2 ^ k - 1"
    using assms(2) a by (simp add: unat_of_nat)
  have "unat (?w AND NOT (mask k)) = push_bit k (drop_bit k (unat ?w))"
    by (rule bit_eqI) (auto simp: bit_simps dest: bit_imp_le_length)
  then show ?thesis
    unfolding ALIGN_UP_def a 1 2 3 by (simp add: push_bit_eq_mult drop_bit_eq_div)
qed

lemma ALIGN_UP_bounds:
  assumes "is_power_of_2 a" and "v + a - 1 < 2 ^ 32"
  shows "v \<le> ALIGN_UP v a" and "ALIGN_UP v a < v + a" and "a dvd ALIGN_UP v a"
proof -
  have a: "0 < a" using assms(1) by (rule is_power_of_2_pos)
  have "(v + a - 1) div a * a + (v + a - 1) mod a = v + a - 1" by simp
  moreover have "(v + a - 1) mod a < a" using a by simp
  ultimately have "v \<le> (v + a - 1) div a * a" and "(v + a - 1) div a * a < v + a"
    using a by linarith+
  then show "v \<le> ALIGN_UP v a" and "ALIGN_UP v a < v + a" and "a dvd ALIGN_UP v a"
    by (simp_all add: ALIGN_UP_eq [OF assms])
qed

lemma ALIGN_UP_aligned:
  assumes "is_power_of_2 a" and "v + a - 1 < 2 ^ 32" and "a dvd v"
  shows "ALIGN_UP v a = v"
proof -
  have "a dvd ALIGN_UP v a - v" using assms ALIGN_UP_bounds(3) by (blast intro: dvd_diff_nat)
  moreover have "ALIGN_UP v a - v < a"
    using ALIGN_UP_bounds(1,2) [OF assms(1,2)] by linarith
  ultimately have "ALIGN_UP v a - v = 0" by (auto dest: dvd_imp_le)
  with ALIGN_UP_bounds(1) [OF assms(1,2)] show ?thesis by simp
qed

section \<open>Outcomes of C operations\<close>

text \<open>
  A C routine returns, calls \<^verbatim>\<open>sof_panic()\<close> (which does not return), or reads or writes
  outside the object it was given. The last outcome is not a behaviour of the source: it marks
  the inputs for which the source has none, so that a theorem which promises \<open>Done\<close> promises
  memory safety as well.
\<close>

datatype 'a outcome = Done 'a | Panic | OutOfBounds

fun obind :: "'a outcome \<Rightarrow> ('a \<Rightarrow> 'b outcome) \<Rightarrow> 'b outcome" where
  "obind (Done x) f = f x"
| "obind Panic f = Panic"
| "obind OutOfBounds f = OutOfBounds"

lemma obind_Done_iff: "obind m f = Done y \<longleftrightarrow> (\<exists>x. m = Done x \<and> f x = Done y)"
  by (cases m) auto

lemma obind_cong [fundef_cong]: "m = m' \<Longrightarrow> (\<And>x. m' = Done x \<Longrightarrow> f x = g x) \<Longrightarrow> obind m f = obind m' g"
  by (cases m') auto

section \<open>Lists\<close>

lemma map_list_update_id:
  "k < length xs \<Longrightarrow> f y = f (xs ! k) \<Longrightarrow> map f (xs[k := y]) = map f xs"
  by (rule nth_equalityI) (auto simp: nth_list_update)

lemma sum_list_map_update:
  fixes f :: "'a \<Rightarrow> nat"
  assumes "k < length xs"
  shows "(\<Sum>x\<leftarrow>xs[k := y]. f x) + f (xs ! k) = (\<Sum>x\<leftarrow>xs. f x) + f y"
  using assms by (induction xs arbitrary: k) (auto split: nat.splits)

section \<open>Memory contents\<close>

text \<open>
  Memory, where the source reads or writes it: a map from byte addresses to byte values, with
  \<^verbatim>\<open>bzero\<close> and \<^verbatim>\<open>memcpy\<close> on it.
\<close>

type_synonym memory = "nat \<Rightarrow> nat"

definition bzero :: "memory \<Rightarrow> nat \<Rightarrow> nat \<Rightarrow> memory" where
  "bzero mem ptr n = (\<lambda>a. if ptr \<le> a \<and> a < ptr + n then 0 else mem a)"

definition mem_copy :: "memory \<Rightarrow> nat \<Rightarrow> nat \<Rightarrow> nat \<Rightarrow> memory" where
  "mem_copy mem dst src n = (\<lambda>a. if dst \<le> a \<and> a < dst + n then mem (src + (a - dst)) else mem a)"

text \<open>
  \<^verbatim>\<open>arch_memcpy_s\<close> of \<^verbatim>\<open>src/arch/xtensa/include/arch/string.h\<close>: it refuses null pointers,
  overlapping ranges and copies larger than the destination; the second result is the C one.
\<close>

definition EINVAL :: int where "EINVAL = 22"
definition ENOMEM :: int where "ENOMEM = 12"
definition EBUSY :: int where "EBUSY = 16"
definition ENODEV :: int where "ENODEV = 19"
definition EFBIG :: int where "EFBIG = 27"
definition ENOSPC :: int where "ENOSPC = 28"
definition EPIPE :: int where "EPIPE = 32"
definition ENODATA :: int where "ENODATA = 61"

lemmas errno = EINVAL_def ENOMEM_def EBUSY_def ENODEV_def EFBIG_def ENOSPC_def EPIPE_def ENODATA_def

definition memcpy_s :: "memory \<Rightarrow> nat \<Rightarrow> nat \<Rightarrow> nat \<Rightarrow> nat \<Rightarrow> memory \<times> int" where
  "memcpy_s mem dest dest_size src n =
     (if dest = 0 \<or> src = 0 then (mem, - EINVAL)
      else if src \<le> dest \<and> dest < src + n \<or> dest \<le> src \<and> src < dest + dest_size then (mem, - EINVAL)
      else if dest_size < n then (mem, - EINVAL)
      else (mem_copy mem dest src n, 0))"

lemma memcpy_s_disjoint:
  assumes "0 < dest" and "0 < src" and "0 < n" and "n \<le> dest_size" and "src + n \<le> dest \<or> dest + dest_size \<le> src"
  shows "memcpy_s mem dest dest_size src n = (mem_copy mem dest src n, 0)"
  using assms by (auto simp: memcpy_s_def)

lemma memcpy_s_none: "fst (memcpy_s mem dest 0 src 0) = mem"
  by (auto simp: memcpy_s_def mem_copy_def)

lemma mem_copy_none [simp]: "mem_copy mem dest src 0 = mem"
  by (auto simp: mem_copy_def)

lemma ivl_disjoint_nat:
  fixes a c :: nat
  assumes "{a..<a + m} \<inter> {c..<c + n} = {}" and "0 < m" and "0 < n"
  shows "a + m \<le> c \<or> c + n \<le> a"
proof (rule ccontr)
  assume "\<not> (a + m \<le> c \<or> c + n \<le> a)"
  with assms(2,3) have "max a c \<in> {a..<a + m} \<inter> {c..<c + n}" by auto
  with assms(1) show False by simp
qed

end
