(* ===== verification/MmHeap.thy ===== *)
theory MmHeap
  imports Prelude
begin

text \<open>
  The heap allocator, \<^verbatim>\<open>src/lib/alloc.c\<close> with the data of
  \<^verbatim>\<open>xtos/include/sof/lib/mm_heap.h\<close>: block headers, block maps, heaps and the memory map;
  the system pool (\<open>rmalloc_sys\<close>), single blocks (\<open>alloc_block_index\<close>), runs of
  contiguous blocks (\<open>alloc_cont_blocks\<close>), release (\<open>free_block\<close>) and the zones above
  them. The debug option \<^verbatim>\<open>CONFIG_DEBUG_BLOCK_FREE\<close> is off; trace output is left out, its one
  effect on the state (\<open>heap_trace_updated\<close>) is kept.
\<close>

section \<open>Data\<close>

text \<open>A pointer is its address; \<open>0\<close> is \<^verbatim>\<open>NULL\<close>.\<close>

record block_hdr =
  hdr_size :: nat
  hdr_used :: nat
  unaligned_ptr :: nat

record block_map =
  block_size :: nat
  count :: nat
  free_count :: nat
  first_free :: nat
  block :: "block_hdr list"
  base :: nat

record mm_info =
  info_used :: nat
  info_free :: nat

text \<open>\<^verbatim>\<open>heap->blocks\<close> is the length of \<open>hmap\<close>.\<close>

record mm_heap =
  hmap :: "block_map list"
  heap :: nat
  heap_size :: nat
  heap_caps :: nat
  info :: mm_info

record mm =
  system :: "mm_heap list"
  system_runtime :: "mm_heap list"
  system_shared :: "mm_heap list"
  runtime_shared :: "mm_heap list"
  runtime :: "mm_heap list"
  buffer :: "mm_heap list"
  heap_trace_updated :: nat

datatype mem_zone =
    SOF_MEM_ZONE_SYS
  | SOF_MEM_ZONE_SYS_RUNTIME
  | SOF_MEM_ZONE_RUNTIME
  | SOF_MEM_ZONE_BUFFER
  | SOF_MEM_ZONE_RUNTIME_SHARED
  | SOF_MEM_ZONE_SYS_SHARED

definition SOF_MEM_FLAG_NO_COPY :: nat where "SOF_MEM_FLAG_NO_COPY = 2"
definition SOF_MEM_FLAG_COHERENT :: nat where "SOF_MEM_FLAG_COHERENT = 4"

text \<open>
  What a platform fixes (\<^verbatim>\<open>src/platform/*/include/platform/lib/memory.h\<close>): the data cache
  line, the number of cores, the cached and uncached aliases of an address, and the hook
  \<^verbatim>\<open>platform_rfree_prepare\<close>. \<open>plat_trace\<close> says whether \<^verbatim>\<open>trace_get()\<close> returns a context.
\<close>

record platform =
  PLATFORM_DCACHE_ALIGN :: nat
  CONFIG_CORE_COUNT :: nat
  cache_to_uncache :: "nat \<Rightarrow> nat"
  uncache_to_cache :: "nat \<Rightarrow> nat"
  is_uncached :: "nat \<Rightarrow> bool"
  platform_rfree_prepare :: "nat \<Rightarrow> nat"
  plat_trace :: bool

section \<open>Initialisation\<close>

fun init_maps :: "nat \<Rightarrow> block_map list \<Rightarrow> block_map list" where
  "init_maps b [] = []"
| "init_maps b (m # ms) = m\<lparr>base := b\<rparr> # init_maps (u32 (b + block_size m * count m)) ms"

definition init_heap_map :: "mm_heap list \<Rightarrow> mm_heap list" where
  "init_heap_map hs = map (\<lambda>h. h\<lparr>hmap := init_maps (heap h) (hmap h)\<rparr>) hs"

section \<open>The system pool\<close>

definition rmalloc_sys :: "platform \<Rightarrow> mm_heap \<Rightarrow> nat \<Rightarrow> nat \<Rightarrow> (mm_heap \<times> nat) outcome" where
  "rmalloc_sys p h cap bytes =
     (if heap_caps h AND cap \<noteq> cap then Panic
      else
        let used = info_used (info h);
            d = PLATFORM_DCACHE_ALIGN p;
            alignment = (if used mod d \<noteq> 0 then d - used mod d else 0)
        in if u32 (alignment + bytes) > info_free (info h) then Panic
           else
             let used1 = u32 (used + alignment);
                 ptr = u32 (heap h + used1)
             in Done (h\<lparr>info := \<lparr>info_used = u32 (used1 + bytes),
                         info_free = u32_sub (info_free (info h)) (u32 (alignment + bytes))\<rparr>\<rparr>,
                      ptr))"

section \<open>Single blocks\<close>

definition align_ptr :: "nat \<Rightarrow> nat \<Rightarrow> block_hdr \<Rightarrow> block_hdr \<times> nat" where
  "align_ptr alignment ptr hdr =
     (hdr\<lparr>unaligned_ptr := ptr\<rparr>,
      if alignment \<le> 1 then ptr else ALIGN_UP ptr alignment)"

text \<open>The loops that look for a block whose \<^verbatim>\<open>used\<close> is 0, from \<open>from\<close> up to \<^verbatim>\<open>count\<close>.\<close>

definition next_free :: "block_hdr list \<Rightarrow> nat \<Rightarrow> nat \<Rightarrow> nat option" where
  "next_free blk from cnt = List.find (\<lambda>i. hdr_used (blk ! i) = 0) [from..<cnt]"

definition heap_account :: "mm_heap \<Rightarrow> nat \<Rightarrow> mm_info" where
  "heap_account h n =
     \<lparr>info_used = u32 (info_used (info h) + n), info_free = u32_sub (info_free (info h)) n\<rparr>"

text \<open>\<open>index < 0\<close> asks for the first free block.\<close>

definition alloc_block_index ::
    "mm_heap \<Rightarrow> nat \<Rightarrow> nat \<Rightarrow> int \<Rightarrow> (mm_heap \<times> nat) outcome" where
  "alloc_block_index h level alignment index =
     (let m = hmap h ! level;
          idx = (if index < 0 then first_free m else nat index)
      in if length (block m) \<le> idx then OutOfBounds
         else
           let (hdr, ptr) = align_ptr alignment (u32 (base m + idx * block_size m)) (block m ! idx);
               blk = (block m)[idx := hdr\<lparr>hdr_size := 1, hdr_used := 1\<rparr>];
               ff = (if idx = first_free m
                     then case next_free blk (first_free m) (count m) of
                            Some i \<Rightarrow> i
                          | None \<Rightarrow> first_free m
                     else first_free m);
               m' = m\<lparr>free_count := u16_sub (free_count m) 1, block := blk, first_free := ff\<rparr>
           in Done (h\<lparr>hmap := (hmap h)[level := m'], info := heap_account h (block_size m)\<rparr>, ptr))"

definition alloc_block :: "mm_heap \<Rightarrow> nat \<Rightarrow> nat \<Rightarrow> (mm_heap \<times> nat) outcome" where
  "alloc_block h level alignment = alloc_block_index h level alignment (- 1)"

text \<open>
  \<^verbatim>\<open>get_ptr_from_heap\<close>. The loop resets \<^verbatim>\<open>temp_bytes\<close> before each \<^verbatim>\<open>continue\<close>, so every
  iteration starts from \<open>bytes\<close>. \<^verbatim>\<open>temp_bytes\<close> is a signed \<^verbatim>\<open>int\<close> and \<^verbatim>\<open>block_size\<close> a
  \<^verbatim>\<open>uint16_t\<close>: the comparison is signed.
\<close>

fun get_ptr_loop :: "mm_heap \<Rightarrow> nat \<Rightarrow> nat \<Rightarrow> nat list \<Rightarrow> (mm_heap \<times> nat) outcome" where
  "get_ptr_loop h bytes alignment [] = Done (h, 0)"
| "get_ptr_loop h bytes alignment (i # is) =
     (let m = hmap h ! i;
          temp_bytes =
            (if alignment \<noteq> 0 \<and> u32 (base m + block_size m * first_free m) mod alignment \<noteq> 0
             then s32 (s32 (int bytes) + int alignment) else s32 (int bytes))
      in if int (block_size m) < temp_bytes then get_ptr_loop h bytes alignment is
         else if free_count m = 0 then get_ptr_loop h bytes alignment is
         else alloc_block h i alignment)"

definition get_ptr_from_heap :: "mm_heap \<Rightarrow> nat \<Rightarrow> nat \<Rightarrow> (mm_heap \<times> nat) outcome" where
  "get_ptr_from_heap h bytes alignment =
     (if alignment AND (alignment - 1) \<noteq> 0 then Panic
      else get_ptr_loop h bytes alignment [0..<length (hmap h)])"

section \<open>Contiguous blocks\<close>

record cont_scan =
  sc_current :: nat
  sc_count :: nat
  sc_start :: nat
  sc_blk_start :: nat
  sc_aligned :: nat
  sc_found :: nat
  sc_total :: nat

definition cont_grow :: "block_map \<Rightarrow> cont_scan \<Rightarrow> cont_scan" where
  "cont_grow m s = s\<lparr>sc_count := sc_count s + 1, sc_found := u32 (sc_found s + block_size m),
     sc_current := sc_current s + 1\<rparr>"

text \<open>One round of the search loop of \<^verbatim>\<open>alloc_cont_blocks\<close>, \<^verbatim>\<open>current++\<close> included.\<close>

definition cont_step :: "block_map \<Rightarrow> nat \<Rightarrow> nat \<Rightarrow> block_hdr \<Rightarrow> cont_scan \<Rightarrow> cont_scan" where
  "cont_step m bytes alignment hdr s =
     (if hdr_used hdr \<noteq> 0
      then s\<lparr>sc_found := 0, sc_count := 0, sc_total := bytes, sc_current := sc_current s + 1\<rparr>
      else if sc_found s = 0 then
        let bst = u32 (base m + sc_current s * block_size m);
            s1 = s\<lparr>sc_blk_start := bst, sc_start := sc_current s\<rparr>
        in if alignment \<noteq> 0 then
             let al = ALIGN_UP bst alignment
             in if bst AND (alignment - 1) \<noteq> 0 \<and> u32 (bst + block_size m) \<le> al
                then s1\<lparr>sc_aligned := al, sc_current := sc_current s + 1\<rparr>
                else cont_grow m (s1\<lparr>sc_aligned := al,
                       sc_total := u32 (sc_total s + u32_sub al bst)\<rparr>)
           else cont_grow m (s1\<lparr>sc_aligned := bst\<rparr>)
      else cont_grow m s)"

fun cont_loop :: "block_map \<Rightarrow> nat \<Rightarrow> nat \<Rightarrow> block_hdr list \<Rightarrow> cont_scan \<Rightarrow> cont_scan" where
  "cont_loop m bytes alignment [] s = s"
| "cont_loop m bytes alignment (hdr # hdrs) s =
     (if sc_found s < sc_total s
      then cont_loop m bytes alignment hdrs (cont_step m bytes alignment hdr s) else s)"

definition cont_search :: "block_map \<Rightarrow> nat \<Rightarrow> nat \<Rightarrow> cont_scan" where
  "cont_search m bytes alignment =
     cont_loop m bytes alignment (drop (first_free m) (take (count m) (block m)))
       \<lparr>sc_current = first_free m, sc_count = 0, sc_start = 0, sc_blk_start = 0,
        sc_aligned = 0, sc_found = 0, sc_total = bytes\<rparr>"

text \<open>A loop over the headers \<open>s \<le> i < s + n\<close> that rewrites each of them.\<close>

definition upd_range :: "('a \<Rightarrow> 'a) \<Rightarrow> nat \<Rightarrow> nat \<Rightarrow> 'a list \<Rightarrow> 'a list" where
  "upd_range f s n xs = map (\<lambda>i. if s \<le> i \<and> i < s + n then f (xs ! i) else xs ! i) [0..<length xs]"

definition alloc_cont_blocks ::
    "mm_heap \<Rightarrow> nat \<Rightarrow> nat \<Rightarrow> nat \<Rightarrow> (mm_heap \<times> nat) outcome" where
  "alloc_cont_blocks h level bytes alignment =
     (let m = hmap h ! level
      in if nat ((int (count m) - int (first_free m)) * int (block_size m) mod 2 ^ 32) < bytes
         then Done (h, 0)
         else
           let s = cont_search m bytes alignment;
               cnt = sc_count s; start = sc_start s
           in if sc_found s < sc_total s then Done (h, 0)
              else if length (block m) \<le> start \<or> length (block m) < start + cnt then OutOfBounds
              else
                let blk1 = (block m)[start := (block m ! start)\<lparr>hdr_size := u16 cnt\<rparr>];
                    ff = (if first_free m = start
                          then case next_free blk1 (first_free m + cnt) (count m) of
                                 Some i \<Rightarrow> i
                               | None \<Rightarrow> max (first_free m + cnt) (count m)
                          else first_free m);
                    blk2 = upd_range (\<lambda>hd. hd\<lparr>hdr_used := 1, unaligned_ptr := sc_blk_start s\<rparr>)
                             start cnt blk1;
                    m' = m\<lparr>free_count := u16_sub (free_count m) cnt, first_free := u16 ff,
                           block := blk2\<rparr>
                in Done (h\<lparr>hmap := (hmap h)[level := m'],
                           info := heap_account h (u32 (cnt * block_size m))\<rparr>,
                         sc_aligned s))"

section \<open>Finding a heap\<close>

definition find_in_heap_arr :: "mm_heap list \<Rightarrow> nat \<Rightarrow> nat option" where
  "find_in_heap_arr hs ptr =
     List.find (\<lambda>i. heap (hs ! i) \<le> ptr \<and> ptr < u32 (heap (hs ! i) + heap_size (hs ! i)))
       [0..<length hs]"

text \<open>The \<^verbatim>\<open>struct mm_heap *\<close> results of the source, as the array and the index they point into.\<close>

datatype heap_ref = SysRuntimeHeap nat | RuntimeHeap nat | RuntimeSharedHeap nat | BufferHeap nat

fun get_heap :: "mm \<Rightarrow> heap_ref \<Rightarrow> mm_heap" where
  "get_heap mm (SysRuntimeHeap i) = system_runtime mm ! i"
| "get_heap mm (RuntimeHeap i) = runtime mm ! i"
| "get_heap mm (RuntimeSharedHeap i) = runtime_shared mm ! i"
| "get_heap mm (BufferHeap i) = buffer mm ! i"

fun put_heap :: "mm \<Rightarrow> heap_ref \<Rightarrow> mm_heap \<Rightarrow> mm" where
  "put_heap mm (SysRuntimeHeap i) h = mm\<lparr>system_runtime := (system_runtime mm)[i := h]\<rparr>"
| "put_heap mm (RuntimeHeap i) h = mm\<lparr>runtime := (runtime mm)[i := h]\<rparr>"
| "put_heap mm (RuntimeSharedHeap i) h = mm\<lparr>runtime_shared := (runtime_shared mm)[i := h]\<rparr>"
| "put_heap mm (BufferHeap i) h = mm\<lparr>buffer := (buffer mm)[i := h]\<rparr>"

definition get_heap_from_ptr :: "platform \<Rightarrow> nat \<Rightarrow> mm \<Rightarrow> nat \<Rightarrow> heap_ref option" where
  "get_heap_from_ptr p core mm ptr =
     (case find_in_heap_arr (take 1 (drop core (system_runtime mm))) ptr of
        Some i \<Rightarrow> Some (SysRuntimeHeap (core + i))
      | None \<Rightarrow>
     (case find_in_heap_arr (runtime mm) ptr of
        Some i \<Rightarrow> Some (RuntimeHeap i)
      | None \<Rightarrow>
     (case (if 1 < CONFIG_CORE_COUNT p then find_in_heap_arr (runtime_shared mm) ptr else None) of
        Some i \<Rightarrow> Some (RuntimeSharedHeap i)
      | None \<Rightarrow> map_option BufferHeap (find_in_heap_arr (buffer mm) ptr))))"

definition get_heap_from_caps :: "mm_heap list \<Rightarrow> nat \<Rightarrow> nat option" where
  "get_heap_from_caps hs cap =
     List.find (\<lambda>i. heap_caps (hs ! i) AND cap = cap) [0..<length hs]"

section \<open>Release\<close>

text \<open>
  The part of \<^verbatim>\<open>free_block\<close> below the choice of the heap. A pointer past the last map is
  reported and ignored; a pointer that is not the start of a block after the lookup of the
  unaligned pointer panics. The cache line maintenance of the source has no effect on this state.
\<close>

definition free_in_heap :: "mm_heap \<Rightarrow> nat \<Rightarrow> mm_heap outcome" where
  "free_in_heap h ptr =
     (case List.find (\<lambda>i. ptr < u32 (base (hmap h ! i) + block_size (hmap h ! i) * count (hmap h ! i)))
             [0..<length (hmap h)] of
        None \<Rightarrow> Done h
      | Some i \<Rightarrow>
          let m = hmap h ! i;
              blk0 = u32_sub ptr (base m) div block_size m
          in if length (block m) \<le> blk0 then OutOfBounds
             else
               let ua = unaligned_ptr (block m ! blk0);
                   fptr = (if ua \<noteq> ptr \<and> ua \<noteq> 0 then ua else ptr);
                   blk = (if ua \<noteq> ptr \<and> ua \<noteq> 0 then u32_sub ua (base m) div block_size m else blk0)
               in if length (block m) \<le> blk then OutOfBounds
                  else if u32 (base m + block_size m * blk) \<noteq> fptr then Panic
                  else
                    let n = hdr_size (block m ! blk);
                        heap_is_full = (free_count m = 0)
                    in if length (block m) < blk + n then OutOfBounds
                       else
                         let m' = m\<lparr>block := upd_range
                                      (\<lambda>hd. hd\<lparr>hdr_size := 0, hdr_used := 0, unaligned_ptr := 0\<rparr>)
                                      blk n (block m),
                                    free_count := u16 (free_count m + n),
                                    first_free := (if blk < first_free m \<or> heap_is_full
                                                   then u16 blk else first_free m)\<rparr>
                         in Done (h\<lparr>hmap := (hmap h)[i := m'],
                              info := \<lparr>info_used = u32_sub (info_used (info h)) (n * block_size m),
                                       info_free = u32 (info_free (info h) + n * block_size m)\<rparr>\<rparr>))"

definition free_block :: "platform \<Rightarrow> nat \<Rightarrow> mm \<Rightarrow> nat \<Rightarrow> mm outcome" where
  "free_block p core mm ptr =
     (let cached_ptr = uncache_to_cache p ptr;
          uncached_ptr = cache_to_uncache p ptr
      in case get_heap_from_ptr p core mm cached_ptr of
           Some r \<Rightarrow> obind (free_in_heap (get_heap mm r) cached_ptr) (\<lambda>h. Done (put_heap mm r h))
         | None \<Rightarrow>
             (case get_heap_from_ptr p core mm uncached_ptr of
                None \<Rightarrow> Done mm
              | Some r \<Rightarrow>
                  obind (free_in_heap (get_heap mm r) uncached_ptr) (\<lambda>h. Done (put_heap mm r h))))"

section \<open>Zones\<close>

definition heap_trace_all :: "mm \<Rightarrow> mm" where
  "heap_trace_all mm = mm\<lparr>heap_trace_updated := 0\<rparr>"

text \<open>\<^verbatim>\<open>DEBUG_TRACE_PTR\<close> without \<^verbatim>\<open>CONFIG_DEBUG_HEAP\<close>.\<close>

definition debug_trace_ptr :: "platform \<Rightarrow> nat \<Rightarrow> mm \<Rightarrow> mm" where
  "debug_trace_ptr p ptr mm = (if plat_trace p \<and> ptr = 0 then heap_trace_all mm else mm)"

definition rmalloc_sys_runtime ::
    "platform \<Rightarrow> mm \<Rightarrow> nat \<Rightarrow> nat \<Rightarrow> nat \<Rightarrow> (mm \<times> nat) outcome" where
  "rmalloc_sys_runtime p mm cap core bytes =
     (if length (system_runtime mm) \<le> core then OutOfBounds
      else
        let h = system_runtime mm ! core
        in if heap_caps h AND cap \<noteq> cap then Panic
           else obind (get_ptr_from_heap h bytes (PLATFORM_DCACHE_ALIGN p))
                  (\<lambda>(h', ptr). Done (put_heap mm (SysRuntimeHeap core) h', ptr)))"

definition rmalloc_runtime :: "platform \<Rightarrow> mm \<Rightarrow> nat \<Rightarrow> nat \<Rightarrow> (mm \<times> nat) outcome" where
  "rmalloc_runtime p mm cap bytes =
     (case (case get_heap_from_caps (runtime mm) cap of
              Some i \<Rightarrow> Some (RuntimeHeap i)
            | None \<Rightarrow> map_option BufferHeap (get_heap_from_caps (buffer mm) cap)) of
        None \<Rightarrow> Done (mm, 0)
      | Some r \<Rightarrow> obind (get_ptr_from_heap (get_heap mm r) bytes (PLATFORM_DCACHE_ALIGN p))
                   (\<lambda>(h', ptr). Done (put_heap mm r h', ptr)))"

definition rmalloc_runtime_shared :: "platform \<Rightarrow> mm \<Rightarrow> nat \<Rightarrow> nat \<Rightarrow> (mm \<times> nat) outcome" where
  "rmalloc_runtime_shared p mm cap bytes =
     (case get_heap_from_caps (runtime_shared mm) cap of
        None \<Rightarrow> Done (mm, 0)
      | Some i \<Rightarrow> obind (get_ptr_from_heap (runtime_shared mm ! i) bytes (PLATFORM_DCACHE_ALIGN p))
                   (\<lambda>(h', ptr). Done (put_heap mm (RuntimeSharedHeap i) h', ptr)))"

definition malloc_sys :: "platform \<Rightarrow> mm \<Rightarrow> nat \<Rightarrow> nat \<Rightarrow> nat \<Rightarrow> (mm \<times> nat) outcome" where
  "malloc_sys p mm core cap bytes =
     (if length (system mm) \<le> core then OutOfBounds
      else obind (rmalloc_sys p (system mm ! core) cap bytes)
             (\<lambda>(h, ptr). Done (mm\<lparr>system := (system mm)[core := h]\<rparr>, ptr)))"

definition malloc_sys_shared :: "platform \<Rightarrow> mm \<Rightarrow> nat \<Rightarrow> nat \<Rightarrow> (mm \<times> nat) outcome" where
  "malloc_sys_shared p mm cap bytes =
     (if system_shared mm = [] then OutOfBounds
      else obind (rmalloc_sys p (system_shared mm ! 0) cap bytes)
             (\<lambda>(h, ptr). Done (mm\<lparr>system_shared := (system_shared mm)[0 := h]\<rparr>, ptr)))"

definition malloc_unlocked ::
    "platform \<Rightarrow> nat \<Rightarrow> mem_zone \<Rightarrow> mm \<Rightarrow> nat \<Rightarrow> nat \<Rightarrow> (mm \<times> nat) outcome" where
  "malloc_unlocked p core zone mm cap bytes =
     obind
       (case zone of
          SOF_MEM_ZONE_SYS \<Rightarrow> malloc_sys p mm core cap bytes
        | SOF_MEM_ZONE_SYS_RUNTIME \<Rightarrow> rmalloc_sys_runtime p mm cap core bytes
        | SOF_MEM_ZONE_RUNTIME \<Rightarrow> rmalloc_runtime p mm cap bytes
        | SOF_MEM_ZONE_RUNTIME_SHARED \<Rightarrow>
            (if 1 < CONFIG_CORE_COUNT p then rmalloc_runtime_shared p mm cap bytes
             else rmalloc_runtime p mm cap bytes)
        | SOF_MEM_ZONE_SYS_SHARED \<Rightarrow>
            (if 1 < CONFIG_CORE_COUNT p then malloc_sys_shared p mm cap bytes
             else malloc_sys p mm 0 cap bytes)
        | SOF_MEM_ZONE_BUFFER \<Rightarrow> Panic)
       (\<lambda>(mm', ptr). Done (mm'\<lparr>heap_trace_updated := 1\<rparr>, ptr))"

definition rmalloc ::
    "platform \<Rightarrow> nat \<Rightarrow> mem_zone \<Rightarrow> mm \<Rightarrow> nat \<Rightarrow> nat \<Rightarrow> (mm \<times> nat) outcome" where
  "rmalloc p core zone mm cap bytes =
     obind (malloc_unlocked p core zone mm cap bytes)
       (\<lambda>(mm', ptr). Done (debug_trace_ptr p ptr mm', ptr))"

definition rzalloc ::
    "platform \<Rightarrow> nat \<Rightarrow> mem_zone \<Rightarrow> mm \<times> memory \<Rightarrow> nat \<Rightarrow> nat \<Rightarrow> ((mm \<times> memory) \<times> nat) outcome" where
  "rzalloc p core zone st cap bytes =
     (case st of (mm, mem) \<Rightarrow>
        obind (rmalloc p core zone mm cap bytes)
          (\<lambda>(mm', ptr). Done ((mm', if ptr \<noteq> 0 then bzero mem ptr bytes else mem), ptr)))"

definition rzalloc_core_sys ::
    "platform \<Rightarrow> nat \<Rightarrow> mm \<times> memory \<Rightarrow> nat \<Rightarrow> ((mm \<times> memory) \<times> nat) outcome" where
  "rzalloc_core_sys p core st bytes =
     (case st of (mm, mem) \<Rightarrow>
        obind (malloc_sys p mm core 0 bytes)
          (\<lambda>(mm', ptr). Done ((mm', if ptr \<noteq> 0 then bzero mem ptr bytes else mem), ptr)))"

section \<open>Buffers\<close>

text \<open>The loop of \<^verbatim>\<open>alloc_heap_buffer\<close> that looks for one block that holds the request.\<close>

definition aligned_fit :: "block_map \<Rightarrow> nat \<Rightarrow> nat \<Rightarrow> nat option" where
  "aligned_fit m bytes alignment =
     List.find (\<lambda>j. hdr_used (block m ! j) = 0 \<and>
                \<not> u32 (u32 (base m + block_size m * j) + block_size m)
                    < u32 (ALIGN_UP (u32 (base m + block_size m * j)) alignment + bytes))
       [first_free m..<count m]"

fun single_loop :: "mm_heap \<Rightarrow> nat \<Rightarrow> nat \<Rightarrow> nat list \<Rightarrow> (mm_heap \<times> nat) outcome" where
  "single_loop h bytes alignment [] = Done (h, 0)"
| "single_loop h bytes alignment (i # is) =
     (let m = hmap h ! i
      in if block_size m < bytes \<or> free_count m = 0 then single_loop h bytes alignment is
         else if alignment \<le> 1 then alloc_block h i alignment
         else case aligned_fit m bytes alignment of
                None \<Rightarrow> single_loop h bytes alignment is
              | Some j \<Rightarrow>
                  obind (alloc_block_index h i alignment (int j))
                    (\<lambda>(h', ptr). if ptr \<noteq> 0 then Done (h', ptr)
                       else single_loop h' bytes alignment is))"

fun cont_heap_loop :: "mm_heap \<Rightarrow> nat \<Rightarrow> nat \<Rightarrow> nat list \<Rightarrow> (mm_heap \<times> nat) outcome" where
  "cont_heap_loop h bytes alignment [] = Done (h, 0)"
| "cont_heap_loop h bytes alignment (i # is) =
     (if block_size (hmap h ! i) < bytes
      then obind (alloc_cont_blocks h i bytes alignment)
             (\<lambda>(h', ptr). if ptr \<noteq> 0 then Done (h', ptr) else cont_heap_loop h' bytes alignment is)
      else cont_heap_loop h bytes alignment is)"

definition alloc_heap_buffer :: "mm_heap \<Rightarrow> nat \<Rightarrow> nat \<Rightarrow> (mm_heap \<times> nat) outcome" where
  "alloc_heap_buffer h bytes alignment =
     (if alignment AND (alignment - 1) \<noteq> 0 then Panic
      else obind (single_loop h bytes alignment [0..<length (hmap h)])
        (\<lambda>(h', ptr).
           if ptr \<noteq> 0 then Done (h', ptr)
           else
             let bytes' = u32 (bytes + alignment)
             in if heap_size h' < bytes' then Done (h', 0)
                else cont_heap_loop h' bytes' alignment (rev [0..<length (hmap h')])))"

text \<open>\<^verbatim>\<open>_balloc_unlocked\<close>: the heaps that have the capabilities, from index \<open>i\<close> on.\<close>

function balloc_loop :: "mm \<Rightarrow> nat \<Rightarrow> nat \<Rightarrow> nat \<Rightarrow> nat \<Rightarrow> (mm \<times> nat) outcome" where
  "balloc_loop mm cap bytes alignment i =
     (if i < length (buffer mm) then
        (case get_heap_from_caps (drop i (buffer mm)) cap of
           None \<Rightarrow> Done (mm, 0)
         | Some k \<Rightarrow>
             obind (alloc_heap_buffer (buffer mm ! (i + k)) bytes alignment)
               (\<lambda>r. let mm' = put_heap mm (BufferHeap (i + k)) (fst r)
                    in if snd r \<noteq> 0 then Done (mm', snd r)
                       else balloc_loop mm' cap bytes alignment (i + k + 1)))
      else Done (mm, 0))"
  by pat_completeness auto
termination
  by (relation "measure (\<lambda>(mm, cap, bytes, alignment, i). length (buffer mm) - i)") auto

declare balloc_loop.simps [simp del]

definition balloc_unlocked ::
    "platform \<Rightarrow> mm \<Rightarrow> nat \<Rightarrow> nat \<Rightarrow> nat \<Rightarrow> nat \<Rightarrow> (mm \<times> nat) outcome" where
  "balloc_unlocked p mm flags cap bytes alignment =
     obind (balloc_loop mm cap bytes alignment 0)
       (\<lambda>(mm', ptr).
          Done (mm',
                if ptr = 0 then 0
                else if flags AND SOF_MEM_FLAG_COHERENT \<noteq> 0 \<and> 1 < CONFIG_CORE_COUNT p
                then cache_to_uncache p ptr else uncache_to_cache p ptr))"

definition rballoc_align ::
    "platform \<Rightarrow> mm \<Rightarrow> nat \<Rightarrow> nat \<Rightarrow> nat \<Rightarrow> nat \<Rightarrow> (mm \<times> nat) outcome" where
  "rballoc_align p mm flags cap bytes alignment =
     obind (balloc_unlocked p mm flags cap bytes alignment)
       (\<lambda>(mm', ptr). Done (debug_trace_ptr p ptr mm', ptr))"

definition in_heap :: "mm_heap \<Rightarrow> nat \<Rightarrow> bool" where
  "in_heap h ptr \<longleftrightarrow> heap h \<le> ptr \<and> ptr < u32 (heap h + heap_size h)"

definition rfree_unlocked :: "platform \<Rightarrow> nat \<Rightarrow> mm \<Rightarrow> nat \<Rightarrow> mm outcome" where
  "rfree_unlocked p core mm ptr0 =
     (if ptr0 = 0 then Done mm
      else
        let ptr = platform_rfree_prepare p ptr0;
            sys = (if 1 < CONFIG_CORE_COUNT p
                   then if is_uncached p ptr then take 1 (system_shared mm)
                        else take 1 (drop core (system mm))
                   else take 1 (system mm))
        in if sys = [] then OutOfBounds
           else if in_heap (sys ! 0) ptr then Panic
           else obind (free_block p core mm ptr) (\<lambda>mm'. Done (mm'\<lparr>heap_trace_updated := 1\<rparr>)))"

definition rfree :: "platform \<Rightarrow> nat \<Rightarrow> mm \<Rightarrow> nat \<Rightarrow> mm outcome" where
  "rfree p core mm ptr = rfree_unlocked p core mm ptr"

definition rbrealloc_align ::
    "platform \<Rightarrow> nat \<Rightarrow> mm \<times> memory \<Rightarrow> nat \<Rightarrow> nat \<Rightarrow> nat \<Rightarrow> nat \<Rightarrow> nat \<Rightarrow> nat
       \<Rightarrow> ((mm \<times> memory) \<times> nat) outcome" where
  "rbrealloc_align p core st ptr flags cap bytes old_bytes alignment =
     (case st of (mm, mem) \<Rightarrow>
        if bytes = 0 then Done (st, 0)
        else
          let copy_bytes = min bytes old_bytes
          in obind (balloc_unlocked p mm flags cap bytes alignment)
               (\<lambda>(mm', new_ptr).
                  let mem' = (if new_ptr \<noteq> 0 \<and> ptr \<noteq> 0 \<and> flags AND SOF_MEM_FLAG_NO_COPY = 0
                              then fst (memcpy_s mem new_ptr copy_bytes ptr copy_bytes) else mem)
                  in obind (if new_ptr \<noteq> 0 then rfree_unlocked p core mm' ptr else Done mm')
                       (\<lambda>mm''. Done ((debug_trace_ptr p ptr mm'', mem'), new_ptr))))"

section \<open>Heap reset, start-up and information\<close>

definition free_heap :: "nat \<Rightarrow> nat \<Rightarrow> mem_zone \<Rightarrow> mm \<Rightarrow> mm outcome" where
  "free_heap primary core zone mm =
     (if core = primary \<or> zone \<noteq> SOF_MEM_ZONE_SYS then Panic
      else if length (system mm) \<le> core then OutOfBounds
      else Done (mm\<lparr>system := (system mm)
             [core := (system mm ! core)\<lparr>info := \<lparr>info_used = 0,
                        info_free = heap_size (system mm ! core)\<rparr>\<rparr>]\<rparr>))"

text \<open>\<open>heap_start\<close> is the linker symbol \<^verbatim>\<open>_system_heap_start\<close>.\<close>

definition init_heap :: "platform \<Rightarrow> nat \<Rightarrow> mm \<Rightarrow> mm outcome" where
  "init_heap p heap_start mm =
     (if system mm = [] then OutOfBounds
      else if heap (system mm ! 0) \<noteq> heap_start then Panic
      else Done (mm\<lparr>system_runtime := init_heap_map (system_runtime mm),
                    runtime := init_heap_map (runtime mm),
                    runtime_shared := (if 1 < CONFIG_CORE_COUNT p
                                       then init_heap_map (runtime_shared mm)
                                       else runtime_shared mm),
                    buffer := init_heap_map (buffer mm)\<rparr>))"

text \<open>
  \<^verbatim>\<open>heap_info\<close>; \<open>Done None\<close> is \<^verbatim>\<open>-EINVAL\<close>. The index is a signed \<^verbatim>\<open>int\<close> that the source
  compares with the number of heaps only.
\<close>

definition heap_info :: "platform \<Rightarrow> mm \<Rightarrow> mem_zone \<Rightarrow> int \<Rightarrow> mm_info option outcome" where
  "heap_info p mm zone index =
     (let get = (\<lambda>hs. if int (length hs) \<le> index then Done None
                      else if index < 0 then OutOfBounds
                      else Done (Some (info (hs ! nat index))))
      in case zone of
           SOF_MEM_ZONE_SYS \<Rightarrow> get (system mm)
         | SOF_MEM_ZONE_SYS_RUNTIME \<Rightarrow> get (system_runtime mm)
         | SOF_MEM_ZONE_RUNTIME \<Rightarrow> get (runtime mm)
         | SOF_MEM_ZONE_BUFFER \<Rightarrow> get (buffer mm)
         | SOF_MEM_ZONE_SYS_SHARED \<Rightarrow>
             if 1 < CONFIG_CORE_COUNT p then get (system_shared mm) else Done None
         | SOF_MEM_ZONE_RUNTIME_SHARED \<Rightarrow>
             if 1 < CONFIG_CORE_COUNT p then get (runtime_shared mm) else Done None)"

end
