(* ===== verification/MmHeap_Inv.thy ===== *)
theory MmHeap_Inv
  imports MmHeap
begin

text \<open>
  The invariant of a block map and what the header updates of \<^verbatim>\<open>src/lib/alloc.c\<close> do to it.
  A \<^emph>\<open>run\<close> of a map is a maximal allocation unit: the header at its first block holds its
  length, and every header of it points back to its first block. Allocation adds one run on
  blocks that were free, release removes one run, and nothing else changes.
\<close>

section \<open>The invariant of a block map\<close>

abbreviation used_at :: "block_map \<Rightarrow> nat \<Rightarrow> bool" where
  "used_at m j \<equiv> hdr_used (block m ! j) \<noteq> 0"

abbreviation size_at :: "block_map \<Rightarrow> nat \<Rightarrow> nat" where
  "size_at m i \<equiv> hdr_size (block m ! i)"

definition block_addr :: "block_map \<Rightarrow> nat \<Rightarrow> nat" where
  "block_addr m i = base m + block_size m * i"

definition geom_ok :: "block_map \<Rightarrow> bool" where
  "geom_ok m \<longleftrightarrow> 0 < block_size m \<and> block_size m < 2 ^ 16 \<and> count m < 2 ^ 16 \<and>
     length (block m) = count m \<and> 0 < base m \<and> base m + block_size m * count m < 2 ^ 32"

definition runs_ok :: "block_map \<Rightarrow> bool" where
  "runs_ok m \<longleftrightarrow>
     (\<forall>i<count m. 0 < size_at m i \<longrightarrow> i + size_at m i \<le> count m \<and>
        (\<forall>k\<in>{i..<i + size_at m i}.
           used_at m k \<and> unaligned_ptr (block m ! k) = block_addr m i)) \<and>
     (\<forall>j<count m. used_at m j \<longrightarrow> (\<exists>i\<le>j. 0 < size_at m i \<and> j < i + size_at m i)) \<and>
     (\<forall>j<count m. \<not> used_at m j \<longrightarrow> size_at m j = 0 \<and> unaligned_ptr (block m ! j) = 0)"

definition free_set :: "block_map \<Rightarrow> nat set" where
  "free_set m = {j. j < count m \<and> \<not> used_at m j}"

definition free_ok :: "block_map \<Rightarrow> bool" where
  "free_ok m \<longleftrightarrow> free_count m = card (free_set m) \<and> first_free m \<le> count m \<and>
     (0 < free_count m \<longrightarrow> first_free m < count m \<and> \<not> used_at m (first_free m) \<and>
        (\<forall>j<first_free m. used_at m j))"

definition map_ok :: "block_map \<Rightarrow> bool" where
  "map_ok m \<longleftrightarrow> geom_ok m \<and> runs_ok m \<and> free_ok m"

definition runs :: "block_map \<Rightarrow> (nat \<times> nat) set" where
  "runs m = {(i, size_at m i) | i. i < count m \<and> 0 < size_at m i}"

definition same_geom :: "block_map \<Rightarrow> block_map \<Rightarrow> bool" where
  "same_geom m m' \<longleftrightarrow> block_size m' = block_size m \<and> count m' = count m \<and> base m' = base m"

lemmas map_ok_defs = map_ok_def geom_ok_def runs_ok_def free_ok_def

lemma finite_free_set [simp]: "finite (free_set m)"
  by (simp add: free_set_def)

lemma block_addr_inj: "geom_ok m \<Longrightarrow> block_addr m i = block_addr m j \<longleftrightarrow> i = j"
  by (simp add: block_addr_def geom_ok_def)

lemma block_addr_less:
  assumes "geom_ok m" and "i \<le> count m"
  shows "block_addr m i < 2 ^ 32"
proof -
  have "block_size m * i \<le> block_size m * count m" using assms(2) by simp
  with assms(1) have "base m + block_size m * i < 2 ^ 32"
    unfolding geom_ok_def by linarith
  then show ?thesis by (simp add: block_addr_def)
qed

lemma block_addr_pos: "geom_ok m \<Longrightarrow> 0 < block_addr m i"
  by (simp add: block_addr_def geom_ok_def)

lemma u32_block_addr:
  "geom_ok m \<Longrightarrow> i \<le> count m \<Longrightarrow> u32 (base m + block_size m * i) = block_addr m i"
  using block_addr_less [of m i] by (simp add: u32_id block_addr_def)

lemma block_addr_mono: "i \<le> j \<Longrightarrow> block_addr m i \<le> block_addr m j"
  by (simp add: block_addr_def)

lemma map_okD:
  assumes "map_ok m"
  shows "geom_ok m" "runs_ok m" "free_ok m" "length (block m) = count m"
  using assms by (auto simp: map_ok_def geom_ok_def)

lemma runs_okD:
  assumes "runs_ok m" and "i < count m" and "0 < size_at m i"
  shows "i + size_at m i \<le> count m"
    and "k \<in> {i..<i + size_at m i} \<Longrightarrow> used_at m k"
    and "k \<in> {i..<i + size_at m i} \<Longrightarrow> unaligned_ptr (block m ! k) = block_addr m i"
  using assms unfolding runs_ok_def by blast+

lemma runs_ok_freeD:
  assumes "runs_ok m" and "j < count m" and "\<not> used_at m j"
  shows "size_at m j = 0" and "unaligned_ptr (block m ! j) = 0"
  using assms unfolding runs_ok_def by blast+

text \<open>Two runs that share a block are the same run.\<close>

lemma run_unique:
  assumes m: "geom_ok m" "runs_ok m" and "i < count m" and "j < count m"
    and k: "k \<in> {i..<i + size_at m i}" "k \<in> {j..<j + size_at m j}"
  shows "i = j"
proof -
  from k have "0 < size_at m i" "0 < size_at m j" by auto
  with assms have "block_addr m i = block_addr m j"
    using runs_okD(3) [of m] by metis
  with m show ?thesis by (simp add: block_addr_inj)
qed

text \<open>The block that starts a run of used blocks.\<close>

lemma used_run:
  assumes "runs_ok m" and "j < count m" and "used_at m j"
  obtains i where "i < count m" and "0 < size_at m i" and "j \<in> {i..<i + size_at m i}"
proof -
  from assms obtain i where "i \<le> j" "0 < size_at m i" "j < i + size_at m i"
    unfolding runs_ok_def by blast
  with assms(2) show ?thesis using that by simp
qed

section \<open>Taking a run of free blocks\<close>

text \<open>
  What both allocation paths do to the headers: the blocks of the new run become used, its first
  header gets the length, all of them point to its start.
\<close>

definition taken :: "block_map \<Rightarrow> nat \<Rightarrow> nat \<Rightarrow> block_hdr list \<Rightarrow> bool" where
  "taken m i n blk \<longleftrightarrow> length blk = count m \<and>
     (\<forall>k<count m. if i \<le> k \<and> k < i + n
        then hdr_used (blk ! k) = 1 \<and> unaligned_ptr (blk ! k) = block_addr m i \<and>
             hdr_size (blk ! k) = (if k = i then n else 0)
        else blk ! k = block m ! k)"

definition takeable :: "block_map \<Rightarrow> nat \<Rightarrow> nat \<Rightarrow> bool" where
  "takeable m i n \<longleftrightarrow> 0 < n \<and> i + n \<le> count m \<and> {i..<i + n} \<subseteq> free_set m"

lemma takenD:
  assumes "taken m i n blk" and "k < count m"
  shows "k \<in> {i..<i + n} \<Longrightarrow> hdr_used (blk ! k) = 1"
    and "k \<in> {i..<i + n} \<Longrightarrow> unaligned_ptr (blk ! k) = block_addr m i"
    and "k \<in> {i..<i + n} \<Longrightarrow> hdr_size (blk ! k) = (if k = i then n else 0)"
    and "k \<notin> {i..<i + n} \<Longrightarrow> blk ! k = block m ! k"
  using assms unfolding taken_def by force+

lemma takeableD:
  assumes "takeable m i n"
  shows "0 < n" "i + n \<le> count m" "k \<in> {i..<i + n} \<Longrightarrow> \<not> used_at m k"
    "k \<in> {i..<i + n} \<Longrightarrow> k < count m"
  using assms unfolding takeable_def free_set_def by auto

text \<open>No run of the map reaches into the blocks that are taken.\<close>

lemma run_misses_taken:
  assumes m: "runs_ok m" and t: "takeable m i n"
    and j: "j < count m" "0 < size_at m j" "k \<in> {j..<j + size_at m j}"
  shows "k \<notin> {i..<i + n}"
  using takeableD(3) [OF t] runs_okD(2) [OF m j(1,2,3)] by blast

lemma taken_size:
  assumes m: "runs_ok m" and t: "takeable m i n" and k: "taken m i n blk" and j: "j < count m"
  shows "hdr_size (blk ! j) = (if j = i then n else size_at m j)"
proof (cases "j \<in> {i..<i + n}")
  case True
  then have "size_at m j = 0" using takeableD(3) [OF t] runs_ok_freeD(1) [OF m j] by blast
  with True takenD(3) [OF k j] show ?thesis by simp
next
  case False
  with takenD(4) [OF k j] takeableD(1) [OF t] show ?thesis by auto
qed

lemma taken_free_set:
  assumes t: "takeable m i n" and k: "taken m i n blk"
  shows "free_set (m\<lparr>free_count := fc, first_free := ff, block := blk\<rparr>) = free_set m - {i..<i + n}"
proof (rule set_eqI)
  fix j
  show "j \<in> free_set (m\<lparr>free_count := fc, first_free := ff, block := blk\<rparr>)
    \<longleftrightarrow> j \<in> free_set m - {i..<i + n}"
  proof (cases "j < count m")
    case True
    then show ?thesis using takenD(1,4) [OF k True]
      by (cases "j \<in> {i..<i + n}") (auto simp: free_set_def)
  qed (simp add: free_set_def)
qed

lemma taken_run_set:
  assumes m: "runs_ok m" and t: "takeable m i n" and k: "taken m i n blk"
  shows "runs (m\<lparr>free_count := fc, first_free := ff, block := blk\<rparr>) = insert (i, n) (runs m)"
proof -
  have "runs (m\<lparr>free_count := fc, first_free := ff, block := blk\<rparr>)
    = {(j, if j = i then n else size_at m j) | j. j < count m \<and> 0 < (if j = i then n else size_at m j)}"
    using taken_size [OF m t k] by (auto simp: runs_def)
  moreover have "i < count m" "0 < n" using takeableD(1,2) [OF t] by auto
  moreover have "size_at m i = 0"
    using takeableD(3) [OF t, of i] runs_ok_freeD(1) [OF m] \<open>i < count m\<close> \<open>0 < n\<close> by simp
  ultimately show ?thesis by (auto simp: runs_def split: if_splits)
qed

lemma taken_runs_ok:
  assumes g: "geom_ok m" and m: "runs_ok m" and t: "takeable m i n" and k: "taken m i n blk"
  shows "runs_ok (m\<lparr>free_count := fc, first_free := ff, block := blk\<rparr>)" (is "runs_ok ?m")
proof -
  have size: "size_at ?m j = (if j = i then n else size_at m j)" if "j < count m" for j
    using taken_size [OF m t k that] by simp
  have addr: "block_addr ?m = block_addr m" by (rule ext) (simp add: block_addr_def)
  have 1: "j + size_at ?m j \<le> count m \<and> (\<forall>l\<in>{j..<j + size_at ?m j}.
      used_at ?m l \<and> unaligned_ptr (block ?m ! l) = block_addr m j)"
    if j: "j < count m" and pos: "0 < size_at ?m j" for j
  proof (cases "j = i")
    case True
    with size [OF j] takenD(1,2) [OF k] takeableD(2,4) [OF t] show ?thesis by simp
  next
    case False
    with size [OF j] pos have s: "size_at ?m j = size_at m j" "0 < size_at m j" by simp_all
    have "blk ! l = block m ! l" if "l \<in> {j..<j + size_at m j}" for l
    proof -
      have "l < count m" using that runs_okD(1) [OF m j s(2)] by simp
      then show ?thesis using takenD(4) [OF k] run_misses_taken [OF m t j s(2) that] by blast
    qed
    with s runs_okD [OF m j s(2)] show ?thesis by auto
  qed
  have 2: "\<exists>i\<le>j. 0 < size_at ?m i \<and> j < i + size_at ?m i" if j: "j < count m" and u: "used_at ?m j" for j
  proof (cases "j \<in> {i..<i + n}")
    case True
    with size [of i] takeableD(1,2) [OF t] show ?thesis by (intro exI [of _ i]) auto
  next
    case False
    with u takenD(4) [OF k j] have "used_at m j" by simp
    then obtain i' where i': "i' < count m" "0 < size_at m i'" "j \<in> {i'..<i' + size_at m i'}"
      using used_run [OF m j] by blast
    then have "i' \<noteq> i"
      using run_misses_taken [OF m t, of i' i'] takeableD(1) [OF t] by auto
    with i' size show ?thesis by (intro exI [of _ i']) auto
  qed
  have 3: "size_at ?m j = 0 \<and> unaligned_ptr (block ?m ! j) = 0" if j: "j < count m" and u: "\<not> used_at ?m j" for j
  proof -
    have "j \<notin> {i..<i + n}" using u takenD(1) [OF k j] by auto
    then show ?thesis using takenD(4) [OF k j] u runs_ok_freeD [OF m j] by simp
  qed
  show ?thesis unfolding runs_ok_def addr using 1 2 3 by simp
qed

text \<open>
  The first free index after a run was taken: the next free block, anything when none is left.
\<close>

lemma taken_map_ok:
  assumes m: "map_ok m" and t: "takeable m i n" and k: "taken m i n blk"
    and le: "ff \<le> count m"
    and ff: "free_set m - {i..<i + n} \<noteq> {} \<Longrightarrow>
      ff \<in> free_set m - {i..<i + n} \<and> (\<forall>j<ff. j \<notin> free_set m - {i..<i + n})"
  shows "map_ok (m\<lparr>free_count := free_count m - n, first_free := ff, block := blk\<rparr>)" (is "map_ok ?m")
proof -
  have fs: "free_set ?m = free_set m - {i..<i + n}" by (rule taken_free_set [OF t k])
  have "{i..<i + n} \<subseteq> free_set m" using t by (simp add: takeable_def)
  then have card: "card (free_set m - {i..<i + n}) = card (free_set m) - n"
    by (simp add: card_Diff_subset)
  have "geom_ok ?m" using m k by (simp add: map_ok_def geom_ok_def taken_def)
  moreover have "runs_ok ?m" using m t k taken_runs_ok by (simp add: map_ok_def)
  moreover have "free_ok ?m"
  proof -
    have fc: "free_count ?m = card (free_set ?m)"
      using m card fs by (simp add: map_ok_def free_ok_def)
    have "first_free ?m < count ?m \<and> \<not> used_at ?m (first_free ?m) \<and> (\<forall>j<first_free ?m. used_at ?m j)"
      if "0 < free_count ?m"
    proof -
      from that fc have "free_set ?m \<noteq> {}" by auto
      then have "ff \<in> free_set ?m" "\<forall>j<ff. j \<notin> free_set ?m" using ff fs by auto
      then show ?thesis by (auto simp: free_set_def)
    qed
    with fc le show ?thesis by (simp add: free_ok_def)
  qed
  ultimately show ?thesis by (simp add: map_ok_def)
qed

section \<open>Releasing a run\<close>

definition released :: "block_map \<Rightarrow> nat \<Rightarrow> nat \<Rightarrow> block_hdr list \<Rightarrow> bool" where
  "released m i n blk \<longleftrightarrow> length blk = count m \<and>
     (\<forall>k<count m. if i \<le> k \<and> k < i + n
        then hdr_used (blk ! k) = 0 \<and> unaligned_ptr (blk ! k) = 0 \<and> hdr_size (blk ! k) = 0
        else blk ! k = block m ! k)"

lemma releasedD:
  assumes "released m i n blk" and "k < count m"
  shows "k \<in> {i..<i + n} \<Longrightarrow> hdr_used (blk ! k) = 0"
    and "k \<in> {i..<i + n} \<Longrightarrow> unaligned_ptr (blk ! k) = 0"
    and "k \<in> {i..<i + n} \<Longrightarrow> hdr_size (blk ! k) = 0"
    and "k \<notin> {i..<i + n} \<Longrightarrow> blk ! k = block m ! k"
  using assms unfolding released_def by force+

lemma release_other_run:
  assumes m: "geom_ok m" "runs_ok m" and i: "i < count m" "n = size_at m i"
    and k: "released m i n blk" and j: "j < count m" "j \<noteq> i"
  shows "hdr_size (blk ! j) = size_at m j"
proof (cases "j \<in> {i..<i + n}")
  case True
  have "size_at m j = 0"
  proof (rule ccontr)
    assume "size_at m j \<noteq> 0"
    then have "j \<in> {j..<j + size_at m j}" by simp
    with True i j run_unique [OF m i(1) j(1)] show False by blast
  qed
  with True releasedD(3) [OF k j(1)] show ?thesis by simp
next
  case False
  with releasedD(4) [OF k j(1)] show ?thesis by simp
qed

lemma released_size:
  assumes m: "geom_ok m" "runs_ok m" and i: "i < count m" "n = size_at m i"
    and k: "released m i n blk" and j: "j < count m"
  shows "hdr_size (blk ! j) = (if j = i then 0 else size_at m j)"
  using release_other_run [OF m i k j] releasedD(3,4) [OF k i(1)] i
  by (cases "n = 0") auto

lemma released_free_set:
  assumes m: "runs_ok m" and i: "i < count m" "n = size_at m i" and k: "released m i n blk"
  shows "free_set (m\<lparr>block := blk, free_count := fc, first_free := ff\<rparr>) = free_set m \<union> {i..<i + n}"
proof (rule set_eqI)
  fix j
  have le: "i + n \<le> count m"
    using runs_okD(1) [OF m i(1)] i by (cases "size_at m i = 0") auto
  show "j \<in> free_set (m\<lparr>block := blk, free_count := fc, first_free := ff\<rparr>)
    \<longleftrightarrow> j \<in> free_set m \<union> {i..<i + n}"
  proof (cases "j < count m")
    case True
    then show ?thesis using releasedD(1,4) [OF k True]
      by (cases "j \<in> {i..<i + n}") (auto simp: free_set_def)
  qed (use le in \<open>auto simp: free_set_def\<close>)
qed

lemma released_run_set:
  assumes m: "geom_ok m" "runs_ok m" and i: "i < count m" "n = size_at m i"
    and k: "released m i n blk"
  shows "runs (m\<lparr>block := blk, free_count := fc, first_free := ff\<rparr>) = runs m - {(i, n)}"
  using released_size [OF m i k] i by (auto simp: runs_def)

lemma released_runs_ok:
  assumes m: "geom_ok m" "runs_ok m" and i: "i < count m" "n = size_at m i"
    and k: "released m i n blk"
  shows "runs_ok (m\<lparr>block := blk, free_count := fc, first_free := ff\<rparr>)" (is "runs_ok ?m")
proof -
  have size: "size_at ?m j = (if j = i then 0 else size_at m j)" if "j < count m" for j
    using released_size [OF m i k that] by simp
  have addr: "block_addr ?m = block_addr m" by (rule ext) (simp add: block_addr_def)
  have keep: "blk ! l = block m ! l"
    if "j < count m" "j \<noteq> i" "0 < size_at m j" "l \<in> {j..<j + size_at m j}" for j l
  proof -
    have "l < count m" using that runs_okD(1) [OF m(2) that(1,3)] by simp
    moreover have "l \<notin> {i..<i + n}"
      using run_unique [OF m i(1) that(1)] that(2,4) i(2) by blast
    ultimately show ?thesis using releasedD(4) [OF k] by blast
  qed
  have 1: "j + size_at ?m j \<le> count m \<and> (\<forall>l\<in>{j..<j + size_at ?m j}.
      used_at ?m l \<and> unaligned_ptr (block ?m ! l) = block_addr m j)"
    if j: "j < count m" and pos: "0 < size_at ?m j" for j
  proof -
    from size [OF j] pos have s: "size_at ?m j = size_at m j" "0 < size_at m j" "j \<noteq> i"
      by (auto split: if_splits)
    with keep [OF j] runs_okD [OF m(2) j s(2)] show ?thesis by auto
  qed
  have 2: "\<exists>i\<le>j. 0 < size_at ?m i \<and> j < i + size_at ?m i" if j: "j < count m" and u: "used_at ?m j" for j
  proof -
    from u releasedD(1) [OF k j] have out: "j \<notin> {i..<i + n}" by auto
    with u releasedD(4) [OF k j] have "used_at m j" by simp
    then obtain i' where i': "i' < count m" "0 < size_at m i'" "j \<in> {i'..<i' + size_at m i'}"
      using used_run [OF m(2) j] by blast
    with out i(2) have "i' \<noteq> i" by auto
    with i' size show ?thesis by (intro exI [of _ i']) auto
  qed
  have 3: "size_at ?m j = 0 \<and> unaligned_ptr (block ?m ! j) = 0" if j: "j < count m" and u: "\<not> used_at ?m j" for j
    using releasedD(2,3,4) [OF k j] u runs_ok_freeD [OF m(2) j]
    by (cases "j \<in> {i..<i + n}") auto
  show ?thesis unfolding runs_ok_def addr using 1 2 3 by simp
qed

lemma run_not_free:
  assumes "runs_ok m" and "i < count m" and "k \<in> {i..<i + size_at m i}"
  shows "k \<notin> free_set m"
proof -
  have "0 < size_at m i" using assms(3) by auto
  then have "used_at m k" using runs_okD(2) [OF assms(1,2)] assms(3) by blast
  then show ?thesis by (simp add: free_set_def)
qed

lemma released_map_ok:
  assumes m: "map_ok m" and i: "i < count m" "n = size_at m i" "0 < n" and k: "released m i n blk"
  shows "map_ok (m\<lparr>block := blk, free_count := free_count m + n,
           first_free := (if i < first_free m \<or> free_count m = 0 then i else first_free m)\<rparr>)"
    (is "map_ok ?m")
proof -
  note mD = map_okD [OF m]
  let ?ff = "if i < first_free m \<or> free_count m = 0 then i else first_free m"
  have fs: "free_set ?m = free_set m \<union> {i..<i + n}"
    by (rule released_free_set [OF mD(2) i(1,2) k])
  have disj: "free_set m \<inter> {i..<i + n} = {}" using run_not_free [OF mD(2) i(1)] i(2) by blast
  have fc: "free_count ?m = card (free_set ?m)"
    using mD(3) fs disj by (simp add: free_ok_def card_Un_disjoint)
  have min: "?ff \<in> free_set ?m \<and> (\<forall>j<?ff. j \<notin> free_set ?m)"
  proof (cases "free_count m = 0")
    case True
    with mD(3) have "free_set m = {}" by (simp add: free_ok_def)
    with True fs i(3) show ?thesis by simp
  next
    case False
    with mD(3) have "first_free m \<in> free_set m" "\<forall>j<first_free m. j \<notin> free_set m"
      by (auto simp: free_ok_def free_set_def)
    with False fs i(3) show ?thesis by auto
  qed
  then have "free_ok ?m" using fc by (auto simp: free_ok_def free_set_def)
  moreover have "geom_ok ?m" using mD(1) k by (simp add: geom_ok_def released_def)
  moreover have "runs_ok ?m" by (rule released_runs_ok [OF mD(1,2) i(1,2) k])
  ultimately show ?thesis by (simp add: map_ok_def)
qed

section \<open>The loops over headers\<close>

lemma length_upd_range [simp]: "length (upd_range f s n xs) = length xs"
  by (simp add: upd_range_def)

lemma nth_upd_range:
  "k < length xs \<Longrightarrow> upd_range f s n xs ! k = (if s \<le> k \<and> k < s + n then f (xs ! k) else xs ! k)"
  by (simp add: upd_range_def)

lemma find_upt_Some:
  "List.find P [a..<b] = Some i \<longleftrightarrow> a \<le> i \<and> i < b \<and> P i \<and> (\<forall>j. a \<le> j \<and> j < i \<longrightarrow> \<not> P j)"
proof
  assume "List.find P [a..<b] = Some i"
  then obtain k where k: "k < b - a" "P (a + k)" "i = a + k" "\<forall>j<k. \<not> P (a + j)"
    by (auto simp: find_Some_iff)
  then have "\<not> P j" if "a \<le> j" "j < i" for j
    using that by (metis add_less_cancel_left le_add_diff_inverse)
  with k show "a \<le> i \<and> i < b \<and> P i \<and> (\<forall>j. a \<le> j \<and> j < i \<longrightarrow> \<not> P j)" by auto
next
  assume r: "a \<le> i \<and> i < b \<and> P i \<and> (\<forall>j. a \<le> j \<and> j < i \<longrightarrow> \<not> P j)"
  then show "List.find P [a..<b] = Some i"
    by (auto simp: find_Some_iff intro!: exI [of _ "i - a"])
qed

lemma find_upt_None: "List.find P [a..<b] = None \<longleftrightarrow> (\<forall>j. a \<le> j \<and> j < b \<longrightarrow> \<not> P j)"
  by (auto simp: find_None_iff)

lemma next_free_Some:
  "next_free blk a b = Some i \<longleftrightarrow>
     a \<le> i \<and> i < b \<and> hdr_used (blk ! i) = 0 \<and> (\<forall>j. a \<le> j \<and> j < i \<longrightarrow> hdr_used (blk ! j) \<noteq> 0)"
  by (simp add: next_free_def find_upt_Some)

lemma next_free_None:
  "next_free blk a b = None \<longleftrightarrow> (\<forall>j. a \<le> j \<and> j < b \<longrightarrow> hdr_used (blk ! j) \<noteq> 0)"
  by (simp add: next_free_def find_upt_None)

text \<open>The header loop of \<^verbatim>\<open>free_block\<close> releases the run it starts at.\<close>

lemma upd_range_released:
  "length (block m) = count m \<Longrightarrow>
     released m i n (upd_range (\<lambda>hd. hd\<lparr>hdr_size := 0, hdr_used := 0, unaligned_ptr := 0\<rparr>) i n (block m))"
  by (simp add: released_def nth_upd_range)

section \<open>Single blocks\<close>

lemma alloc_one_taken:
  assumes "map_ok m" and "i < count m"
  shows "taken m i 1 ((block m)[i := (block m ! i)\<lparr>unaligned_ptr := block_addr m i,
           hdr_size := 1, hdr_used := 1\<rparr>])"
  using assms map_okD(4) by (auto simp: taken_def nth_list_update)

lemma takeable_one: "i \<in> free_set m \<Longrightarrow> takeable m i 1"
  by (auto simp: takeable_def free_set_def)

lemma first_free_free:
  assumes "map_ok m" and "free_count m \<noteq> 0"
  shows "first_free m \<in> free_set m" and "\<forall>j<first_free m. j \<notin> free_set m"
  using map_okD(3) [OF assms(1)] assms(2) by (auto simp: free_ok_def free_set_def)

lemma free_set_pos: "map_ok m \<Longrightarrow> i \<in> free_set m \<Longrightarrow> 0 < free_count m"
  by (auto simp: map_ok_def free_ok_def card_gt_0_iff)

lemma free_count_less: "map_ok m \<Longrightarrow> free_count m \<le> count m"
proof -
  assume "map_ok m"
  then have "free_count m = card (free_set m)" by (simp add: map_ok_def free_ok_def)
  also have "\<dots> \<le> card {..<count m}" by (rule card_mono) (auto simp: free_set_def)
  finally show ?thesis by simp
qed

text \<open>The map that \<^verbatim>\<open>alloc_block_index\<close> leaves when it takes the free block \<open>i\<close>.\<close>

lemma alloc_one_map_ok:
  assumes m: "map_ok m" and i: "i \<in> free_set m"
  defines "blk \<equiv> (block m)[i := (block m ! i)\<lparr>unaligned_ptr := block_addr m i,
             hdr_size := 1, hdr_used := 1\<rparr>]"
  defines "ff \<equiv> (if i = first_free m
             then case next_free blk (first_free m) (count m) of Some j \<Rightarrow> j | None \<Rightarrow> first_free m
             else first_free m)"
  shows "map_ok (m\<lparr>free_count := free_count m - 1, block := blk, first_free := ff\<rparr>)"
    and "runs (m\<lparr>free_count := free_count m - 1, block := blk, first_free := ff\<rparr>) = insert (i, 1) (runs m)"
proof -
  have ic: "i < count m" using i by (simp add: free_set_def)
  note t = takeable_one [OF i]
  have k: "taken m i 1 blk" unfolding blk_def by (rule alloc_one_taken [OF m ic])
  have pos: "free_count m \<noteq> 0" using free_set_pos [OF m i] by simp
  note ff0 = first_free_free [OF m pos]
  have fs: "free_set (m\<lparr>free_count := fc, first_free := f, block := blk\<rparr>) = free_set m - {i}" for fc f
    using taken_free_set [OF t k] by simp
  have used: "j \<in> free_set m - {i} \<longleftrightarrow> j < count m \<and> hdr_used (blk ! j) = 0" for j
    using fs [symmetric] by (simp add: free_set_def)
  have le: "ff \<le> count m"
    using ff0(1) by (auto simp: ff_def free_set_def next_free_Some split: option.splits)
  have min: "ff \<in> free_set m - {i} \<and> (\<forall>j<ff. j \<notin> free_set m - {i})" if ne: "free_set m - {i} \<noteq> {}"
  proof (cases "i = first_free m")
    case False
    with ff0 show ?thesis by (simp add: ff_def)
  next
    case True
    obtain j where j: "j \<in> free_set m - {i}" using ne by blast
    then have "first_free m \<le> j" using ff0(2) by (meson DiffD1 not_le)
    with j used have "next_free blk (first_free m) (count m) \<noteq> None"
      by (auto simp: next_free_None)
    then obtain l where l: "next_free blk (first_free m) (count m) = Some l" by blast
    with True have "ff = l" by (simp add: ff_def)
    moreover have "j \<notin> free_set m - {i}" if "j < l" for j
      using that l ff0(2) used [of j]
      by (cases "j < first_free m") (simp_all add: next_free_Some)
    moreover have "l \<in> free_set m - {i}" using l used [of l] by (simp add: next_free_Some)
    ultimately show ?thesis by simp
  qed
  have eq: "m\<lparr>free_count := c, block := blk, first_free := ff\<rparr>
    = m\<lparr>free_count := c, first_free := ff, block := blk\<rparr>" for c by simp
  show "map_ok (m\<lparr>free_count := free_count m - 1, block := blk, first_free := ff\<rparr>)"
    unfolding eq using taken_map_ok [OF m t k le] min by simp
  show "runs (m\<lparr>free_count := free_count m - 1, block := blk, first_free := ff\<rparr>) = insert (i, 1) (runs m)"
    unfolding eq by (rule taken_run_set [OF map_okD(2) [OF m] t k])
qed

section \<open>Contiguous blocks\<close>

lemma and_pred_dvd: "is_power_of_2 a \<Longrightarrow> x AND (a - 1) = 0 \<longleftrightarrow> a dvd x" for x :: nat
proof -
  assume "is_power_of_2 a"
  then obtain k where "a = 2 ^ k" by (auto simp: is_power_of_2_iff)
  then have "x AND (a - 1) = x mod a"
    by (metis mask_eq_exp_minus_1 take_bit_eq_mask take_bit_eq_mod)
  then show ?thesis by auto
qed

text \<open>An alignment the search can work with: none, or a power of two that fits above the map.\<close>

definition align_ok :: "block_map \<Rightarrow> nat \<Rightarrow> bool" where
  "align_ok m a \<longleftrightarrow> a = 0 \<or> is_power_of_2 a \<and> block_addr m (count m) + a \<le> 2 ^ 32"

lemma align_ok_bounds:
  assumes "align_ok m a" and "a \<noteq> 0" and "i \<le> count m"
  shows "block_addr m i \<le> ALIGN_UP (block_addr m i) a"
    and "a dvd ALIGN_UP (block_addr m i) a"
    and "ALIGN_UP (block_addr m i) a < block_addr m i + a"
    and "a dvd block_addr m i \<Longrightarrow> ALIGN_UP (block_addr m i) a = block_addr m i"
proof -
  have p: "is_power_of_2 a" and le: "block_addr m i + a - 1 < 2 ^ 32"
    using assms block_addr_mono [of i "count m" m] by (auto simp: align_ok_def)
  show "block_addr m i \<le> ALIGN_UP (block_addr m i) a"
    and "a dvd ALIGN_UP (block_addr m i) a" and "ALIGN_UP (block_addr m i) a < block_addr m i + a"
    by (rule ALIGN_UP_bounds [OF p le])+
  show "a dvd block_addr m i \<Longrightarrow> ALIGN_UP (block_addr m i) a = block_addr m i"
    by (rule ALIGN_UP_aligned [OF p le])
qed

lemma block_addr_Suc: "block_addr m (Suc i) = block_addr m i + block_size m"
  by (simp add: block_addr_def)

text \<open>
  What the search knows at the head of its loop: either it is not inside a sequence of free
  blocks, or the blocks from \<^verbatim>\<open>start\<close> up to \<^verbatim>\<open>current\<close> are free and the first of them holds an
  aligned address.
\<close>

definition scan_inv :: "block_map \<Rightarrow> nat \<Rightarrow> nat \<Rightarrow> cont_scan \<Rightarrow> bool" where
  "scan_inv m bytes a s \<longleftrightarrow> first_free m \<le> sc_current s \<and> sc_current s \<le> count m \<and>
     (if sc_count s = 0 then sc_found s = 0 \<and> sc_total s = bytes
      else sc_start s + sc_count s = sc_current s \<and> first_free m \<le> sc_start s \<and>
        {sc_start s..<sc_current s} \<subseteq> free_set m \<and>
        sc_found s = sc_count s * block_size m \<and>
        sc_blk_start s = block_addr m (sc_start s) \<and>
        sc_blk_start s \<le> sc_aligned s \<and> sc_aligned s < sc_blk_start s + block_size m \<and>
        (a \<noteq> 0 \<longrightarrow> a dvd sc_aligned s) \<and>
        sc_total s = bytes + (sc_aligned s - sc_blk_start s))"

lemma run_bytes:
  assumes "geom_ok m" and "i + n \<le> count m"
  shows "n * block_size m < 2 ^ 32" and "block_addr m i + n * block_size m = block_addr m (i + n)"
proof -
  have "n * block_size m \<le> count m * block_size m" using assms(2) by simp
  moreover have "count m * block_size m < 2 ^ 32"
    using assms(1) unfolding geom_ok_def by (simp add: mult.commute)
  ultimately show "n * block_size m < 2 ^ 32" by linarith
  show "block_addr m i + n * block_size m = block_addr m (i + n)"
    by (simp add: block_addr_def algebra_simps)
qed

lemma cont_step_inv:
  assumes g: "geom_ok m" and a: "align_ok m a" and b: "bytes + block_size m < 2 ^ 32"
    and inv: "scan_inv m bytes a s" and c: "sc_current s < count m"
  shows "scan_inv m bytes a (cont_step m bytes a (block m ! sc_current s) s)"
    and "sc_current (cont_step m bytes a (block m ! sc_current s) s) = Suc (sc_current s)"
proof -
  let ?c = "sc_current s"
  let ?s' = "cont_step m bytes a (block m ! ?c) s"
  have bst: "u32 (base m + ?c * block_size m) = block_addr m ?c"
    using u32_block_addr [OF g, of ?c] c by (simp add: mult.commute)
  have nxt: "u32 (block_addr m ?c + block_size m) = block_addr m (Suc ?c)"
    using block_addr_less [OF g, of "Suc ?c"] c by (simp add: u32_id block_addr_Suc)
  have bs: "0 < block_size m" "block_size m < 2 ^ 32" using g by (auto simp: geom_ok_def)
  show cur: "sc_current ?s' = Suc ?c"
    by (simp add: cont_step_def cont_grow_def Let_def)
  show "scan_inv m bytes a ?s'"
  proof (cases "used_at m ?c")
    case True
    with inv c show ?thesis by (simp add: cont_step_def scan_inv_def)
  next
    case free: False
    with c have fr: "?c \<in> free_set m" by (simp add: free_set_def)
    show ?thesis
    proof (cases "sc_count s = 0")
      case False
      with inv have i: "sc_start s + sc_count s = ?c" "sc_found s = sc_count s * block_size m"
        by (auto simp: scan_inv_def)
      have "u32 (sc_found s + block_size m) = Suc (sc_count s) * block_size m"
        using run_bytes(1) [OF g, of "sc_start s" "Suc (sc_count s)"] i c by (simp add: u32_id add.commute)
      moreover have "{sc_start s..<Suc ?c} = insert ?c {sc_start s..<?c}" using i by auto
      ultimately show ?thesis
        using inv False free fr i bs c by (simp add: cont_step_def cont_grow_def scan_inv_def)
    next
      case True
      with inv have i: "sc_found s = 0" "sc_total s = bytes" by (auto simp: scan_inv_def)
      show ?thesis
      proof (cases "a = 0")
        case True
        then show ?thesis
          using inv \<open>sc_count s = 0\<close> free fr i bs c
          by (simp add: cont_step_def cont_grow_def scan_inv_def Let_def bst u32_id)
      next
        case False
        let ?al = "ALIGN_UP (block_addr m ?c) a"
        note al = align_ok_bounds [OF a False, of ?c]
        have pw: "is_power_of_2 a" using a False by (simp add: align_ok_def)
        show ?thesis
        proof (cases "block_addr m ?c AND (a - 1) \<noteq> 0 \<and> block_addr m (Suc ?c) \<le> ?al")
          case True
          with inv \<open>sc_count s = 0\<close> free i c False show ?thesis
            by (simp add: cont_step_def scan_inv_def Let_def bst nxt)
        next
          case ok: False
          then have lt: "?al < block_addr m ?c + block_size m"
            using al(4) c bs(1) and_pred_dvd [OF pw] by (fastforce simp: block_addr_Suc)
          have "block_addr m ?c + block_size m < 2 ^ 32"
            using block_addr_less [OF g, of "Suc ?c"] c by (simp add: block_addr_Suc)
          then have "u32_sub ?al (block_addr m ?c) = ?al - block_addr m ?c"
            using al(1) c lt by (simp add: u32_sub_id)
          moreover have "u32 (bytes + (?al - block_addr m ?c)) = bytes + (?al - block_addr m ?c)"
            using lt b by (simp add: u32_id)
          ultimately show ?thesis
            using inv \<open>sc_count s = 0\<close> free fr i bs c False ok al(1,2) lt
            by (simp add: cont_step_def cont_grow_def scan_inv_def Let_def bst nxt u32_id)
        qed
      qed
    qed
  qed
qed

lemma cont_loop_inv:
  assumes g: "geom_ok m" and a: "align_ok m a" and b: "bytes + block_size m < 2 ^ 32"
  shows "scan_inv m bytes a s \<Longrightarrow> hdrs = drop (sc_current s) (take (count m) (block m)) \<Longrightarrow>
    scan_inv m bytes a (cont_loop m bytes a hdrs s)"
proof (induction hdrs arbitrary: s)
  case Nil
  then show ?case by simp
next
  case (Cons hdr hdrs)
  let ?c = "sc_current s"
  have len: "length (take (count m) (block m)) = count m" using g by (simp add: geom_ok_def)
  have c: "?c < count m"
    using Cons.prems(2) len by (metis drop_all list.distinct(1) not_le)
  have hd: "hdr = block m ! ?c" and tl: "hdrs = drop (Suc ?c) (take (count m) (block m))"
    using Cons.prems(2) c len
    by (metis Cons_nth_drop_Suc list.inject nth_take, metis Cons_nth_drop_Suc list.inject)
  show ?case
    using Cons.IH [of "cont_step m bytes a hdr s"] Cons.prems(1) hd tl
      cont_step_inv [OF g a b Cons.prems(1) c] by simp
qed

lemma cont_search_inv:
  assumes "map_ok m" and "align_ok m a" and "bytes + block_size m < 2 ^ 32"
  shows "scan_inv m bytes a (cont_search m bytes a)"
  unfolding cont_search_def
  by (rule cont_loop_inv) (use assms in \<open>auto simp: map_ok_def scan_inv_def free_ok_def\<close>)

lemma cont_search_found:
  assumes m: "map_ok m" and a: "align_ok m a" and b: "0 < bytes" "bytes + block_size m < 2 ^ 32"
    and s: "s = cont_search m bytes a" and f: "\<not> sc_found s < sc_total s"
  shows "takeable m (sc_start s) (sc_count s)" and "first_free m \<le> sc_start s"
    and "sc_blk_start s = block_addr m (sc_start s)"
    and "sc_blk_start s \<le> sc_aligned s" and "a \<noteq> 0 \<Longrightarrow> a dvd sc_aligned s"
    and "sc_aligned s + bytes \<le> block_addr m (sc_start s + sc_count s)"
proof -
  have inv: "scan_inv m bytes a s" unfolding s by (rule cont_search_inv [OF m a b(2)])
  have "sc_count s \<noteq> 0" using inv f b(1) by (auto simp: scan_inv_def split: if_splits)
  with inv show "takeable m (sc_start s) (sc_count s)" and "first_free m \<le> sc_start s"
    and blk: "sc_blk_start s = block_addr m (sc_start s)"
    and le: "sc_blk_start s \<le> sc_aligned s" and "a \<noteq> 0 \<Longrightarrow> a dvd sc_aligned s"
    by (auto simp: scan_inv_def takeable_def)
  have "sc_count s * block_size m \<ge> bytes + (sc_aligned s - sc_blk_start s)"
    using inv f \<open>sc_count s \<noteq> 0\<close> by (auto simp: scan_inv_def)
  moreover have "block_addr m (sc_start s) + sc_count s * block_size m
      = block_addr m (sc_start s + sc_count s)"
    by (simp add: block_addr_def algebra_simps)
  ultimately show "sc_aligned s + bytes \<le> block_addr m (sc_start s + sc_count s)"
    using le blk by linarith
qed

section \<open>What an operation does to one map\<close>

definition takes_run :: "block_map \<Rightarrow> block_map \<Rightarrow> nat \<Rightarrow> nat \<Rightarrow> bool" where
  "takes_run m m' i n \<longleftrightarrow> map_ok m' \<and> same_geom m m' \<and> takeable m i n \<and>
     runs m' = insert (i, n) (runs m) \<and> free_count m' + n = free_count m"

definition drops_run :: "block_map \<Rightarrow> block_map \<Rightarrow> nat \<Rightarrow> nat \<Rightarrow> bool" where
  "drops_run m m' i n \<longleftrightarrow> map_ok m' \<and> same_geom m m' \<and> (i, n) \<in> runs m \<and>
     runs m' = runs m - {(i, n)} \<and> free_count m' = free_count m + n"

lemma takeable_count:
  assumes "map_ok m" and "takeable m i n"
  shows "n \<le> free_count m"
proof -
  have "card {i..<i + n} \<le> card (free_set m)"
    using assms(2) by (intro card_mono) (auto simp: takeable_def)
  with assms(1) show ?thesis by (simp add: map_ok_def free_ok_def)
qed

lemma alloc_block_index_takes:
  assumes m: "map_ok m" "m = hmap h ! level"
    and i: "i = (if index < 0 then first_free m else nat index)" "i \<in> free_set m"
  shows "\<exists>m'. alloc_block_index h level a index =
      Done (h\<lparr>hmap := (hmap h)[level := m'], info := heap_account h (block_size m)\<rparr>,
            if a \<le> 1 then block_addr m i else ALIGN_UP (block_addr m i) a) \<and> takes_run m m' i 1"
proof -
  have ic: "i < count m" using i(2) by (simp add: free_set_def)
  have addr: "u32 (base m + i * block_size m) = block_addr m i"
    using u32_block_addr [OF map_okD(1) [OF m(1)], of i] ic by (simp add: mult.commute)
  have pos: "0 < free_count m" by (rule free_set_pos [OF m(1) i(2)])
  moreover have "free_count m < 2 ^ 16"
    using free_count_less [OF m(1)] map_okD(1) [OF m(1)] by (simp add: geom_ok_def)
  ultimately have fc: "u16_sub (free_count m) 1 = free_count m - 1" by (simp add: u16_sub_id)
  define blk where "blk = (block m)[i := (block m ! i)\<lparr>unaligned_ptr := block_addr m i,
             hdr_size := 1, hdr_used := 1\<rparr>]"
  define ff where "ff = (if i = first_free m
             then case next_free blk (first_free m) (count m) of Some j \<Rightarrow> j | None \<Rightarrow> first_free m
             else first_free m)"
  let ?m = "m\<lparr>free_count := free_count m - 1, block := blk, first_free := ff\<rparr>"
  have "takes_run m ?m i 1"
    using alloc_one_map_ok [OF m(1) i(2), folded blk_def, folded ff_def]
      takeable_one [OF i(2)] pos
    by (simp add: takes_run_def same_geom_def)
  moreover have "alloc_block_index h level a index =
      Done (h\<lparr>hmap := (hmap h)[level := ?m], info := heap_account h (block_size m)\<rparr>,
            if a \<le> 1 then block_addr m i else ALIGN_UP (block_addr m i) a)"
    using ic map_okD(4) [OF m(1)]
    unfolding alloc_block_index_def Let_def align_ptr_def prod.case m(2) [symmetric]
      i(1) [symmetric] addr fc blk_def ff_def by simp
  ultimately show ?thesis by blast
qed

text \<open>The headers and the first free index that \<^verbatim>\<open>alloc_cont_blocks\<close> writes.\<close>

lemma cont_taken:
  assumes m: "map_ok m" and t: "takeable m i n"
  shows "taken m i n (upd_range (\<lambda>hd. hd\<lparr>hdr_used := 1, unaligned_ptr := block_addr m i\<rparr>) i n
           ((block m)[i := (block m ! i)\<lparr>hdr_size := n\<rparr>]))"
proof -
  have "size_at m k = 0" if "k \<in> {i..<i + n}" for k
    using that takeableD(3,4) [OF t] runs_ok_freeD(1) [OF map_okD(2) [OF m]] by blast
  then show ?thesis
    using map_okD(4) [OF m] takeableD(1) [OF t]
    by (auto simp: taken_def nth_upd_range nth_list_update)
qed

lemma cont_first_free:
  assumes m: "map_ok m" and t: "takeable m i n" and le: "first_free m \<le> i"
  defines "ff \<equiv> (if first_free m = i
       then case next_free ((block m)[i := (block m ! i)\<lparr>hdr_size := n\<rparr>]) (first_free m + n) (count m) of
              Some j \<Rightarrow> j | None \<Rightarrow> max (first_free m + n) (count m)
       else first_free m)"
  shows "ff \<le> count m"
    and "free_set m - {i..<i + n} \<noteq> {} \<Longrightarrow>
      ff \<in> free_set m - {i..<i + n} \<and> (\<forall>j<ff. j \<notin> free_set m - {i..<i + n})"
proof -
  let ?blk = "(block m)[i := (block m ! i)\<lparr>hdr_size := n\<rparr>]"
  have used: "hdr_used (?blk ! j) = hdr_used (block m ! j)" if "j < count m" for j
    using that map_okD(4) [OF m] by (cases "j = i") simp_all
  have n: "0 < n" "i + n \<le> count m" by (rule takeableD(1,2) [OF t])+
  show "ff \<le> count m"
    using n map_okD(3) [OF m] by (auto simp: ff_def next_free_Some free_ok_def split: option.splits)
  have fc: "free_count m \<noteq> 0" using takeable_count [OF m t] n by simp
  note ff0 = first_free_free [OF m fc]
  show "ff \<in> free_set m - {i..<i + n} \<and> (\<forall>j<ff. j \<notin> free_set m - {i..<i + n})"
    if ne: "free_set m - {i..<i + n} \<noteq> {}"
  proof (cases "first_free m = i")
    case False
    with le ff0 show ?thesis by (auto simp: ff_def)
  next
    case True
    obtain j where j: "j \<in> free_set m" "j \<notin> {i..<i + n}" using ne by blast
    then have "i + n \<le> j" using ff0(2) True by (metis atLeastLessThan_iff not_le)
    with j True used have "next_free ?blk (first_free m + n) (count m) \<noteq> None"
      by (auto simp: next_free_None free_set_def)
    then obtain l where l: "next_free ?blk (first_free m + n) (count m) = Some l" by blast
    then have "ff = l" using True by (simp add: ff_def)
    moreover have "l \<in> free_set m - {i..<i + n}"
      using l True used [of l] by (auto simp: next_free_Some free_set_def)
    moreover have "j \<notin> free_set m - {i..<i + n}" if "j < l" for j
    proof (cases "i + n \<le> j")
      case True
      have "hdr_used (?blk ! j) \<noteq> 0" and "j < count m"
        using l \<open>first_free m = i\<close> True \<open>j < l\<close> unfolding next_free_Some by auto
      with used [of j] show ?thesis by (simp add: free_set_def)
    next
      case False
      then show ?thesis using ff0(2) \<open>first_free m = i\<close> by (cases "j < i") auto
    qed
    ultimately show ?thesis by simp
  qed
qed

lemma alloc_cont_blocks_takes:
  assumes m: "map_ok m" "m = hmap h ! level" and a: "align_ok m a"
    and b: "0 < bytes" "bytes + block_size m < 2 ^ 32"
  shows "alloc_cont_blocks h level bytes a = Done (h, 0) \<or>
    (\<exists>m' i n p. alloc_cont_blocks h level bytes a =
        Done (h\<lparr>hmap := (hmap h)[level := m'], info := heap_account h (n * block_size m)\<rparr>, p) \<and>
      takes_run m m' i n \<and> block_addr m i \<le> p \<and> p + bytes \<le> block_addr m (i + n) \<and>
      (a \<noteq> 0 \<longrightarrow> a dvd p))"
proof (cases "nat ((int (count m) - int (first_free m)) * int (block_size m) mod 2 ^ 32) < bytes
    \<or> sc_found (cont_search m bytes a) < sc_total (cont_search m bytes a)")
  case True
  then show ?thesis by (auto simp: alloc_cont_blocks_def Let_def simp flip: m(2))
next
  case False
  define s where "s = cont_search m bytes a"
  define i where "i = sc_start s"
  define n where "n = sc_count s"
  have f: "\<not> sc_found s < sc_total s" using False by (simp add: s_def)
  note found = cont_search_found [OF m(1) a b s_def f, folded i_def n_def]
  have n: "0 < n" "i + n \<le> count m" by (rule takeableD(1,2) [OF found(1)])+
  have c16: "count m < 2 ^ 16" using map_okD(1) [OF m(1)] by (simp add: geom_ok_def)
  have fc: "u16_sub (free_count m) n = free_count m - n"
    using takeable_count [OF m(1) found(1)] free_count_less [OF m(1)] c16 by (simp add: u16_sub_id)
  define ff where "ff = (if first_free m = i
       then case next_free ((block m)[i := (block m ! i)\<lparr>hdr_size := n\<rparr>]) (first_free m + n) (count m) of
              Some j \<Rightarrow> j | None \<Rightarrow> max (first_free m + n) (count m)
       else first_free m)"
  define blk where "blk = upd_range (\<lambda>hd. hd\<lparr>hdr_used := 1, unaligned_ptr := block_addr m i\<rparr>) i n
           ((block m)[i := (block m ! i)\<lparr>hdr_size := n\<rparr>])"
  note k = cont_taken [OF m(1) found(1), folded blk_def]
  note fo = cont_first_free [OF m(1) found(1,2), folded ff_def]
  let ?m = "m\<lparr>free_count := free_count m - n, first_free := ff, block := blk\<rparr>"
  have "map_ok ?m" by (rule taken_map_ok [OF m(1) found(1) k fo])
  moreover have "runs ?m = insert (i, n) (runs m)"
    by (rule taken_run_set [OF map_okD(2) [OF m(1)] found(1) k])
  ultimately have "takes_run m ?m i n"
    using found(1) takeable_count [OF m(1) found(1)] by (simp add: takes_run_def same_geom_def)
  moreover have "alloc_cont_blocks h level bytes a =
      Done (h\<lparr>hmap := (hmap h)[level := ?m], info := heap_account h (n * block_size m)\<rparr>, sc_aligned s)"
  proof -
    have ff16: "u16 ff = ff" and n16: "u16 n = n" using fo(1) n c16 by (simp_all add: u16_id)
    have n32: "u32 (n * block_size m) = n * block_size m"
      using run_bytes(1) [OF map_okD(1) [OF m(1)] n(2)] by (simp add: u32_id)
    have "\<not> (length (block m) \<le> i \<or> length (block m) < i + n)"
      using n map_okD(4) [OF m(1)] by simp
    then show ?thesis
      using False unfolding alloc_cont_blocks_def Let_def m(2) [symmetric] s_def [symmetric]
        i_def [symmetric] n_def [symmetric] found(3) fc n16 n32 ff_def [symmetric]
        blk_def [symmetric] ff16 by simp
  qed
  ultimately show ?thesis using found(3,4,5,6) by (intro disjI2) (metis)
qed

end
