(* ===== verification/MmHeap_Safety.thy ===== *)
theory MmHeap_Safety
  imports MmHeap_Inv
begin

text \<open>
  Memory safety of one heap of \<^verbatim>\<open>src/lib/alloc.c\<close>: the invariant over all its maps, the live
  regions as its abstract state, and the refinement of \<open>get_ptr_from_heap\<close>,
  \<open>alloc_heap_buffer\<close> and \<open>free_in_heap\<close> to an allocator of disjoint regions.
\<close>

section \<open>Heaps and their live regions\<close>

definition region :: "block_map \<Rightarrow> nat \<times> nat \<Rightarrow> nat \<times> nat" where
  "region m r = (block_addr m (fst r), snd r * block_size m)"

definition extent :: "nat \<times> nat \<Rightarrow> nat set" where
  "extent r = {fst r..<fst r + snd r}"

definition live :: "mm_heap \<Rightarrow> (nat \<times> nat) set" where
  "live h = (\<Union>i<length (hmap h). region (hmap h ! i) ` runs (hmap h ! i))"

definition map_end :: "block_map \<Rightarrow> nat" where
  "map_end m = block_addr m (count m)"

definition map_used :: "block_map \<Rightarrow> nat" where
  "map_used m = block_size m * (count m - free_count m)"

definition layout_ok :: "mm_heap \<Rightarrow> bool" where
  "layout_ok h \<longleftrightarrow> heap h + heap_size h < 2 ^ 32 \<and>
     (\<forall>j<length (hmap h). heap h \<le> base (hmap h ! j) \<and>
        map_end (hmap h ! j) \<le> heap h + heap_size h \<and>
        (\<forall>i<j. map_end (hmap h ! i) \<le> base (hmap h ! j))) \<and>
     (\<Sum>m\<leftarrow>hmap h. block_size m * count m) \<le> heap_size h"

definition account_ok :: "mm_heap \<Rightarrow> bool" where
  "account_ok h \<longleftrightarrow> info_used (info h) = (\<Sum>m\<leftarrow>hmap h. map_used m) \<and>
     info_used (info h) + info_free (info h) = heap_size h"

definition heap_ok :: "mm_heap \<Rightarrow> bool" where
  "heap_ok h \<longleftrightarrow> (\<forall>m\<in>set (hmap h). map_ok m) \<and> layout_ok h \<and> account_ok h"

definition separated :: "(nat \<times> nat) set \<Rightarrow> bool" where
  "separated R \<longleftrightarrow> (\<forall>r\<in>R. \<forall>s\<in>R. r \<noteq> s \<longrightarrow> extent r \<inter> extent s = {})"

lemma heap_okD:
  assumes "heap_ok h"
  shows "layout_ok h" "account_ok h" "i < length (hmap h) \<Longrightarrow> map_ok (hmap h ! i)"
  using assms by (auto simp: heap_ok_def)

lemma layout_okD:
  assumes "layout_ok h"
  shows "heap h + heap_size h < 2 ^ 32"
    and "j < length (hmap h) \<Longrightarrow> heap h \<le> base (hmap h ! j)"
    and "j < length (hmap h) \<Longrightarrow> map_end (hmap h ! j) \<le> heap h + heap_size h"
    and "j < length (hmap h) \<Longrightarrow> i < j \<Longrightarrow> map_end (hmap h ! i) \<le> base (hmap h ! j)"
    and "(\<Sum>m\<leftarrow>hmap h. block_size m * count m) \<le> heap_size h"
  using assms unfolding layout_ok_def by blast+

lemma runsD:
  assumes "map_ok m" and "r \<in> runs m"
  shows "fst r < count m" "0 < snd r" "fst r + snd r \<le> count m" "size_at m (fst r) = snd r"
proof -
  obtain i where i: "r = (i, size_at m i)" "i < count m" "0 < size_at m i"
    using assms(2) unfolding runs_def by blast
  with runs_okD(1) [OF map_okD(2) [OF assms(1)] i(2,3)]
  show "fst r < count m" "0 < snd r" "fst r + snd r \<le> count m" "size_at m (fst r) = snd r"
    by simp_all
qed

lemma region_bounds:
  assumes "map_ok m" and "r \<in> runs m"
  shows "base m \<le> fst (region m r)" and "fst (region m r) + snd (region m r) \<le> map_end m"
    and "0 < snd (region m r)"
proof -
  note r = runsD [OF assms]
  show "base m \<le> fst (region m r)" by (simp add: region_def block_addr_def)
  show "fst (region m r) + snd (region m r) \<le> map_end m"
    using run_bytes(2) [OF map_okD(1) [OF assms(1)] r(3)] block_addr_mono [OF r(3), of m]
    by (simp add: region_def map_end_def)
  show "0 < snd (region m r)"
    using r(2) map_okD(1) [OF assms(1)] by (simp add: region_def geom_ok_def)
qed

text \<open>An address of a region lies in exactly the blocks of its run.\<close>

lemma region_block:
  assumes g: "geom_ok m" and x: "x \<in> extent (region m r)"
  shows "(x - base m) div block_size m \<in> {fst r..<fst r + snd r}"
proof -
  have bs: "0 < block_size m" using g by (simp add: geom_ok_def)
  have "block_size m * fst r \<le> x - base m" "x - base m < block_size m * (fst r + snd r)"
    using x by (auto simp: extent_def region_def block_addr_def algebra_simps)
  then show ?thesis using bs
    by (simp add: less_eq_div_iff_mult_less_eq div_less_iff_less_mult mult.commute)
qed

lemma runs_disjoint:
  assumes m: "map_ok m" and r: "r \<in> runs m" "s \<in> runs m" "r \<noteq> s"
  shows "extent (region m r) \<inter> extent (region m s) = {}"
proof (rule ccontr)
  assume "extent (region m r) \<inter> extent (region m s) \<noteq> {}"
  then obtain x where x: "x \<in> extent (region m r)" "x \<in> extent (region m s)" by blast
  note g = map_okD(1,2) [OF m]
  note rD = runsD [OF m r(1)] and sD = runsD [OF m r(2)]
  have "fst r = fst s"
    using run_unique [OF g rD(1) sD(1)] region_block [OF g(1) x(1)] region_block [OF g(1) x(2)]
      rD(4) sD(4) by metis
  with rD(4) sD(4) have "r = s" by (simp add: prod_eq_iff)
  with r(3) show False by simp
qed

lemma maps_disjoint:
  assumes h: "heap_ok h" and ij: "i < length (hmap h)" "j < length (hmap h)" "i \<noteq> j"
    and r: "r \<in> runs (hmap h ! i)" "s \<in> runs (hmap h ! j)"
  shows "extent (region (hmap h ! i) r) \<inter> extent (region (hmap h ! j) s) = {}"
proof -
  note L = layout_okD(4) [OF heap_okD(1) [OF h]]
  note a = region_bounds [OF heap_okD(3) [OF h ij(1)] r(1)]
  note b = region_bounds [OF heap_okD(3) [OF h ij(2)] r(2)]
  show ?thesis
  proof (cases "i < j")
    case True
    with L [OF ij(2) True] a b show ?thesis by (auto simp: extent_def)
  next
    case False
    with ij(3) have "j < i" by simp
    with L [OF ij(1) this] a b show ?thesis by (auto simp: extent_def)
  qed
qed

lemma live_separated:
  assumes "heap_ok h"
  shows "separated (live h)"
  unfolding separated_def
proof (intro ballI impI)
  fix a b assume "a \<in> live h" "b \<in> live h" and ne: "a \<noteq> b"
  then obtain i j r s where *: "i < length (hmap h)" "r \<in> runs (hmap h ! i)" "a = region (hmap h ! i) r"
    "j < length (hmap h)" "s \<in> runs (hmap h ! j)" "b = region (hmap h ! j) s"
    by (auto simp: live_def)
  show "extent a \<inter> extent b = {}"
  proof (cases "i = j")
    case True
    with * ne runs_disjoint [OF heap_okD(3) [OF assms *(1)] *(2)] show ?thesis by metis
  next
    case False
    with * maps_disjoint [OF assms *(1,4) False *(2,5)] show ?thesis by simp
  qed
qed

section \<open>Replacing one map\<close>

lemma region_same_geom: "same_geom m m' \<Longrightarrow> region m' r = region m r"
  by (simp add: same_geom_def region_def block_addr_def)

lemma layout_update:
  assumes "layout_ok h" and "level < length (hmap h)" and "same_geom (hmap h ! level) m'"
  shows "layout_ok (h\<lparr>hmap := (hmap h)[level := m'], info := x\<rparr>)"
proof -
  let ?f = "\<lambda>m. block_size m * count m"
  have f: "?f m' = ?f (hmap h ! level)" using assms(3) by (simp add: same_geom_def)
  have "map ?f ((hmap h)[level := m']) = map ?f (hmap h)"
    by (rule map_list_update_id [OF assms(2) f])
  moreover have "base ((hmap h)[level := m'] ! j) = base (hmap h ! j)"
    "map_end ((hmap h)[level := m'] ! j) = map_end (hmap h ! j)" if "j < length (hmap h)" for j
    using that assms(2,3) by (auto simp: nth_list_update same_geom_def map_end_def block_addr_def)
  ultimately show ?thesis using assms(1) unfolding layout_ok_def by simp
qed

definition live_except :: "mm_heap \<Rightarrow> nat \<Rightarrow> (nat \<times> nat) set" where
  "live_except h level =
     (\<Union>i\<in>{..<length (hmap h)} - {level}. region (hmap h ! i) ` runs (hmap h ! i))"

lemma live_split:
  assumes "level < length (hmap h)"
  shows "live h = live_except h level \<union> region (hmap h ! level) ` runs (hmap h ! level)"
proof -
  have "level \<in> {..<length (hmap h)}" using assms by simp
  then show ?thesis unfolding live_def live_except_def by blast
qed

lemma live_update:
  assumes l: "level < length (hmap h)" and g: "same_geom (hmap h ! level) m'"
  shows "live (h\<lparr>hmap := (hmap h)[level := m'], info := x\<rparr>) =
    live_except h level \<union> region (hmap h ! level) ` runs m'" (is "live ?h = _")
proof -
  have "live_except ?h level = live_except h level"
    unfolding live_except_def by (intro SUP_cong) auto
  moreover have "region m' = region (hmap h ! level)"
    using region_same_geom [OF g] by blast
  ultimately show ?thesis using live_split [of level ?h] l by simp
qed

lemma map_used_bound:
  assumes "heap_ok h" and "level < length (hmap h)"
  shows "(\<Sum>m\<leftarrow>hmap h. map_used m) + block_size (hmap h ! level) * free_count (hmap h ! level)
    \<le> heap_size h"
proof -
  have split: "block_size m * count m = map_used m + block_size m * free_count m"
    if "m \<in> set (hmap h)" for m
  proof -
    have "map_ok m" using that assms(1) by (simp add: heap_ok_def)
    then have "free_count m \<le> count m" by (rule free_count_less)
    then show ?thesis by (simp add: map_used_def flip: distrib_left)
  qed
  have "(\<Sum>m\<leftarrow>hmap h. map_used m) + (\<Sum>m\<leftarrow>hmap h. block_size m * free_count m)
      = (\<Sum>m\<leftarrow>hmap h. map_used m + block_size m * free_count m)"
    by (simp add: sum_list_addf)
  also have "\<dots> = (\<Sum>m\<leftarrow>hmap h. block_size m * count m)"
    using split by (intro arg_cong [of _ _ sum_list] map_cong) simp_all
  also have "\<dots> \<le> heap_size h" by (rule layout_okD(5) [OF heap_okD(1) [OF assms(1)]])
  finally have "(\<Sum>m\<leftarrow>hmap h. map_used m) + (\<Sum>m\<leftarrow>hmap h. block_size m * free_count m) \<le> heap_size h" .
  moreover have "block_size (hmap h ! level) * free_count (hmap h ! level)
      \<le> (\<Sum>m\<leftarrow>hmap h. block_size m * free_count m)"
    using assms(2) by (intro member_le_sum_list) auto
  ultimately show ?thesis by linarith
qed

lemma heap_maps_update:
  assumes "heap_ok h" and "map_ok m'"
  shows "\<forall>m\<in>set ((hmap h)[level := m']). map_ok m"
  using assms set_update_subset_insert [of "hmap h" level m'] by (auto simp: heap_ok_def)

lemma map_used_take:
  assumes "map_ok m" and "takes_run m m' i n"
  shows "map_used m' = map_used m + n * block_size m"
proof -
  have "free_count m' + n = free_count m" "count m' = count m" "block_size m' = block_size m"
    using assms(2) by (auto simp: takes_run_def same_geom_def)
  moreover have "free_count m \<le> count m" by (rule free_count_less [OF assms(1)])
  ultimately have "count m' - free_count m' = (count m - free_count m) + n" by linarith
  then show ?thesis using \<open>block_size m' = block_size m\<close>
    by (simp add: map_used_def algebra_simps)
qed

lemma heap_take:
  assumes h: "heap_ok h" and l: "level < length (hmap h)"
    and t: "takes_run (hmap h ! level) m' i n"
    and h': "h' = h\<lparr>hmap := (hmap h)[level := m'],
                   info := heap_account h (n * block_size (hmap h ! level))\<rparr>"
  shows "heap_ok h'" and "live h' = insert (region (hmap h ! level) (i, n)) (live h)"
proof -
  let ?m = "hmap h ! level"
  have m: "map_ok ?m" by (rule heap_okD(3) [OF h l])
  from t have tD: "map_ok m'" "same_geom ?m m'" "takeable ?m i n"
    "runs m' = insert (i, n) (runs ?m)" "free_count m' + n = free_count ?m"
    by (auto simp: takes_run_def)
  have "n * block_size ?m \<le> block_size ?m * free_count ?m"
    using tD(5) by (simp add: mult.commute [of n])
  then have room: "(\<Sum>m\<leftarrow>hmap h. map_used m) + n * block_size ?m \<le> heap_size h"
    using map_used_bound [OF h l] by linarith
  have acc: "info_used (info h) = (\<Sum>m\<leftarrow>hmap h. map_used m)"
    "info_used (info h) + info_free (info h) = heap_size h"
    using heap_okD(2) [OF h] by (auto simp: account_ok_def)
  have size: "heap_size h < 2 ^ 32" using layout_okD(1) [OF heap_okD(1) [OF h]] by simp
  have "(\<Sum>m\<leftarrow>(hmap h)[level := m']. map_used m) = (\<Sum>m\<leftarrow>hmap h. map_used m) + n * block_size ?m"
    using sum_list_map_update [OF l, of map_used m'] map_used_take [OF m t] by linarith
  moreover have "u32 (info_used (info h) + n * block_size ?m) = info_used (info h) + n * block_size ?m"
    using room acc(1) size by (simp add: u32_id)
  moreover have "u32_sub (info_free (info h)) (n * block_size ?m) = info_free (info h) - n * block_size ?m"
    using room acc size by (simp add: u32_sub_id)
  ultimately have "account_ok h'"
    using room acc by (simp add: account_ok_def h' heap_account_def)
  then show "heap_ok h'"
    using heap_maps_update [OF h tD(1), of level] layout_update [OF heap_okD(1) [OF h] l tD(2)]
    by (simp add: heap_ok_def h')
  show "live h' = insert (region ?m (i, n)) (live h)"
    unfolding h' live_update [OF l tD(2)] live_split [OF l] tD(4) by auto
qed

lemma takeable_no_run:
  assumes "map_ok m" and "takeable m i n"
  shows "(i, k) \<notin> runs m"
proof -
  have "i \<in> {i..<i + n}" using takeableD(1) [OF assms(2)] by simp
  then have "size_at m i = 0"
    using runs_ok_freeD(1) [OF map_okD(2) [OF assms(1)]] takeableD(3,4) [OF assms(2)] by blast
  then show ?thesis by (auto simp: runs_def)
qed

lemma heap_take_fresh:
  assumes h: "heap_ok h" and l: "level < length (hmap h)"
    and t: "takes_run (hmap h ! level) m' i n" and r: "r \<in> live h"
  shows "extent r \<inter> extent (region (hmap h ! level) (i, n)) = {}"
proof -
  let ?m = "hmap h ! level"
  define h' where "h' = h\<lparr>hmap := (hmap h)[level := m'],
                   info := heap_account h (n * block_size ?m)\<rparr>"
  have ok: "heap_ok h'" by (rule heap_take(1) [OF h l t h'_def])
  from t have tD: "map_ok m'" "same_geom ?m m'" "takeable ?m i n"
    "runs m' = insert (i, n) (runs ?m)" by (auto simp: takes_run_def)
  obtain j s where j: "j < length (hmap h)" "s \<in> runs (hmap h ! j)" "r = region (hmap h ! j) s"
    using r unfolding live_def by blast
  have new: "region ?m (i, n) = region m' (i, n)" by (simp add: region_same_geom [OF tD(2)])
  show ?thesis
  proof (cases "j = level")
    case True
    with j(2) takeable_no_run [OF heap_okD(3) [OF h l] tD(3)] have "s \<noteq> (i, n)" by blast
    with True j tD(4) runs_disjoint [OF tD(1), of s "(i, n)"] show ?thesis
      by (simp add: region_same_geom [OF tD(2)])
  next
    case False
    then have "hmap h' ! j = hmap h ! j" "hmap h' ! level = m'" "length (hmap h') = length (hmap h)"
      using l by (simp_all add: h'_def)
    with False j l tD(4) new maps_disjoint [OF ok, of j level s "(i, n)"] show ?thesis by simp
  qed
qed

lemma map_used_drop:
  assumes "drops_run m m' i n"
  shows "map_used m = map_used m' + n * block_size m"
proof -
  have e: "free_count m' = free_count m + n" "count m' = count m" "block_size m' = block_size m" "map_ok m'"
    using assms by (auto simp: drops_run_def same_geom_def)
  moreover have "free_count m' \<le> count m'" by (rule free_count_less [OF e(4)])
  ultimately have "count m - free_count m = (count m' - free_count m') + n" by linarith
  then show ?thesis using e(3) by (simp add: map_used_def algebra_simps)
qed

lemma region_inj_on:
  assumes "map_ok m"
  shows "inj_on (region m) (runs m)"
proof (rule inj_onI)
  fix r s assume r: "r \<in> runs m" and s: "s \<in> runs m" and eq: "region m r = region m s"
  have "fst r = fst s"
    using eq block_addr_inj [OF map_okD(1) [OF assms]] by (simp add: region_def)
  then show "r = s" using runsD(4) [OF assms r] runsD(4) [OF assms s] by (simp add: prod_eq_iff)
qed

lemma region_not_elsewhere:
  assumes h: "heap_ok h" and l: "level < length (hmap h)" and r: "r \<in> runs (hmap h ! level)"
  shows "region (hmap h ! level) r \<notin> live_except h level"
proof
  let ?x = "region (hmap h ! level) r"
  assume "?x \<in> live_except h level"
  then obtain j s where j: "j < length (hmap h)" "j \<noteq> level" "s \<in> runs (hmap h ! j)"
    "?x = region (hmap h ! j) s"
    unfolding live_except_def by blast
  then have "extent ?x \<inter> extent ?x = {}" using maps_disjoint [OF h j(1) l j(2,3) r] by simp
  moreover have "0 < snd ?x" by (rule region_bounds(3) [OF heap_okD(3) [OF h l] r])
  ultimately show False by (simp add: extent_def)
qed

lemma heap_drop:
  assumes h: "heap_ok h" and l: "level < length (hmap h)"
    and t: "drops_run (hmap h ! level) m' i n"
    and h': "h' = h\<lparr>hmap := (hmap h)[level := m'],
                info := \<lparr>info_used = u32_sub (info_used (info h)) (n * block_size (hmap h ! level)),
                         info_free = u32 (info_free (info h) + n * block_size (hmap h ! level))\<rparr>\<rparr>"
  shows "heap_ok h'" and "live h' = live h - {region (hmap h ! level) (i, n)}"
proof -
  let ?m = "hmap h ! level"
  have m: "map_ok ?m" by (rule heap_okD(3) [OF h l])
  from t have tD: "map_ok m'" "same_geom ?m m'" "(i, n) \<in> runs ?m" "runs m' = runs ?m - {(i, n)}"
    by (auto simp: drops_run_def)
  have acc: "info_used (info h) = (\<Sum>m\<leftarrow>hmap h. map_used m)"
    "info_used (info h) + info_free (info h) = heap_size h"
    using heap_okD(2) [OF h] by (auto simp: account_ok_def)
  have size: "heap_size h < 2 ^ 32" using layout_okD(1) [OF heap_okD(1) [OF h]] by simp
  have sum: "(\<Sum>m\<leftarrow>(hmap h)[level := m']. map_used m) + n * block_size ?m = (\<Sum>m\<leftarrow>hmap h. map_used m)"
    using sum_list_map_update [OF l, of map_used m'] map_used_drop [OF t] by linarith
  then have le: "n * block_size ?m \<le> info_used (info h)" using acc(1) by linarith
  have "u32_sub (info_used (info h)) (n * block_size ?m) = info_used (info h) - n * block_size ?m"
    using le acc(2) size by (simp add: u32_sub_id)
  moreover have "u32 (info_free (info h) + n * block_size ?m) = info_free (info h) + n * block_size ?m"
    using le acc(2) size by (simp add: u32_id)
  ultimately have "account_ok h'"
    using le acc sum by (simp add: account_ok_def h')
  then show "heap_ok h'"
    using heap_maps_update [OF h tD(1), of level] layout_update [OF heap_okD(1) [OF h] l tD(2)]
    by (simp add: heap_ok_def h')
  have "region ?m ` (runs ?m - {(i, n)}) = region ?m ` runs ?m - {region ?m (i, n)}"
    using inj_on_image_set_diff [OF region_inj_on [OF m], of "runs ?m" "{(i, n)}"] tD(3) by simp
  then show "live h' = live h - {region ?m (i, n)}"
    unfolding h' live_update [OF l tD(2)] live_split [OF l] tD(4)
    using region_not_elsewhere [OF h l tD(3)] by blast
qed

section \<open>Allocation refines the region allocator\<close>

text \<open>
  The abstract step: a region is added that no live region touches, and the returned pointer has
  the requested bytes inside it and the requested alignment.
\<close>

definition alloc_spec ::
    "(nat \<times> nat) set \<Rightarrow> nat \<Rightarrow> nat \<Rightarrow> (nat \<times> nat) set \<Rightarrow> nat \<Rightarrow> bool" where
  "alloc_spec R bytes a R' p \<longleftrightarrow>
     (\<exists>x. R' = insert x R \<and> fst x \<le> p \<and> p + bytes \<le> fst x + snd x \<and> 0 < snd x \<and>
        p < fst x + snd x \<and> (\<forall>r\<in>R. extent r \<inter> extent x = {}) \<and> (a \<noteq> 0 \<longrightarrow> a dvd p))"

lemma alloc_specE:
  assumes "alloc_spec R bytes a R' p"
  obtains x where "R' = insert x R" and "p \<in> extent x" and "x \<notin> R"
    and "{p..<p + bytes} \<subseteq> extent x" and "\<forall>r\<in>R. extent r \<inter> extent x = {}"
proof -
  obtain x where x: "R' = insert x R" "fst x \<le> p" "p + bytes \<le> fst x + snd x" "0 < snd x"
    "p < fst x + snd x" "\<forall>r\<in>R. extent r \<inter> extent x = {}"
    using assms unfolding alloc_spec_def by blast
  then have p: "p \<in> extent x" "{p..<p + bytes} \<subseteq> extent x" by (auto simp: extent_def)
  with x(6) have "x \<notin> R" by blast
  with x p show ?thesis using that by blast
qed

definition align_fits :: "mm_heap \<Rightarrow> nat \<Rightarrow> bool" where
  "align_fits h a \<longleftrightarrow> a = 0 \<or> is_power_of_2 a \<and> heap h + heap_size h + a \<le> 2 ^ 32"

lemma align_fits_map:
  assumes "heap_ok h" and "align_fits h a" and "i < length (hmap h)"
  shows "align_ok (hmap h ! i) a"
  using assms(2) layout_okD(3) [OF heap_okD(1) [OF assms(1)] assms(3)]
  by (auto simp: align_fits_def align_ok_def map_end_def)

lemma align_fits_and: "align_fits h a \<Longrightarrow> a AND (a - 1) = 0"
  by (auto simp: align_fits_def is_power_of_2_def)

lemma heap_alloc_spec:
  assumes h: "heap_ok h" and l: "level < length (hmap h)"
    and t: "takes_run (hmap h ! level) m' i n"
    and h': "h' = h\<lparr>hmap := (hmap h)[level := m'],
                   info := heap_account h (n * block_size (hmap h ! level))\<rparr>"
    and p: "block_addr (hmap h ! level) i \<le> p" "p + bytes \<le> block_addr (hmap h ! level) (i + n)"
      "p < block_addr (hmap h ! level) (i + n)" "a \<noteq> 0 \<longrightarrow> a dvd p"
  shows "heap_ok h' \<and> alloc_spec (live h) bytes a (live h') p \<and> p \<noteq> 0"
proof -
  let ?m = "hmap h ! level" and ?x = "region (hmap h ! level) (i, n)"
  have m: "map_ok ?m" by (rule heap_okD(3) [OF h l])
  have "takeable ?m i n" using t by (simp add: takes_run_def)
  then have fin: "fst ?x + snd ?x = block_addr ?m (i + n)" and pos: "0 < snd ?x"
    using run_bytes(2) [OF map_okD(1) [OF m], of i n] map_okD(1) [OF m]
    by (auto simp: takeable_def region_def geom_ok_def)
  have "alloc_spec (live h) bytes a (live h') p"
    unfolding alloc_spec_def heap_take(2) [OF h l t h']
  proof (intro exI conjI)
    show "insert ?x (live h) = insert ?x (live h)" ..
    show "fst ?x \<le> p" using p(1) by (simp add: region_def)
    show "\<forall>r\<in>live h. extent r \<inter> extent ?x = {}" using heap_take_fresh [OF h l t] by blast
  qed (use p pos fin in auto)
  moreover have "p \<noteq> 0" using p(1) block_addr_pos [OF map_okD(1) [OF m], of i] by simp
  ultimately show ?thesis using heap_take(1) [OF h l t h'] by simp
qed

lemma alloc_block_index_spec:
  assumes h: "heap_ok h" and a: "align_fits h a" and l: "level < length (hmap h)"
    and m: "m = hmap h ! level"
    and j: "j = (if index < 0 then first_free m else nat index)" "j \<in> free_set m"
    and p: "p = (if a \<le> 1 then block_addr m j else ALIGN_UP (block_addr m j) a)"
      "p + bytes \<le> block_addr m (Suc j)" "p < block_addr m (Suc j)"
  shows "\<exists>h'. alloc_block_index h level a index = Done (h', p) \<and> heap_ok h' \<and>
    alloc_spec (live h) bytes a (live h') p \<and> p \<noteq> 0"
proof -
  have mok: "map_ok m" unfolding m by (rule heap_okD(3) [OF h l])
  have jc: "j \<le> count m" using j(2) by (simp add: free_set_def)
  obtain m' where m': "alloc_block_index h level a index =
      Done (h\<lparr>hmap := (hmap h)[level := m'], info := heap_account h (block_size m)\<rparr>, p)"
    "takes_run m m' j 1"
    using alloc_block_index_takes [OF mok m j] unfolding p(1) by blast
  have "block_addr m j \<le> p \<and> (a \<noteq> 0 \<longrightarrow> a dvd p)"
  proof (cases "a \<le> 1")
    case True
    then show ?thesis using p(1) by (cases a) auto
  next
    case False
    then show ?thesis
      using p(1) align_ok_bounds(1,2) [OF align_fits_map [OF h a l, folded m] _ jc] by simp
  qed
  then have "heap_ok (h\<lparr>hmap := (hmap h)[level := m'], info := heap_account h (block_size m)\<rparr>) \<and>
    alloc_spec (live h) bytes a
      (live (h\<lparr>hmap := (hmap h)[level := m'], info := heap_account h (block_size m)\<rparr>)) p \<and> p \<noteq> 0"
    using m'(2) p(2,3) unfolding m
    by (intro heap_alloc_spec [OF h l, where n = 1 and i = j]) auto
  with m'(1) show ?thesis by blast
qed

lemma first_free_in:
  "map_ok m \<Longrightarrow> free_count m \<noteq> 0 \<Longrightarrow> first_free m \<in> free_set m \<and> first_free m \<le> count m"
  using first_free_free(1) [of m] by (auto simp: free_set_def)

lemma get_ptr_loop_spec:
  assumes h: "heap_ok h" and a: "align_fits h a" and b: "bytes + a < 2 ^ 31"
  shows "(\<forall>i\<in>set is. i < length (hmap h)) \<Longrightarrow>
    \<exists>h' p. get_ptr_loop h bytes a is = Done (h', p) \<and>
      (p = 0 \<and> h' = h \<or> heap_ok h' \<and> alloc_spec (live h) bytes a (live h') p \<and> p \<noteq> 0)"
proof (induction "is")
  case Nil
  then show ?case by simp
next
  case (Cons i "is")
  let ?m = "hmap h ! i" and ?j = "first_free (hmap h ! i)"
  have l: "i < length (hmap h)" using Cons.prems by simp
  have m: "map_ok ?m" by (rule heap_okD(3) [OF h l])
  let ?unal = "a \<noteq> 0 \<and> u32 (base ?m + block_size ?m * ?j) mod a \<noteq> 0"
  have tb: "(if ?unal then s32 (s32 (int bytes) + int a) else s32 (int bytes))
      = int (if ?unal then bytes + a else bytes)"
    using b by (simp add: s32_id)
  have rec: "get_ptr_loop h bytes a (i # is) =
      (if block_size ?m < (if ?unal then bytes + a else bytes) \<or> free_count ?m = 0
       then get_ptr_loop h bytes a is else alloc_block_index h i a (- 1))"
    unfolding get_ptr_loop.simps Let_def tb alloc_block_def of_nat_less_iff by simp
  show ?case
  proof (cases "block_size ?m < (if ?unal then bytes + a else bytes) \<or> free_count ?m = 0")
    case True
    with rec have "get_ptr_loop h bytes a (i # is) = get_ptr_loop h bytes a is" by presburger
    with Cons show ?thesis by simp
  next
    case False
    with rec have eq: "get_ptr_loop h bytes a (i # is) = alloc_block_index h i a (- 1)"
      by presburger
    have j: "?j \<in> free_set ?m" "?j \<le> count ?m" using first_free_in [OF m] False by auto
    have addr: "u32 (base ?m + block_size ?m * ?j) = block_addr ?m ?j"
      by (rule u32_block_addr [OF map_okD(1) [OF m] j(2)])
    define p where "p = (if a \<le> 1 then block_addr ?m ?j else ALIGN_UP (block_addr ?m ?j) a)"
    have bs: "0 < block_size ?m" using map_okD(1) [OF m] by (simp add: geom_ok_def)
    have fit: "p + bytes \<le> block_addr ?m (Suc ?j) \<and> p < block_addr ?m (Suc ?j)"
    proof (cases "a \<le> 1")
      case True
      then have "\<not> ?unal" by (cases a) auto
      with True False bs show ?thesis by (auto simp: p_def block_addr_Suc)
    next
      case a1: False
      then have "a \<noteq> 0" by simp
      note al = align_ok_bounds [OF align_fits_map [OF h a l] this j(2)]
      show ?thesis
      proof (cases "a dvd block_addr ?m ?j")
        case True
        with False al(4) a1 bs show ?thesis
          by (simp add: p_def block_addr_Suc addr dvd_eq_mod_eq_0 split: if_splits)
      next
        case ua: False
        with False a1 have "bytes + a \<le> block_size ?m" by (auto simp: addr dvd_eq_mod_eq_0)
        with al(3) a1 show ?thesis by (simp add: p_def block_addr_Suc)
      qed
    qed
    show ?thesis
      using alloc_block_index_spec [OF h a l refl, of ?j "- 1" p bytes] j fit eq p_def by auto
  qed
qed

definition served :: "mm_heap \<Rightarrow> nat \<Rightarrow> nat \<Rightarrow> (mm_heap \<times> nat) outcome \<Rightarrow> bool" where
  "served h bytes a res \<longleftrightarrow> (\<exists>h' p. res = Done (h', p) \<and>
     (p = 0 \<and> h' = h \<or> heap_ok h' \<and> alloc_spec (live h) bytes a (live h') p \<and> p \<noteq> 0))"

lemma served_none: "served h bytes a (Done (h, 0))"
  by (simp add: served_def)

lemma get_ptr_from_heap_served:
  assumes "heap_ok h" and "align_fits h a" and "bytes + a < 2 ^ 31"
  shows "served h bytes a (get_ptr_from_heap h bytes a)"
  unfolding served_def get_ptr_from_heap_def
  using get_ptr_loop_spec [OF assms, of "[0..<length (hmap h)]"] align_fits_and [OF assms(2)] by simp

lemma aligned_fit_Some:
  assumes h: "heap_ok h" and a: "align_fits h a" "1 < a" and l: "level < length (hmap h)"
    and m: "m = hmap h ! level" and b: "bytes \<le> block_size m"
    and j: "aligned_fit m bytes a = Some j"
  shows "j \<in> free_set m"
    and "ALIGN_UP (block_addr m j) a + bytes \<le> block_addr m (Suc j)"
proof -
  have mok: "map_ok m" unfolding m by (rule heap_okD(3) [OF h l])
  note g = map_okD(1) [OF mok]
  have jr: "j < count m" "hdr_used (block m ! j) = 0"
    and fit: "\<not> u32 (u32 (base m + block_size m * j) + block_size m)
         < u32 (ALIGN_UP (u32 (base m + block_size m * j)) a + bytes)"
    using j by (auto simp: aligned_fit_def find_upt_Some)
  show "j \<in> free_set m" using jr by (simp add: free_set_def)
  have addr: "u32 (base m + block_size m * j) = block_addr m j"
    using jr by (intro u32_block_addr [OF g]) simp
  have "u32 (block_addr m j + block_size m) = block_addr m (Suc j)"
    using block_addr_less [OF g, of "Suc j"] jr by (simp add: u32_id block_addr_Suc)
  moreover have "u32 (ALIGN_UP (block_addr m j) a + bytes) = ALIGN_UP (block_addr m j) a + bytes"
  proof -
    have ok: "align_ok m a" unfolding m by (rule align_fits_map [OF h a(1) l])
    have "ALIGN_UP (block_addr m j) a + bytes < block_addr m j + a + block_size m"
      using align_ok_bounds(3) [OF ok, of j] a(2) jr(1) b by simp
    also have "\<dots> = block_addr m (Suc j) + a" by (simp add: block_addr_Suc)
    also have "\<dots> \<le> block_addr m (count m) + a" using jr(1) by (simp add: block_addr_mono)
    also have "\<dots> \<le> 2 ^ 32" using ok a(2) by (simp add: align_ok_def)
    finally show ?thesis by (simp add: u32_id)
  qed
  ultimately show "ALIGN_UP (block_addr m j) a + bytes \<le> block_addr m (Suc j)"
    using fit addr by simp
qed

lemma single_loop_served:
  assumes h: "heap_ok h" and a: "align_fits h a" and b: "0 < bytes"
  shows "(\<forall>i\<in>set is. i < length (hmap h)) \<Longrightarrow> served h bytes a (single_loop h bytes a is)"
proof (induction "is")
  case Nil
  then show ?case by (simp add: served_none)
next
  case (Cons i "is")
  let ?m = "hmap h ! i"
  have l: "i < length (hmap h)" using Cons.prems by simp
  have m: "map_ok ?m" by (rule heap_okD(3) [OF h l])
  have bs: "0 < block_size ?m" using map_okD(1) [OF m] by (simp add: geom_ok_def)
  have IH: "served h bytes a (single_loop h bytes a is)" using Cons by simp
  show ?case
  proof (cases "block_size ?m < bytes \<or> free_count ?m = 0")
    case True
    with IH show ?thesis by (simp add: Let_def)
  next
    case room: False
    show ?thesis
    proof (cases "a \<le> 1")
      case True
      have j: "first_free ?m \<in> free_set ?m" using first_free_in [OF m] room by simp
      have "\<exists>h'. alloc_block_index h i a (- 1) = Done (h', block_addr ?m (first_free ?m)) \<and> heap_ok h' \<and>
          alloc_spec (live h) bytes a (live h') (block_addr ?m (first_free ?m)) \<and>
          block_addr ?m (first_free ?m) \<noteq> 0"
        using alloc_block_index_spec [OF h a l refl, of "first_free ?m" "- 1"] j True room bs
        by (simp add: block_addr_Suc)
      with True room show ?thesis by (auto simp: served_def Let_def alloc_block_def)
    next
      case al: False
      show ?thesis
      proof (cases "aligned_fit ?m bytes a")
        case None
        with al room IH show ?thesis by (simp add: Let_def)
      next
        case (Some j)
        let ?p = "ALIGN_UP (block_addr ?m j) a"
        note fit = aligned_fit_Some [OF h a _ l refl _ Some]
        have "\<exists>h'. alloc_block_index h i a (int j) = Done (h', ?p) \<and> heap_ok h' \<and>
          alloc_spec (live h) bytes a (live h') ?p \<and> ?p \<noteq> 0"
          using alloc_block_index_spec [OF h a l refl, of j "int j" ?p bytes] fit al room b by auto
        with Some al room show ?thesis by (auto simp: served_def Let_def)
      qed
    qed
  qed
qed

lemma cont_heap_loop_served:
  assumes h: "heap_ok h" and a: "align_fits h a" and b: "0 < bytes" "bytes + 2 ^ 16 < 2 ^ 32"
  shows "(\<forall>i\<in>set is. i < length (hmap h)) \<Longrightarrow> served h bytes a (cont_heap_loop h bytes a is)"
proof (induction "is")
  case Nil
  then show ?case by (simp add: served_none)
next
  case (Cons i "is")
  let ?m = "hmap h ! i"
  have l: "i < length (hmap h)" using Cons.prems by simp
  have m: "map_ok ?m" by (rule heap_okD(3) [OF h l])
  have bs: "bytes + block_size ?m < 2 ^ 32" using map_okD(1) [OF m] b(2) by (simp add: geom_ok_def)
  have IH: "served h bytes a (cont_heap_loop h bytes a is)" using Cons by simp
  show ?case
  proof (cases "block_size ?m < bytes")
    case False
    with IH show ?thesis by simp
  next
    case True
    from alloc_cont_blocks_takes [OF m refl align_fits_map [OF h a l] b(1) bs]
    show ?thesis
    proof
      assume "alloc_cont_blocks h i bytes a = Done (h, 0)"
      with True IH show ?thesis by simp
    next
      assume "\<exists>m' k n p. alloc_cont_blocks h i bytes a =
          Done (h\<lparr>hmap := (hmap h)[i := m'], info := heap_account h (n * block_size ?m)\<rparr>, p) \<and>
        takes_run ?m m' k n \<and> block_addr ?m k \<le> p \<and> p + bytes \<le> block_addr ?m (k + n) \<and>
        (a \<noteq> 0 \<longrightarrow> a dvd p)"
      then obtain m' k n p where r: "alloc_cont_blocks h i bytes a =
          Done (h\<lparr>hmap := (hmap h)[i := m'], info := heap_account h (n * block_size ?m)\<rparr>, p)"
        "takes_run ?m m' k n" "block_addr ?m k \<le> p" "p + bytes \<le> block_addr ?m (k + n)"
        "a \<noteq> 0 \<longrightarrow> a dvd p" by blast
      with heap_alloc_spec [OF h l r(2) refl r(3,4) _ r(5)] b(1) True show ?thesis
        by (auto simp: served_def)
    qed
  qed
qed

lemma served_weaken:
  assumes "served h bytes a res" and "bytes' \<le> bytes"
  shows "served h bytes' a res"
  using assms unfolding served_def alloc_spec_def by (blast intro: add_left_mono le_trans)

lemma alloc_heap_buffer_served:
  assumes h: "heap_ok h" and a: "align_fits h a" and b: "0 < bytes" "bytes + a + 2 ^ 16 < 2 ^ 32"
  shows "served h bytes a (alloc_heap_buffer h bytes a)"
proof -
  have s: "served h bytes a (single_loop h bytes a [0..<length (hmap h)])"
    by (rule single_loop_served [OF h a b(1)]) simp
  have c: "served h (bytes + a) a (cont_heap_loop h (bytes + a) a (rev [0..<length (hmap h)]))"
    using b by (intro cont_heap_loop_served [OF h a]) auto
  have "u32 (bytes + a) = bytes + a" using b by (simp add: u32_id)
  then show ?thesis
    using s served_weaken [OF c, of bytes] align_fits_and [OF a]
    unfolding alloc_heap_buffer_def served_def by (auto simp: Let_def)
qed

section \<open>Release removes exactly one region\<close>

lemma block_index:
  assumes "geom_ok m"
  shows "(block_addr m i - base m) div block_size m = i"
  using assms by (simp add: block_addr_def geom_ok_def)

lemma release_drops:
  assumes m: "map_ok m" and r: "r \<in> runs m"
  shows "drops_run m (m\<lparr>block := upd_range
            (\<lambda>hd. hd\<lparr>hdr_size := 0, hdr_used := 0, unaligned_ptr := 0\<rparr>) (fst r) (snd r) (block m),
          free_count := u16 (free_count m + snd r),
          first_free := (if fst r < first_free m \<or> free_count m = 0 then u16 (fst r)
                         else first_free m)\<rparr>) (fst r) (snd r)"
proof -
  note rD = runsD [OF m r]
  note k = upd_range_released [OF map_okD(4) [OF m], of "fst r" "snd r"]
  have c: "count m < 2 ^ 16" using map_okD(1) [OF m] by (simp add: geom_ok_def)
  note ok = released_map_ok [OF m rD(1) rD(4) [symmetric] rD(2) k]
  have "free_count m + snd r < 2 ^ 16"
    using free_count_less [OF ok] c by simp
  then have e: "u16 (free_count m + snd r) = free_count m + snd r" "u16 (fst r) = fst r"
    using rD(1) c by (simp_all add: u16_id)
  show ?thesis
    unfolding e
    using ok released_run_set [OF map_okD(1,2) [OF m] rD(1) rD(4) [symmetric] k] r
    by (simp add: drops_run_def same_geom_def split del: if_split)
qed

lemma find_map_of_ptr:
  assumes h: "heap_ok h" and i: "i < length (hmap h)"
    and p: "base (hmap h ! i) \<le> p" "p < map_end (hmap h ! i)"
  shows "List.find (\<lambda>i. p < u32 (base (hmap h ! i) + block_size (hmap h ! i) * count (hmap h ! i)))
           [0..<length (hmap h)] = Some i"
proof -
  have e: "u32 (base (hmap h ! j) + block_size (hmap h ! j) * count (hmap h ! j)) = map_end (hmap h ! j)"
    if "j < length (hmap h)" for j
    using u32_block_addr [OF map_okD(1) [OF heap_okD(3) [OF h that]]] by (simp add: map_end_def)
  have "\<not> p < map_end (hmap h ! j)" if "j < i" for j
    using layout_okD(4) [OF heap_okD(1) [OF h] i that] p(1) by simp
  then show ?thesis using i e p(2) by (auto simp: find_upt_Some)
qed

lemma free_in_heap_spec:
  assumes h: "heap_ok h" and x: "x \<in> live h" and p: "p \<in> extent x"
  shows "\<exists>h'. free_in_heap h p = Done h' \<and> heap_ok h' \<and> live h' = live h - {x}"
proof -
  obtain i r where i: "i < length (hmap h)" "r \<in> runs (hmap h ! i)" "x = region (hmap h ! i) r"
    using x unfolding live_def by blast
  define m where "m = hmap h ! i"
  have mok: "map_ok m" unfolding m_def by (rule heap_okD(3) [OF h i(1)])
  have r: "r \<in> runs m" using i(2) by (simp add: m_def)
  note rD = runsD [OF mok r] and g = map_okD(1) [OF mok]
  have px: "p \<in> extent (region m r)" using p i(3) by (simp add: m_def)
  note bnd = region_bounds [OF mok r]
  have pb: "base m \<le> p" "p < map_end m" using px bnd by (auto simp: extent_def)
  have find: "List.find (\<lambda>i. p < u32 (base (hmap h ! i) + block_size (hmap h ! i) * count (hmap h ! i)))
           [0..<length (hmap h)] = Some i"
    using find_map_of_ptr [OF h i(1)] pb by (simp add: m_def)
  have m32: "map_end m < 2 ^ 32"
    using block_addr_less [OF g, of "count m"] by (simp add: map_end_def)
  let ?b0 = "u32_sub p (base m) div block_size m"
  have b0: "?b0 \<in> {fst r..<fst r + snd r}"
    using region_block [OF g px] pb m32 by (simp add: u32_sub_id)
  let ?ua = "unaligned_ptr (block m ! ?b0)"
  have ua: "?ua = block_addr m (fst r)"
    using runs_okD(3) [OF map_okD(2) [OF mok] rD(1)] b0 rD(2,4) by metis
  have ua0: "block_addr m (fst r) \<noteq> 0" using block_addr_pos [OF g, of "fst r"] by simp
  have idx: "u32_sub (block_addr m (fst r)) (base m) div block_size m = fst r"
    using block_addr_less [OF g, of "fst r"] rD(1) block_index [OF g, of "fst r"]
    by (simp add: u32_sub_id block_addr_def)
  have fptr: "(if ?ua \<noteq> p \<and> ?ua \<noteq> 0 then ?ua else p) = block_addr m (fst r)"
    using ua ua0 by auto
  have blk: "(if ?ua \<noteq> p \<and> ?ua \<noteq> 0 then u32_sub ?ua (base m) div block_size m else ?b0) = fst r"
    using ua ua0 idx by auto
  have in0: "\<not> length (block m) \<le> ?b0" "\<not> length (block m) \<le> fst r" "\<not> length (block m) < fst r + snd r"
    using b0 rD map_okD(4) [OF mok] by auto
  have addr: "u32 (base m + block_size m * fst r) = block_addr m (fst r)"
    using rD(1) by (intro u32_block_addr [OF g]) simp
  define m' where "m' = m\<lparr>block := upd_range
            (\<lambda>hd. hd\<lparr>hdr_size := 0, hdr_used := 0, unaligned_ptr := 0\<rparr>) (fst r) (snd r) (block m),
          free_count := u16 (free_count m + snd r),
          first_free := (if fst r < first_free m \<or> free_count m = 0 then u16 (fst r)
                         else first_free m)\<rparr>"
  define h' where "h' = h\<lparr>hmap := (hmap h)[i := m'],
                info := \<lparr>info_used = u32_sub (info_used (info h)) (snd r * block_size (hmap h ! i)),
                         info_free = u32 (info_free (info h) + snd r * block_size (hmap h ! i))\<rparr>\<rparr>"
  have "free_in_heap h p = Done h'"
    unfolding free_in_heap_def find option.case Let_def m_def [symmetric] fptr blk addr rD(4)
      h'_def m'_def [symmetric] using in0 by simp
  moreover have "drops_run (hmap h ! i) m' (fst r) (snd r)"
    using release_drops [OF mok r] by (simp add: m'_def m_def)
  note heap_drop [OF h i(1) this h'_def]
  ultimately show ?thesis using i(3) by simp
qed

section \<open>What the operations leave alone\<close>

definition same_span :: "mm_heap \<Rightarrow> mm_heap \<Rightarrow> bool" where
  "same_span h h' \<longleftrightarrow> heap h' = heap h \<and> heap_size h' = heap_size h"

lemma same_span_refl [simp]: "same_span h h"
  by (simp add: same_span_def)

lemma same_span_trans: "same_span h h' \<Longrightarrow> same_span h' h'' \<Longrightarrow> same_span h h''"
  by (simp add: same_span_def)

lemma same_span_fits: "same_span h h' \<Longrightarrow> align_fits h' a = align_fits h a"
  by (simp add: same_span_def align_fits_def)

lemma alloc_block_index_span:
  "alloc_block_index h l a i = Done (h', p) \<Longrightarrow> same_span h h'"
  by (auto simp: alloc_block_index_def Let_def align_ptr_def same_span_def split: if_splits)

lemma alloc_cont_blocks_span:
  "alloc_cont_blocks h l b a = Done (h', p) \<Longrightarrow> same_span h h'"
  by (auto simp: alloc_cont_blocks_def Let_def same_span_def split: if_splits)

lemma get_ptr_loop_span: "get_ptr_loop h b a is = Done (h', p) \<Longrightarrow> same_span h h'"
  by (induction "is") (auto simp: Let_def alloc_block_def split: if_splits dest: alloc_block_index_span)

lemma single_loop_span: "single_loop h b a is = Done (h', p) \<Longrightarrow> same_span h h'"
proof (induction "is" arbitrary: h)
  case (Cons i "is")
  consider (skip) "single_loop h b a is = Done (h', p)"
    | (first) "alloc_block_index h i a (- 1) = Done (h', p)"
    | (fit) j h1 p1 where "alloc_block_index h i a (int j) = Done (h1, p1)"
        "h1 = h' \<or> single_loop h1 b a is = Done (h', p)"
    using Cons.prems
    by (auto simp: Let_def alloc_block_def obind_Done_iff split: if_splits option.splits)
  then show ?case
  proof cases
    case skip
    then show ?thesis by (rule Cons.IH)
  next
    case first
    then show ?thesis by (rule alloc_block_index_span)
  next
    case fit
    then show ?thesis using Cons.IH alloc_block_index_span same_span_trans by blast
  qed
qed simp

lemma cont_heap_loop_span: "cont_heap_loop h b a is = Done (h', p) \<Longrightarrow> same_span h h'"
proof (induction "is" arbitrary: h)
  case (Cons i "is")
  consider (skip) "cont_heap_loop h b a is = Done (h', p)"
    | (cont) h1 p1 where "alloc_cont_blocks h i b a = Done (h1, p1)"
        "h1 = h' \<or> cont_heap_loop h1 b a is = Done (h', p)"
    using Cons.prems by (auto simp: obind_Done_iff split: if_splits)
  then show ?case
  proof cases
    case skip
    then show ?thesis by (rule Cons.IH)
  next
    case cont
    then show ?thesis using Cons.IH alloc_cont_blocks_span same_span_trans by blast
  qed
qed simp

lemma get_ptr_from_heap_span: "get_ptr_from_heap h b a = Done (h', p) \<Longrightarrow> same_span h h'"
  by (auto simp: get_ptr_from_heap_def split: if_splits dest: get_ptr_loop_span)

lemma alloc_heap_buffer_span: "alloc_heap_buffer h b a = Done (h', p) \<Longrightarrow> same_span h h'"
  by (auto simp: alloc_heap_buffer_def obind_Done_iff Let_def split: if_splits
      dest!: single_loop_span cont_heap_loop_span intro: same_span_trans)

lemma free_in_heap_span: "free_in_heap h p = Done h' \<Longrightarrow> same_span h h'"
  by (auto simp: free_in_heap_def Let_def same_span_def split: option.splits if_splits)

section \<open>Clients of an allocator\<close>

text \<open>
  A client program allocates and releases; it keeps the list of the pointers it holds, each with
  the number of bytes it asked for. The operations are parameters, so that the same client runs
  on every pool.
\<close>

datatype alloc_op = OpAlloc nat nat | OpFree nat

fun op_adm :: "('s \<Rightarrow> nat \<Rightarrow> nat \<Rightarrow> bool) \<Rightarrow> 's \<Rightarrow> alloc_op \<Rightarrow> bool" where
  "op_adm adm s (OpAlloc b a) = adm s b a"
| "op_adm adm s (OpFree k) = True"

fun client_step ::
    "('s \<Rightarrow> nat \<Rightarrow> nat \<Rightarrow> ('s \<times> nat) outcome) \<Rightarrow> ('s \<Rightarrow> nat \<Rightarrow> 's outcome) \<Rightarrow>
       alloc_op \<Rightarrow> 's \<times> (nat \<times> nat) list \<Rightarrow> ('s \<times> (nat \<times> nat) list) outcome" where
  "client_step alloc rel (OpAlloc b a) (s, H) =
     obind (alloc s b a) (\<lambda>(s', p). Done (s', if p = 0 then H else (p, b) # H))"
| "client_step alloc rel (OpFree k) (s, H) =
     (if k < length H
      then obind (rel s (fst (H ! k))) (\<lambda>s'. Done (s', take k H @ drop (Suc k) H))
      else Done (s, H))"

fun client_run ::
    "('s \<Rightarrow> nat \<Rightarrow> nat \<Rightarrow> ('s \<times> nat) outcome) \<Rightarrow> ('s \<Rightarrow> nat \<Rightarrow> 's outcome) \<Rightarrow>
       alloc_op list \<Rightarrow> 's \<times> (nat \<times> nat) list \<Rightarrow> ('s \<times> (nat \<times> nat) list) outcome" where
  "client_run alloc rel [] st = Done st"
| "client_run alloc rel (x # xs) st = obind (client_step alloc rel x st) (client_run alloc rel xs)"

definition holds :: "nat \<times> nat \<Rightarrow> nat \<times> nat \<Rightarrow> bool" where
  "holds pb x \<longleftrightarrow> fst pb \<in> extent x \<and> {fst pb..<fst pb + snd pb} \<subseteq> extent x"

definition hold_ok :: "(nat \<times> nat) set \<Rightarrow> (nat \<times> nat) list \<Rightarrow> bool" where
  "hold_ok R H \<longleftrightarrow> (\<exists>xs. list_all2 holds H xs \<and> distinct xs \<and> set xs \<subseteq> R)"

lemma hold_ok_Nil [simp]: "hold_ok R []"
  by (simp add: hold_ok_def)

lemma hold_ok_alloc:
  assumes "hold_ok R H" and sp: "alloc_spec R b a R' p"
  shows "hold_ok R' ((p, b) # H)"
proof -
  obtain xs where xs: "list_all2 holds H xs" "distinct xs" "set xs \<subseteq> R"
    using assms(1) by (auto simp: hold_ok_def)
  from sp obtain x where x: "R' = insert x R" "x \<notin> R" "p \<in> extent x" "{p..<p + b} \<subseteq> extent x"
    by (rule alloc_specE)
  then have "holds (p, b) x" by (simp add: holds_def)
  with x have "list_all2 holds ((p, b) # H) (x # xs)" "distinct (x # xs)" "set (x # xs) \<subseteq> R'"
    using xs by auto
  then show ?thesis unfolding hold_ok_def by blast
qed

lemma hold_ok_release:
  assumes xs: "list_all2 holds H xs" "distinct xs" "set xs \<subseteq> R" and k: "k < length H"
  shows "hold_ok (R - {xs ! k}) (take k H @ drop (Suc k) H)"
proof -
  have len: "length xs = length H" using xs(1) by (simp add: list_all2_lengthD)
  have "list_all2 holds (take k H @ drop (Suc k) H) (take k xs @ drop (Suc k) xs)"
    using xs(1) len by (intro list_all2_appendI list_all2_takeI list_all2_dropI)
  moreover have "distinct (take k xs @ drop (Suc k) xs) \<and>
      set (take k xs @ drop (Suc k) xs) \<subseteq> R - {xs ! k}"
  proof -
    obtain ys x zs where d: "ys = take k xs" "x = xs ! k" "zs = drop (Suc k) xs" by blast
    with k len have "xs = ys @ x # zs" by (simp add: id_take_nth_drop)
    with xs(2,3) have "distinct (ys @ zs) \<and> set (ys @ zs) \<subseteq> R - {x}" by auto
    then show ?thesis by (simp only: d)
  qed
  ultimately show ?thesis unfolding hold_ok_def by blast
qed

lemma hold_ok_disjoint:
  assumes "hold_ok R H" and "separated R" and "i < length H" and "j < length H" and "i \<noteq> j"
  shows "{fst (H ! i)..<fst (H ! i) + snd (H ! i)} \<inter> {fst (H ! j)..<fst (H ! j) + snd (H ! j)} = {}"
proof -
  obtain xs where xs: "list_all2 holds H xs" "distinct xs" "set xs \<subseteq> R"
    using assms(1) by (auto simp: hold_ok_def)
  have len: "length xs = length H" using xs(1) by (simp add: list_all2_lengthD)
  have "xs ! i \<noteq> xs ! j" using xs(2) len assms(3-5) by (simp add: nth_eq_iff_index_eq)
  moreover have "xs ! i \<in> R" "xs ! j \<in> R" using xs(3) len assms(3,4) by auto
  ultimately have "extent (xs ! i) \<inter> extent (xs ! j) = {}" using assms(2) by (auto simp: separated_def)
  moreover have "holds (H ! i) (xs ! i)" "holds (H ! j) (xs ! j)"
    using xs(1) assms(3,4) by (auto simp: list_all2_conv_all_nth)
  ultimately show ?thesis unfolding holds_def by blast
qed

end
