(* ===== verification/MmHeap_Props.thy ===== *)
theory MmHeap_Props
  imports MmHeap_Safety
begin

text \<open>
  The contract of a pool as a locale, its two providers (the runtime pool and the buffer pool),
  the start-up of a heap, and the properties of \<^verbatim>\<open>src/lib/alloc.c\<close> that the manifest lists.
\<close>

section \<open>The contract of a pool\<close>

locale region_allocator =
  fixes ok :: "'s \<Rightarrow> bool"
    and regions :: "'s \<Rightarrow> (nat \<times> nat) set"
    and adm :: "'s \<Rightarrow> nat \<Rightarrow> nat \<Rightarrow> bool"
    and alloc :: "'s \<Rightarrow> nat \<Rightarrow> nat \<Rightarrow> ('s \<times> nat) outcome"
    and rel :: "'s \<Rightarrow> nat \<Rightarrow> 's outcome"
  assumes ok_separated: "ok s \<Longrightarrow> separated (regions s)"
    and alloc_served: "ok s \<Longrightarrow> adm s b a \<Longrightarrow> \<exists>s' p. alloc s b a = Done (s', p) \<and>
      ok s' \<and> adm s' = adm s \<and>
      (p = 0 \<and> regions s' = regions s \<or> alloc_spec (regions s) b a (regions s') p \<and> p \<noteq> 0)"
    and rel_served: "ok s \<Longrightarrow> x \<in> regions s \<Longrightarrow> p \<in> extent x \<Longrightarrow>
      \<exists>s'. rel s p = Done s' \<and> ok s' \<and> adm s' = adm s \<and> regions s' = regions s - {x}"
begin

lemma client_step_ok:
  assumes "ok s" and "hold_ok (regions s) H" and "op_adm adm s x"
  shows "\<exists>s' H'. client_step alloc rel x (s, H) = Done (s', H') \<and> ok s' \<and>
    hold_ok (regions s') H' \<and> adm s' = adm s"
proof (cases x)
  case (OpAlloc b a)
  with assms(3) have "adm s b a" by simp
  from alloc_served [OF assms(1) this] obtain s' p where
    r: "alloc s b a = Done (s', p)" "ok s'" "adm s' = adm s"
      "p = 0 \<and> regions s' = regions s \<or> alloc_spec (regions s) b a (regions s') p \<and> p \<noteq> 0" by blast
  from r(4) show ?thesis
  proof
    assume "p = 0 \<and> regions s' = regions s"
    with r OpAlloc assms(1,2) show ?thesis by simp
  next
    assume new: "alloc_spec (regions s) b a (regions s') p \<and> p \<noteq> 0"
    then have "hold_ok (regions s') ((p, b) # H)" using hold_ok_alloc [OF assms(2)] by blast
    with new r OpAlloc show ?thesis by simp
  qed
next
  case (OpFree k)
  show ?thesis
  proof (cases "k < length H")
    case False
    with OpFree assms show ?thesis by simp
  next
    case True
    obtain xs where xs: "list_all2 holds H xs" "distinct xs" "set xs \<subseteq> regions s"
      using assms(2) by (auto simp: hold_ok_def)
    then have k: "xs ! k \<in> regions s" "fst (H ! k) \<in> extent (xs ! k)"
      using True by (auto simp: list_all2_conv_all_nth holds_def)
    from rel_served [OF assms(1) k] obtain s' where r: "rel s (fst (H ! k)) = Done s'" "ok s'"
      "adm s' = adm s" "regions s' = regions s - {xs ! k}" by blast
    with OpFree True hold_ok_release [OF xs True] show ?thesis by simp
  qed
qed

lemma client_run_ok:
  assumes "\<forall>x\<in>set xs. op_adm adm s x" and "ok s" and "hold_ok (regions s) H"
  shows "\<exists>s' H'. client_run alloc rel xs (s, H) = Done (s', H') \<and> ok s' \<and> hold_ok (regions s') H'"
  using assms
proof (induction xs arbitrary: s H)
  case Nil
  then show ?case by simp
next
  case (Cons x xs)
  from client_step_ok [OF Cons.prems(2,3), of x] Cons.prems(1) obtain s' H' where
    st: "client_step alloc rel x (s, H) = Done (s', H')" "ok s'" "hold_ok (regions s') H'" "adm s' = adm s"
    by auto
  have "op_adm adm s' y = op_adm adm s y" for y using st(4) by (cases y) simp_all
  with Cons st show ?case by simp
qed

lemma client_disjoint:
  assumes "\<forall>x\<in>set xs. op_adm adm s x" and "ok s"
  shows "\<exists>s' H. client_run alloc rel xs (s, []) = Done (s', H) \<and> ok s' \<and>
    (\<forall>i<length H. \<forall>j<length H. i \<noteq> j \<longrightarrow>
       {fst (H ! i)..<fst (H ! i) + snd (H ! i)} \<inter> {fst (H ! j)..<fst (H ! j) + snd (H ! j)} = {})"
proof -
  from client_run_ok [OF assms, of "[]"] obtain s' H where
    r: "client_run alloc rel xs (s, []) = Done (s', H)" "ok s'" "hold_ok (regions s') H" by auto
  with hold_ok_disjoint [OF r(3) ok_separated [OF r(2)]] show ?thesis by blast
qed

lemma alloc_then_release:
  assumes "ok s" and "alloc s b a = Done (s', p)" and "adm s b a" and "p \<noteq> 0"
  shows "\<exists>s''. rel s' p = Done s'' \<and> ok s'' \<and> regions s'' = regions s"
proof -
  have r: "ok s'" "alloc_spec (regions s) b a (regions s') p"
    using alloc_served [OF assms(1,3)] assms(2,4) by auto
  from r(2) obtain x where x: "regions s' = insert x (regions s)" "p \<in> extent x" "x \<notin> regions s"
    by (rule alloc_specE)
  then show ?thesis using rel_served [OF r(1), of x p] by auto
qed

end

section \<open>The two pools\<close>

definition runtime_adm :: "mm_heap \<Rightarrow> nat \<Rightarrow> nat \<Rightarrow> bool" where
  "runtime_adm h b a \<longleftrightarrow> align_fits h a \<and> b + a < 2 ^ 31"

definition buffer_adm :: "mm_heap \<Rightarrow> nat \<Rightarrow> nat \<Rightarrow> bool" where
  "buffer_adm h b a \<longleftrightarrow> align_fits h a \<and> 0 < b \<and> b + a + 2 ^ 16 < 2 ^ 32"

lemma adm_span:
  assumes "same_span h h'"
  shows "runtime_adm h' = runtime_adm h" and "buffer_adm h' = buffer_adm h"
  by (intro ext; simp add: runtime_adm_def buffer_adm_def same_span_fits [OF assms])+

lemma free_in_heap_served:
  assumes "heap_ok h" and "x \<in> live h" and "p \<in> extent x"
  obtains h' where "free_in_heap h p = Done h'" "heap_ok h'" "live h' = live h - {x}" "same_span h h'"
  using free_in_heap_spec [OF assms] free_in_heap_span by blast

interpretation runtime_pool: region_allocator heap_ok live runtime_adm get_ptr_from_heap free_in_heap
proof
  show "\<exists>h' p. get_ptr_from_heap h b a = Done (h', p) \<and> heap_ok h' \<and> runtime_adm h' = runtime_adm h \<and>
      (p = 0 \<and> live h' = live h \<or> alloc_spec (live h) b a (live h') p \<and> p \<noteq> 0)"
    if "heap_ok h" "runtime_adm h b a" for h b a
  proof -
    have "served h b a (get_ptr_from_heap h b a)"
      using get_ptr_from_heap_served that by (simp add: runtime_adm_def)
    then obtain h' p where r: "get_ptr_from_heap h b a = Done (h', p)"
      "p = 0 \<and> h' = h \<or> heap_ok h' \<and> alloc_spec (live h) b a (live h') p \<and> p \<noteq> 0"
      unfolding served_def by blast
    with adm_span(1) [OF get_ptr_from_heap_span [OF r(1)]] that(1) show ?thesis by blast
  qed
  show "\<exists>h'. free_in_heap h p = Done h' \<and> heap_ok h' \<and> runtime_adm h' = runtime_adm h \<and> live h' = live h - {x}"
    if "heap_ok h" "x \<in> live h" "p \<in> extent x" for h x p
    using free_in_heap_served [OF that] adm_span(1) by metis
qed (rule live_separated)

interpretation buffer_pool: region_allocator heap_ok live buffer_adm alloc_heap_buffer free_in_heap
proof
  show "\<exists>h' p. alloc_heap_buffer h b a = Done (h', p) \<and> heap_ok h' \<and> buffer_adm h' = buffer_adm h \<and>
      (p = 0 \<and> live h' = live h \<or> alloc_spec (live h) b a (live h') p \<and> p \<noteq> 0)"
    if "heap_ok h" "buffer_adm h b a" for h b a
  proof -
    have "served h b a (alloc_heap_buffer h b a)"
      using alloc_heap_buffer_served that by (simp add: buffer_adm_def)
    then obtain h' p where r: "alloc_heap_buffer h b a = Done (h', p)"
      "p = 0 \<and> h' = h \<or> heap_ok h' \<and> alloc_spec (live h) b a (live h') p \<and> p \<noteq> 0"
      unfolding served_def by blast
    with adm_span(2) [OF alloc_heap_buffer_span [OF r(1)]] that(1) show ?thesis by blast
  qed
  show "\<exists>h'. free_in_heap h p = Done h' \<and> heap_ok h' \<and> buffer_adm h' = buffer_adm h \<and> live h' = live h - {x}"
    if "heap_ok h" "x \<in> live h" "p \<in> extent x" for h x p
    using free_in_heap_served [OF that] adm_span(2) by metis
qed (rule live_separated)

section \<open>Start-up\<close>

text \<open>What the platform's static tables describe before \<^verbatim>\<open>init_heap\<close> runs (\<^verbatim>\<open>BLOCK_DEF\<close>).\<close>

definition static_map :: "block_map \<Rightarrow> bool" where
  "static_map m \<longleftrightarrow> 0 < block_size m \<and> block_size m < 2 ^ 16 \<and> count m < 2 ^ 16 \<and>
     length (block m) = count m \<and> free_count m = count m \<and> first_free m = 0 \<and>
     (\<forall>b\<in>set (block m). hdr_size b = 0 \<and> hdr_used b = 0 \<and> unaligned_ptr b = 0)"

definition static_heap :: "mm_heap \<Rightarrow> bool" where
  "static_heap h \<longleftrightarrow> (\<forall>m\<in>set (hmap h). static_map m) \<and> 0 < heap h \<and>
     heap h + heap_size h < 2 ^ 32 \<and> (\<Sum>m\<leftarrow>hmap h. block_size m * count m) \<le> heap_size h \<and>
     info h = \<lparr>info_used = 0, info_free = heap_size h\<rparr>"

definition start_heap :: "mm_heap \<Rightarrow> mm_heap" where
  "start_heap h = init_heap_map [h] ! 0"

lemma start_heap_eq: "start_heap h = h\<lparr>hmap := init_maps (heap h) (hmap h)\<rparr>"
  by (simp add: start_heap_def init_heap_map_def)

abbreviation map_bytes :: "block_map \<Rightarrow> nat" where
  "map_bytes m \<equiv> block_size m * count m"

lemma length_init_maps [simp]: "length (init_maps b ms) = length ms"
  by (induction ms arbitrary: b) auto

lemma init_maps_nth:
  "b + (\<Sum>m\<leftarrow>ms. map_bytes m) < 2 ^ 32 \<Longrightarrow> j < length ms \<Longrightarrow>
     init_maps b ms ! j = (ms ! j)\<lparr>base := b + (\<Sum>m\<leftarrow>take j ms. map_bytes m)\<rparr>"
proof (induction ms arbitrary: b j)
  case (Cons m ms)
  have "u32 (b + map_bytes m) = b + map_bytes m" using Cons.prems(1) by (simp add: u32_id)
  with Cons show ?case by (cases j) (auto simp: add.assoc)
qed simp

lemma init_maps_keep:
  "map map_bytes (init_maps b ms) = map map_bytes ms" "map map_used (init_maps b ms) = map map_used ms"
  by (induction ms arbitrary: b) (auto simp: map_used_def)

lemma sum_list_take_mono: "i \<le> j \<Longrightarrow> (\<Sum>m\<leftarrow>take i ms. f m) \<le> (\<Sum>m\<leftarrow>take j ms. f m)" for f :: "'a \<Rightarrow> nat"
proof -
  assume "i \<le> j"
  then have "take j ms = take i ms @ take (j - i) (drop i ms)"
    by (metis le_add_diff_inverse take_add)
  then show ?thesis by simp
qed

lemma static_map_ok:
  assumes "static_map m" and "0 < b" and "b + map_bytes m < 2 ^ 32"
  shows "map_ok (m\<lparr>base := b\<rparr>)" and "runs (m\<lparr>base := b\<rparr>) = {}"
proof -
  have z: "hdr_size (block m ! j) = 0 \<and> hdr_used (block m ! j) = 0 \<and> unaligned_ptr (block m ! j) = 0"
    if "j < count m" for j
    using assms(1) that by (simp add: static_map_def)
  then have "free_set (m\<lparr>base := b\<rparr>) = {..<count m}" by (auto simp: free_set_def)
  then show "map_ok (m\<lparr>base := b\<rparr>)"
    using assms z unfolding map_ok_def geom_ok_def runs_ok_def free_ok_def
    by (simp add: static_map_def)
  show "runs (m\<lparr>base := b\<rparr>) = {}" using z by (auto simp: runs_def)
qed

lemma sum_list_all_0: "(\<And>x. x \<in> set xs \<Longrightarrow> f x = 0) \<Longrightarrow> (0::nat) = sum_list (map f xs)" for f :: "'a \<Rightarrow> nat"
  by (induction xs) auto

lemma start_heap_ok:
  assumes "static_heap h"
  shows "heap_ok (start_heap h)" and "live (start_heap h) = {}"
proof -
  let ?ms = "hmap h" and ?b = "heap h" and ?S = "\<lambda>j. \<Sum>m\<leftarrow>take j (hmap h). map_bytes m"
  have tot: "?b + (\<Sum>m\<leftarrow>?ms. map_bytes m) < 2 ^ 32" "(\<Sum>m\<leftarrow>?ms. map_bytes m) \<le> heap_size h"
    using assms by (auto simp: static_heap_def)
  have nth: "init_maps ?b ?ms ! j = (?ms ! j)\<lparr>base := ?b + ?S j\<rparr>" if "j < length ?ms" for j
    by (rule init_maps_nth [OF tot(1) that])
  have S: "?S (Suc j) = ?S j + map_bytes (?ms ! j)" if "j < length ?ms" for j
    using that by (simp add: take_Suc_conv_app_nth)
  have Sle: "?S (Suc j) \<le> (\<Sum>m\<leftarrow>?ms. map_bytes m)" for j
    using sum_list_take_mono [of "Suc j" "max (Suc j) (length ?ms)" map_bytes ?ms] by simp
  have ok: "map_ok (init_maps ?b ?ms ! j) \<and> runs (init_maps ?b ?ms ! j) = {}" if j: "j < length ?ms" for j
    unfolding nth [OF j]
    using static_map_ok [of "?ms ! j" "?b + ?S j"] assms j S [OF j] Sle [of j] tot(1)
    by (auto simp: static_heap_def)
  have e: "map_end (init_maps ?b ?ms ! j) = ?b + ?S (Suc j)" "base (init_maps ?b ?ms ! j) = ?b + ?S j"
    if j: "j < length ?ms" for j
    using S [OF j] by (simp_all add: nth [OF j] map_end_def block_addr_def)
  have "layout_ok (start_heap h)"
    unfolding layout_ok_def start_heap_eq
    using assms e Sle tot sum_list_take_mono [of "Suc _" _ map_bytes ?ms] init_maps_keep(1) [of ?b ?ms]
    by (auto simp: static_heap_def intro: order_trans)
  moreover have "account_ok (start_heap h)"
  proof -
    have "(0::nat) = (\<Sum>m\<leftarrow>?ms. map_used m)"
      using assms by (intro sum_list_all_0) (auto simp: static_heap_def static_map_def map_used_def)
    with assms init_maps_keep(2) [of ?b ?ms] show ?thesis
      by (simp add: account_ok_def start_heap_eq static_heap_def)
  qed
  moreover have "\<forall>m\<in>set (hmap (start_heap h)). map_ok m"
    using ok by (auto simp: start_heap_eq in_set_conv_nth)
  ultimately show "heap_ok (start_heap h)" by (simp add: heap_ok_def)
  show "live (start_heap h) = {}" using ok by (simp add: live_def start_heap_eq)
qed
section \<open>The accounting counts the live regions\<close>

lemma runs_finite [simp]: "finite (runs m)"
  by (simp add: runs_def)

lemma runs_cover:
  assumes "map_ok m"
  shows "(\<Union>r\<in>runs m. {fst r..<fst r + snd r}) = {..<count m} - free_set m"
proof (intro equalityI subsetI)
  fix k assume "k \<in> (\<Union>r\<in>runs m. {fst r..<fst r + snd r})"
  then obtain i where i: "i < count m" "0 < size_at m i" "k \<in> {i..<i + size_at m i}"
    by (auto simp: runs_def)
  from runs_okD(1,2) [OF map_okD(2) [OF assms] i(1,2)] i(3)
  show "k \<in> {..<count m} - free_set m" by (auto simp: free_set_def)
next
  fix k assume "k \<in> {..<count m} - free_set m"
  then have k: "k < count m" "used_at m k" by (auto simp: free_set_def)
  obtain i where i: "i < count m" "0 < size_at m i" "k \<in> {i..<i + size_at m i}"
    by (rule used_run [OF map_okD(2) [OF assms] k])
  then have "(i, size_at m i) \<in> runs m" by (auto simp: runs_def)
  with i(3) show "k \<in> (\<Union>r\<in>runs m. {fst r..<fst r + snd r})" by force
qed

lemma runs_sum:
  assumes "map_ok m"
  shows "(\<Sum>r\<in>runs m. snd r) = count m - free_count m"
proof -
  have "{fst r..<fst r + snd r} \<inter> {fst s..<fst s + snd s} = {}"
    if "r \<in> runs m" "s \<in> runs m" "r \<noteq> s" for r s
  proof (rule ccontr)
    note rD = runsD [OF assms that(1)] and sD = runsD [OF assms that(2)]
    assume "{fst r..<fst r + snd r} \<inter> {fst s..<fst s + snd s} \<noteq> {}"
    then obtain k where "k \<in> {fst r..<fst r + size_at m (fst r)}" "k \<in> {fst s..<fst s + size_at m (fst s)}"
      using rD(4) sD(4) by (metis IntE ex_in_conv)
    from run_unique [OF map_okD(1,2) [OF assms] rD(1) sD(1) this] rD(4) sD(4) that(3)
    show False by (simp add: prod_eq_iff)
  qed
  then have "card (\<Union>r\<in>runs m. {fst r..<fst r + snd r}) = (\<Sum>r\<in>runs m. card {fst r..<fst r + snd r})"
    by (intro card_UN_disjoint) auto
  moreover have "free_set m \<subseteq> {..<count m}" by (auto simp: free_set_def)
  moreover have "free_count m = card (free_set m)" using map_okD(3) [OF assms] by (simp add: free_ok_def)
  ultimately show ?thesis by (simp add: runs_cover [OF assms] card_Diff_subset)
qed

lemma map_used_regions:
  assumes "map_ok m"
  shows "map_used m = (\<Sum>x\<in>region m ` runs m. snd x)"
proof -
  have "(\<Sum>x\<in>region m ` runs m. snd x) = (\<Sum>r\<in>runs m. snd r * block_size m)"
    by (simp add: sum.reindex [OF region_inj_on [OF assms]]) (simp add: region_def)
  then show ?thesis by (simp add: map_used_def mult.commute flip: runs_sum [OF assms] sum_distrib_left)
qed

lemma info_used_live:
  assumes "heap_ok h"
  shows "info_used (info h) = (\<Sum>x\<in>live h. snd x)"
proof -
  let ?n = "length (hmap h)" and ?R = "\<lambda>i. region (hmap h ! i) ` runs (hmap h ! i)"
  have "?R i \<inter> ?R j = {}" if ij: "i < ?n" "j < ?n" "i \<noteq> j" for i j
  proof -
    have "region (hmap h ! i) r \<noteq> region (hmap h ! j) s"
      if r: "r \<in> runs (hmap h ! i)" and s: "s \<in> runs (hmap h ! j)" for r s
      using maps_disjoint [OF assms ij r s] region_bounds(3) [OF heap_okD(3) [OF assms ij(2)] s]
      by (auto simp: extent_def)
    then show ?thesis by blast
  qed
  then have "(\<Sum>x\<in>live h. snd x) = (\<Sum>i<?n. \<Sum>x\<in>?R i. snd x)"
    unfolding live_def by (intro sum.UNION_disjoint) auto
  also have "\<dots> = (\<Sum>i<?n. map_used (hmap h ! i))"
    by (intro sum.cong refl map_used_regions [symmetric] heap_okD(3) [OF assms]) simp
  also have "\<dots> = info_used (info h)"
    using heap_okD(2) [OF assms] by (simp add: account_ok_def sum_list_sum_nth atLeast0LessThan)
  finally show ?thesis by simp
qed

end
