(* ===== verification/MmApi.thy ===== *)
theory MmApi
  imports MmHeap_Props
begin

text \<open>
  The public buffer interface of \<^verbatim>\<open>src/lib/alloc.c\<close> over the whole memory map:
  \<open>rballoc_align\<close>, \<open>rfree\<close> and \<open>rbrealloc_align\<close> provide the pool contract, on
  platforms whose cached and uncached addresses are the same.
\<close>

section \<open>The memory map\<close>

definition flat_platform :: "platform \<Rightarrow> bool" where
  "flat_platform p \<longleftrightarrow> (\<forall>a. cache_to_uncache p a = a) \<and> (\<forall>a. uncache_to_cache p a = a) \<and>
     (\<forall>a. \<not> is_uncached p a) \<and> (\<forall>a. platform_rfree_prepare p a = a)"

definition heap_span :: "mm_heap \<Rightarrow> nat set" where
  "heap_span h = {heap h..<heap h + heap_size h}"

abbreviation block_heaps :: "mm \<Rightarrow> mm_heap list" where
  "block_heaps mm \<equiv> system_runtime mm @ runtime mm @ runtime_shared mm @ buffer mm"

abbreviation all_heaps :: "mm \<Rightarrow> mm_heap list" where
  "all_heaps mm \<equiv> system mm @ system_shared mm @ block_heaps mm"

definition mm_ok :: "nat \<Rightarrow> mm \<Rightarrow> bool" where
  "mm_ok core mm \<longleftrightarrow> core < length (system mm) \<and> (\<forall>h\<in>set (block_heaps mm). heap_ok h) \<and>
     (\<forall>h\<in>set (all_heaps mm). heap h + heap_size h < 2 ^ 32) \<and>
     sorted_wrt (\<lambda>a b. a \<inter> b = {}) (map heap_span (all_heaps mm))"

definition buffers_live :: "mm \<Rightarrow> (nat \<times> nat) set" where
  "buffers_live mm = (\<Union>h\<in>set (buffer mm). live h)"

definition buffers_adm :: "mm \<Rightarrow> nat \<Rightarrow> nat \<Rightarrow> bool" where
  "buffers_adm mm b a \<longleftrightarrow> (\<forall>h\<in>set (buffer mm). buffer_adm h b a)"

lemma mm_okD:
  assumes "mm_ok core mm"
  shows "core < length (system mm)" "h \<in> set (block_heaps mm) \<Longrightarrow> heap_ok h"
    "k < length (buffer mm) \<Longrightarrow> heap_ok (buffer mm ! k)"
    "h \<in> set (all_heaps mm) \<Longrightarrow> heap h + heap_size h < 2 ^ 32"
    "sorted_wrt (\<lambda>a b. a \<inter> b = {}) (map heap_span (all_heaps mm))"
  using assms by (auto simp: mm_ok_def)

lemma live_in_span:
  assumes "heap_ok h" and "x \<in> live h"
  shows "extent x \<subseteq> heap_span h"
proof -
  obtain i r where i: "i < length (hmap h)" "r \<in> runs (hmap h ! i)" "x = region (hmap h ! i) r"
    using assms(2) by (auto simp: live_def)
  with region_bounds [OF heap_okD(3) [OF assms(1) i(1)] i(2)]
    layout_okD(2,3) [OF heap_okD(1) [OF assms(1)] i(1)]
  show ?thesis by (auto simp: extent_def heap_span_def)
qed

lemma live_nonempty:
  assumes "heap_ok h" and "x \<in> live h"
  shows "extent x \<noteq> {}"
proof -
  obtain i r where i: "i < length (hmap h)" "r \<in> runs (hmap h ! i)" "x = region (hmap h ! i) r"
    using assms(2) by (auto simp: live_def)
  with region_bounds(3) [OF heap_okD(3) [OF assms(1) i(1)] i(2)] show ?thesis by (simp add: extent_def)
qed

lemma buffer_spans_disjoint:
  assumes "mm_ok core mm" and "i < length (buffer mm)" and "j < length (buffer mm)" and "i \<noteq> j"
  shows "heap_span (buffer mm ! i) \<inter> heap_span (buffer mm ! j) = {}"
proof -
  have s: "sorted_wrt (\<lambda>a b. a \<inter> b = {}) (map heap_span (buffer mm))"
    using mm_okD(5) [OF assms(1)] by (simp add: sorted_wrt_append)
  consider "i < j" | "j < i" using assms(4) by linarith
  then show ?thesis
    using sorted_wrt_nth_less [OF s, of i j] sorted_wrt_nth_less [OF s, of j i] assms(2,3)
    by cases (auto simp: Int_commute)
qed

lemma sorted_wrt_across:
  "sorted_wrt P (map f xs @ map f ys) \<Longrightarrow> a \<in> set xs \<Longrightarrow> b \<in> set ys \<Longrightarrow> P (f a) (f b)"
  by (simp add: sorted_wrt_append)

lemma buffer_alone:
  assumes "mm_ok core mm" and "k < length (buffer mm)" and "q \<in> heap_span (buffer mm ! k)"
    and "h \<in> set (system mm @ system_shared mm @ system_runtime mm @ runtime mm @ runtime_shared mm)"
  shows "q \<notin> heap_span h"
proof -
  let ?pre = "system mm @ system_shared mm @ system_runtime mm @ runtime mm @ runtime_shared mm"
  have "sorted_wrt (\<lambda>a b. a \<inter> b = {}) (map heap_span ?pre @ map heap_span (buffer mm))"
    using mm_okD(5) [OF assms(1)] by simp
  then have "heap_span h \<inter> heap_span (buffer mm ! k) = {}"
    by (rule sorted_wrt_across [OF _ assms(4) nth_mem [OF assms(2)]])
  with assms(3) show ?thesis by blast
qed

section \<open>Updating one buffer heap\<close>

lemma mm_ok_put_buffer:
  assumes "mm_ok core mm" and "k < length (buffer mm)" and "heap_ok h'" and "same_span (buffer mm ! k) h'"
  shows "mm_ok core (mm\<lparr>buffer := (buffer mm)[k := h']\<rparr>)"
proof -
  have "map heap_span ((buffer mm)[k := h']) = map heap_span (buffer mm)"
    using assms(2,4) by (intro map_list_update_id) (simp_all add: heap_span_def same_span_def)
  moreover have "heap h + heap_size h < 2 ^ 32" if "h \<in> set ((buffer mm)[k := h'])" for h
    using set_update_subset_insert [of "buffer mm" k h'] that mm_okD(4) [OF assms(1), of "buffer mm ! k"]
      mm_okD(4) [OF assms(1), of h] assms(2,4)
    by (auto simp: same_span_def)
  moreover have "heap_ok h" if "h \<in> set ((buffer mm)[k := h'])" for h
    using set_update_subset_insert [of "buffer mm" k h'] that mm_okD(2) [OF assms(1), of h] assms(3) by auto
  ultimately show ?thesis
    using assms(1) by (auto simp: mm_ok_def)
qed

lemma mm_ok_trace [simp]: "mm_ok core (mm\<lparr>heap_trace_updated := t\<rparr>) = mm_ok core mm"
  by (simp add: mm_ok_def)

lemma buffers_live_trace [simp]: "buffers_live (mm\<lparr>heap_trace_updated := t\<rparr>) = buffers_live mm"
  by (simp add: buffers_live_def)

lemma debug_trace_ptr_keeps [simp]:
  "mm_ok core (debug_trace_ptr p q mm) = mm_ok core mm"
  "buffers_live (debug_trace_ptr p q mm) = buffers_live mm"
  "buffer (debug_trace_ptr p q mm) = buffer mm"
  by (simp_all add: debug_trace_ptr_def heap_trace_all_def)

definition live_others :: "mm \<Rightarrow> nat \<Rightarrow> (nat \<times> nat) set" where
  "live_others mm k = (\<Union>i\<in>{..<length (buffer mm)} - {k}. live (buffer mm ! i))"

lemma buffers_live_split:
  assumes "k < length (buffer mm)"
  shows "buffers_live mm = live (buffer mm ! k) \<union> live_others mm k"
proof -
  have "buffers_live mm = (\<Union>i<length (buffer mm). live (buffer mm ! i))"
    unfolding buffers_live_def set_conv_nth by blast
  with assms show ?thesis unfolding live_others_def by blast
qed

lemma buffers_live_put:
  assumes "k < length (buffer mm)"
  shows "buffers_live (mm\<lparr>buffer := (buffer mm)[k := h']\<rparr>) = live h' \<union> live_others mm k"
proof -
  have "live_others (mm\<lparr>buffer := (buffer mm)[k := h']\<rparr>) k = live_others mm k"
    by (auto simp: live_others_def)
  with buffers_live_split [of k "mm\<lparr>buffer := (buffer mm)[k := h']\<rparr>"] assms show ?thesis by simp
qed

lemma live_others_disjoint:
  assumes "mm_ok core mm" and "k < length (buffer mm)" and "r \<in> live_others mm k"
    and "extent x \<subseteq> heap_span (buffer mm ! k)"
  shows "extent r \<inter> extent x = {}" and "r \<noteq> x"
proof -
  obtain i where i: "i < length (buffer mm)" "i \<noteq> k" "r \<in> live (buffer mm ! i)"
    using assms(3) by (auto simp: live_others_def)
  note s = live_in_span [OF mm_okD(3) [OF assms(1) i(1)] i(3)]
    and n = live_nonempty [OF mm_okD(3) [OF assms(1) i(1)] i(3)]
  show d: "extent r \<inter> extent x = {}"
    using s assms(4) buffer_spans_disjoint [OF assms(1) i(1) assms(2) i(2)] by blast
  with n show "r \<noteq> x" by blast
qed

lemma buffers_separated:
  assumes "mm_ok core mm"
  shows "separated (buffers_live mm)"
  unfolding separated_def
proof (intro ballI impI)
  fix r s assume r: "r \<in> buffers_live mm" and s: "s \<in> buffers_live mm" and ne: "r \<noteq> s"
  obtain k where k: "k < length (buffer mm)" "s \<in> live (buffer mm ! k)"
    using s by (auto simp: buffers_live_def in_set_conv_nth)
  note h = mm_okD(3) [OF assms k(1)]
  from r buffers_live_split [OF k(1)] consider "r \<in> live (buffer mm ! k)" | "r \<in> live_others mm k" by blast
  then show "extent r \<inter> extent s = {}"
  proof cases
    case 1
    with live_separated [OF h] k(2) ne show ?thesis by (simp add: separated_def)
  next
    case 2
    show ?thesis by (rule live_others_disjoint(1) [OF assms k(1) 2 live_in_span [OF h k(2)]])
  qed
qed
definition same_buffers :: "mm \<Rightarrow> mm \<Rightarrow> bool" where
  "same_buffers mm mm' \<longleftrightarrow> list_all2 same_span (buffer mm) (buffer mm')"

lemma same_buffers_put:
  assumes "k < length (buffer mm)" and "same_span (buffer mm ! k) h'"
  shows "same_buffers mm (mm\<lparr>buffer := (buffer mm)[k := h']\<rparr>)"
  using assms by (auto simp: same_buffers_def list_all2_conv_all_nth nth_list_update)

lemma same_buffers_refl [simp]: "same_buffers mm mm"
  by (simp add: same_buffers_def list.rel_refl)

lemma same_buffers_adm: "same_buffers mm mm' \<Longrightarrow> buffers_adm mm' = buffers_adm mm"
  using adm_span(2)
  by (intro ext) (fastforce simp: same_buffers_def buffers_adm_def list_all2_conv_all_nth all_set_conv_all_nth)

section \<open>Finding the heap of a buffer\<close>

lemma find_in_heap_arr_None:
  assumes "\<forall>h\<in>set hs. heap h + heap_size h < 2 ^ 32 \<and> q \<notin> heap_span h"
  shows "find_in_heap_arr hs q = None"
proof -
  have "\<not> (heap (hs ! i) \<le> q \<and> q < u32 (heap (hs ! i) + heap_size (hs ! i)))" if "i < length hs" for i
    using assms nth_mem [OF that] by (auto simp: u32_id heap_span_def)
  then show ?thesis by (simp add: find_in_heap_arr_def find_upt_None)
qed

lemma find_in_heap_arr_Some:
  assumes k: "k < length hs" "q \<in> heap_span (hs ! k)"
    and bnd: "\<forall>h\<in>set hs. heap h + heap_size h < 2 ^ 32"
    and others: "\<forall>i<length hs. i \<noteq> k \<longrightarrow> q \<notin> heap_span (hs ! i)"
  shows "find_in_heap_arr hs q = Some k"
proof -
  have "(heap (hs ! i) \<le> q \<and> q < u32 (heap (hs ! i) + heap_size (hs ! i))) \<longleftrightarrow> i = k" if "i < length hs" for i
    using bnd nth_mem [OF that] others that k(2) by (auto simp: u32_id heap_span_def)
  then show ?thesis using k(1) by (auto simp: find_in_heap_arr_def find_upt_Some)
qed

lemma get_heap_from_ptr_buffer:
  assumes ok: "mm_ok core mm" and k: "k < length (buffer mm)" "q \<in> heap_span (buffer mm ! k)"
  shows "get_heap_from_ptr p core mm q = Some (BufferHeap k)"
proof -
  note alone = buffer_alone [OF ok k] and bnd = mm_okD(4) [OF ok]
  have "find_in_heap_arr (take 1 (drop core (system_runtime mm))) q = None"
    "find_in_heap_arr (runtime mm) q = None" "find_in_heap_arr (runtime_shared mm) q = None"
    using alone bnd by (intro find_in_heap_arr_None; auto dest!: in_set_takeD in_set_dropD)+
  moreover have "find_in_heap_arr (buffer mm) q = Some k"
    using bnd k buffer_spans_disjoint [OF ok _ k(1)] by (intro find_in_heap_arr_Some) auto
  ultimately show ?thesis by (simp add: get_heap_from_ptr_def)
qed

section \<open>Release\<close>

lemma rfree_buffer:
  assumes ok: "mm_ok core mm" and flat: "flat_platform p"
    and k: "k < length (buffer mm)" "x \<in> live (buffer mm ! k)" "q \<in> extent x"
  obtains h' where "free_in_heap (buffer mm ! k) q = Done h'" "heap_ok h'"
    "live h' = live (buffer mm ! k) - {x}" "same_span (buffer mm ! k) h'"
    "rfree_unlocked p core mm q =
       Done (mm\<lparr>buffer := (buffer mm)[k := h'], heap_trace_updated := 1\<rparr>)"
proof -
  note h = mm_okD(3) [OF ok k(1)]
  obtain h' where h': "free_in_heap (buffer mm ! k) q = Done h'" "heap_ok h'"
    "live h' = live (buffer mm ! k) - {x}"
    using free_in_heap_spec [OF h k(2,3)] by blast
  have q: "q \<in> heap_span (buffer mm ! k)" using live_in_span [OF h k(2)] k(3) by blast
  note sp = free_in_heap_span [OF h'(1)]
  have q0: "q \<noteq> 0"
  proof -
    obtain i r where i: "i < length (hmap (buffer mm ! k))" "r \<in> runs (hmap (buffer mm ! k) ! i)"
      "x = region (hmap (buffer mm ! k) ! i) r" using k(2) by (auto simp: live_def)
    with region_bounds(1) [OF heap_okD(3) [OF h i(1)] i(2)] map_okD(1) [OF heap_okD(3) [OF h i(1)]] k(3)
    show ?thesis by (auto simp: extent_def geom_ok_def)
  qed
  have sysok: "\<not> in_heap s q" if "s \<in> set (system mm)" for s
    using buffer_alone [OF ok k(1) q, of s] mm_okD(4) [OF ok, of s] that
    by (auto simp: in_heap_def heap_span_def u32_id)
  have len: "0 < length (system mm)" "core < length (system mm)" using mm_okD(1) [OF ok] by auto
  have sys: "take 1 (drop core (system mm)) = [system mm ! core]" "take 1 (system mm) = [system mm ! 0]"
    using len by (simp_all add: take_Suc_conv_app_nth)
  have "free_block p core mm q = Done (mm\<lparr>buffer := (buffer mm)[k := h']\<rparr>)"
    using flat h'(1) get_heap_from_ptr_buffer [OF ok k(1) q, of p]
    by (simp add: free_block_def flat_platform_def)
  then have "rfree_unlocked p core mm q =
       Done (mm\<lparr>buffer := (buffer mm)[k := h'], heap_trace_updated := 1\<rparr>)"
    using q0 flat sysok len sys by (simp add: rfree_unlocked_def flat_platform_def Let_def)
  with h' sp show ?thesis using that by blast
qed

lemma buffers_release:
  assumes ok: "mm_ok core mm" and flat: "flat_platform p"
    and x: "x \<in> buffers_live mm" "q \<in> extent x"
  shows "\<exists>mm'. rfree p core mm q = Done mm' \<and> mm_ok core mm' \<and> buffers_live mm' = buffers_live mm - {x} \<and>
    same_buffers mm mm'"
proof -
  obtain k where k: "k < length (buffer mm)" "x \<in> live (buffer mm ! k)"
    using x(1) by (auto simp: buffers_live_def in_set_conv_nth)
  obtain h' where h': "heap_ok h'" "live h' = live (buffer mm ! k) - {x}" "same_span (buffer mm ! k) h'"
    "rfree_unlocked p core mm q = Done (mm\<lparr>buffer := (buffer mm)[k := h'], heap_trace_updated := 1\<rparr>)"
    by (rule rfree_buffer [OF ok flat k x(2)])
  have "x \<notin> live_others mm k"
    using live_others_disjoint(2) [OF ok k(1) _ live_in_span [OF mm_okD(3) [OF ok k(1)] k(2)]] by blast
  then have "buffers_live (mm\<lparr>buffer := (buffer mm)[k := h']\<rparr>) = buffers_live mm - {x}"
    unfolding buffers_live_put [OF k(1)] buffers_live_split [OF k(1)] using h'(2) by blast
  with h' mm_ok_put_buffer [OF ok k(1) h'(1,3)] same_buffers_put [OF k(1) h'(3)] show ?thesis
    by (auto simp: rfree_def same_buffers_def)
qed

section \<open>Allocation\<close>

lemma balloc_loop_served:
  assumes "mm_ok core mm" and "buffers_adm mm b a"
  shows "\<exists>mm' q. balloc_loop mm cap b a i = Done (mm', q) \<and> (q = 0 \<and> mm' = mm \<or>
    (\<exists>k<length (buffer mm). \<exists>h'. mm' = mm\<lparr>buffer := (buffer mm)[k := h']\<rparr> \<and> heap_ok h' \<and>
       same_span (buffer mm ! k) h' \<and> alloc_spec (live (buffer mm ! k)) b a (live h') q \<and> q \<noteq> 0))"
  using assms
proof (induction mm cap b a i rule: balloc_loop.induct)
  case (1 mm cap b a i)
  show ?case
  proof (cases "i < length (buffer mm)")
    case False
    then show ?thesis by (subst balloc_loop.simps) simp
  next
    case i: True
    show ?thesis
    proof (cases "get_heap_from_caps (drop i (buffer mm)) cap")
      case None
      with i show ?thesis by (subst balloc_loop.simps) simp
    next
      case (Some j)
      then have j: "i + j < length (buffer mm)"
        using i by (auto simp: get_heap_from_caps_def find_upt_Some)
      have adm: "buffer_adm (buffer mm ! (i + j)) b a" using 1(3) j by (simp add: buffers_adm_def)
      obtain h' q where r: "alloc_heap_buffer (buffer mm ! (i + j)) b a = Done (h', q)"
        "q = 0 \<and> h' = buffer mm ! (i + j) \<or> heap_ok h' \<and>
           alloc_spec (live (buffer mm ! (i + j))) b a (live h') q \<and> q \<noteq> 0"
        using alloc_heap_buffer_served [of "buffer mm ! (i + j)" a b] mm_okD(3) [OF 1(2) j] adm
        unfolding buffer_adm_def served_def by blast
      note step = balloc_loop.simps [of mm cap b a i]
      from r(2) show ?thesis
      proof
        assume z: "q = 0 \<and> h' = buffer mm ! (i + j)"
        have "mm\<lparr>buffer := (buffer mm)[i + j := buffer mm ! (i + j)]\<rparr> = mm" by simp
        with 1(1) [OF i Some r(1) refl] 1(2,3) i Some r(1) z
        show ?thesis unfolding step by simp
      next
        assume n: "heap_ok h' \<and> alloc_spec (live (buffer mm ! (i + j))) b a (live h') q \<and> q \<noteq> 0"
        with i Some r(1) have "balloc_loop mm cap b a i =
          Done (mm\<lparr>buffer := (buffer mm)[i + j := h']\<rparr>, q)" unfolding step by (simp add: Let_def)
        with n j alloc_heap_buffer_span [OF r(1)] show ?thesis by blast
      qed
    qed
  qed
qed

lemma alloc_spec_others:
  assumes ok: "mm_ok core mm" and k: "k < length (buffer mm)" and h': "heap_ok h'"
    and sp: "same_span (buffer mm ! k) h'" and al: "alloc_spec (live (buffer mm ! k)) b a (live h') q"
  shows "alloc_spec (buffers_live mm) b a (buffers_live (mm\<lparr>buffer := (buffer mm)[k := h']\<rparr>)) q"
proof -
  obtain x where x: "live h' = insert x (live (buffer mm ! k))" "fst x \<le> q" "q + b \<le> fst x + snd x"
    "0 < snd x" "q < fst x + snd x" "\<forall>r\<in>live (buffer mm ! k). extent r \<inter> extent x = {}" "a \<noteq> 0 \<longrightarrow> a dvd q"
    using al unfolding alloc_spec_def by blast
  have "extent x \<subseteq> heap_span (buffer mm ! k)"
    using live_in_span [OF h', of x] x(1) sp by (simp add: heap_span_def same_span_def)
  then have "\<forall>r\<in>buffers_live mm. extent r \<inter> extent x = {}"
    using buffers_live_split [OF k] x(6) live_others_disjoint(1) [OF ok k] by blast
  moreover have "buffers_live (mm\<lparr>buffer := (buffer mm)[k := h']\<rparr>) = insert x (buffers_live mm)"
    unfolding buffers_live_put [OF k] buffers_live_split [OF k] x(1) by blast
  ultimately show ?thesis unfolding alloc_spec_def using x by blast
qed

definition pool_step :: "nat \<Rightarrow> mm \<Rightarrow> nat \<Rightarrow> nat \<Rightarrow> mm \<Rightarrow> nat \<Rightarrow> bool" where
  "pool_step core mm b a mm' q \<longleftrightarrow> mm_ok core mm' \<and> same_buffers mm mm' \<and>
     (q = 0 \<and> mm' = mm \<or> alloc_spec (buffers_live mm) b a (buffers_live mm') q \<and> q \<noteq> 0)"

lemma balloc_unlocked_served:
  assumes ok: "mm_ok core mm" and flat: "flat_platform p" and adm: "buffers_adm mm b a"
  shows "\<exists>mm' q. balloc_unlocked p mm flags cap b a = Done (mm', q) \<and> pool_step core mm b a mm' q"
proof -
  obtain mm' q where r: "balloc_loop mm cap b a 0 = Done (mm', q)" "q = 0 \<and> mm' = mm \<or>
    (\<exists>k<length (buffer mm). \<exists>h'. mm' = mm\<lparr>buffer := (buffer mm)[k := h']\<rparr> \<and> heap_ok h' \<and>
       same_span (buffer mm ! k) h' \<and> alloc_spec (live (buffer mm ! k)) b a (live h') q \<and> q \<noteq> 0)"
    using balloc_loop_served [OF ok adm] by blast
  have "balloc_unlocked p mm flags cap b a = Done (mm', q)"
    using r(1) flat by (simp add: balloc_unlocked_def flat_platform_def)
  moreover have "pool_step core mm b a mm' q"
    using r(2)
  proof (elim disjE exE conjE)
    fix k h' assume *: "k < length (buffer mm)" "mm' = mm\<lparr>buffer := (buffer mm)[k := h']\<rparr>" "heap_ok h'"
      "same_span (buffer mm ! k) h'" "alloc_spec (live (buffer mm ! k)) b a (live h') q" "q \<noteq> 0"
    show ?thesis
      unfolding pool_step_def *(2)
      using mm_ok_put_buffer [OF ok *(1,3,4)] same_buffers_put [OF *(1,4)]
        alloc_spec_others [OF ok *(1,3,4,5)] *(6) by blast
  qed (simp add: pool_step_def ok)
  ultimately show ?thesis by blast
qed

section \<open>The public interface provides the contract\<close>

lemma buffer_api:
  assumes flat: "flat_platform p"
  shows "region_allocator (mm_ok core) buffers_live buffers_adm
           (\<lambda>mm b a. rballoc_align p mm flags cap b a) (rfree p core)"
proof
  show "mm_ok core mm \<Longrightarrow> separated (buffers_live mm)" for mm by (rule buffers_separated)
  show "\<exists>mm' q. rballoc_align p mm flags cap b a = Done (mm', q) \<and> mm_ok core mm' \<and>
      buffers_adm mm' = buffers_adm mm \<and> (q = 0 \<and> buffers_live mm' = buffers_live mm \<or>
        alloc_spec (buffers_live mm) b a (buffers_live mm') q \<and> q \<noteq> 0)"
    if "mm_ok core mm" "buffers_adm mm b a" for mm b a
  proof -
    note served = balloc_unlocked_served [OF that(1) flat that(2)]
    obtain mm' q where r: "balloc_unlocked p mm flags cap b a = Done (mm', q)" "pool_step core mm b a mm' q"
      using served by blast
    let ?mm = "debug_trace_ptr p q mm'"
    have "rballoc_align p mm flags cap b a = Done (?mm, q)" using r(1) by (simp add: rballoc_align_def)
    moreover have "same_buffers mm ?mm" using r(2) by (simp add: pool_step_def same_buffers_def)
    ultimately show ?thesis using r(2) same_buffers_adm unfolding pool_step_def
      by (metis debug_trace_ptr_keeps(1,2))
  qed
  show "\<exists>mm'. rfree p core mm q = Done mm' \<and> mm_ok core mm' \<and> buffers_adm mm' = buffers_adm mm \<and>
      buffers_live mm' = buffers_live mm - {x}"
    if "mm_ok core mm" "x \<in> buffers_live mm" "q \<in> extent x" for mm x q
    using buffers_release [OF that(1) flat that(2,3)] same_buffers_adm by blast
qed

lemma same_buffers_trans: "same_buffers m1 m2 \<Longrightarrow> same_buffers m2 m3 \<Longrightarrow> same_buffers m1 m3"
  by (auto simp: same_buffers_def list_all2_conv_all_nth same_span_def)

lemma rbrealloc_served:
  assumes ok: "mm_ok core mm" and flat: "flat_platform p" and adm: "buffers_adm mm b a"
    and x: "x \<in> buffers_live mm" "q \<in> extent x" "q \<noteq> 0" "{q..<q + old} \<subseteq> extent x"
  shows "\<exists>mm' mem' q'. rbrealloc_align p core (mm, mem) q flags cap b old a = Done ((mm', mem'), q') \<and>
    mm_ok core mm' \<and> same_buffers mm mm' \<and> (flags AND SOF_MEM_FLAG_NO_COPY \<noteq> 0 \<longrightarrow> mem' = mem) \<and>
    (q' = 0 \<and> buffers_live mm' = buffers_live mm \<and> mem' = mem \<or>
     q' \<noteq> 0 \<and> alloc_spec (buffers_live mm) b a (insert x (buffers_live mm')) q' \<and> x \<notin> buffers_live mm' \<and>
     (flags AND SOF_MEM_FLAG_NO_COPY = 0 \<longrightarrow> (\<forall>i<min b old. mem' (q' + i) = mem (q + i))) \<and>
     (\<forall>i. i \<notin> {q'..<q' + b} \<longrightarrow> mem' i = mem i))"
proof -
  have b: "b \<noteq> 0"
    using adm x(1) unfolding buffers_adm_def buffers_live_def buffer_adm_def by blast
  obtain mm1 q' where r: "balloc_unlocked p mm flags cap b a = Done (mm1, q')" "pool_step core mm b a mm1 q'"
    using balloc_unlocked_served [OF ok flat adm] by blast
  show ?thesis
  proof (cases "q' = 0")
    case True
    with r(2) have "mm1 = mm" by (simp add: pool_step_def)
    with True r(1) b x(3) ok show ?thesis by (simp add: rbrealloc_align_def same_buffers_def list.rel_refl)
  next
    case False
    with r(2) have al: "alloc_spec (buffers_live mm) b a (buffers_live mm1) q'" and ok1: "mm_ok core mm1" and sm1: "same_buffers mm mm1"
      by (auto simp: pool_step_def)
    have x1: "x \<in> buffers_live mm1" using al x(1) unfolding alloc_spec_def by blast
    obtain mm2 where f: "rfree p core mm1 q = Done mm2" "mm_ok core mm2" "buffers_live mm2 = buffers_live mm1 - {x}"
      "same_buffers mm1 mm2"
      using buffers_release [OF ok1 flat x1 x(2)] by blast
    have ins: "insert x (buffers_live mm2) = buffers_live mm1" "x \<notin> buffers_live mm2" using f(3) x1 by auto
    let ?mem = "if flags AND SOF_MEM_FLAG_NO_COPY = 0 then mem_copy mem q' q (min b old) else mem"
    have cp: "fst (memcpy_s mem q' (min b old) q (min b old)) = mem_copy mem q' q (min b old)"
    proof -
      obtain y where y: "{q'..<q' + b} \<subseteq> extent y" "\<forall>r\<in>buffers_live mm. extent r \<inter> extent y = {}"
        using al by (rule alloc_specE) blast
      with x(1,4) have "{q'..<q' + b} \<inter> {q..<q + old} = {}" by blast
      then have "memcpy_s mem q' (min b old) q (min b old) = (mem_copy mem q' q (min b old), 0)" if "0 < old"
        using that b False x(3) ivl_disjoint_nat [of q' b q old] by (intro memcpy_s_disjoint) auto
      then show ?thesis by (cases "old = 0") (auto simp: memcpy_s_none)
    qed
    have "rbrealloc_align p core (mm, mem) q flags cap b old a = Done ((debug_trace_ptr p q mm2, ?mem), q')"
      using r(1) f(1) False x(3) b cp by (simp add: rbrealloc_align_def rfree_def)
    moreover have "\<forall>i<min b old. mem_copy mem q' q (min b old) (q' + i) = mem (q + i)"
      by (simp add: mem_copy_def)
    moreover have "?mem i = mem i" if "i \<notin> {q'..<q' + b}" for i
      using that by (auto simp: mem_copy_def)
    moreover have "same_buffers mm (debug_trace_ptr p q mm2)"
      using same_buffers_trans [OF sm1 f(4)] by (simp add: same_buffers_def)
    ultimately show ?thesis using f(2) ins al False by auto
  qed
qed

end
