(* ===== verification/MmDemo.thy ===== *)
theory MmDemo
  imports MmApi
begin

text \<open>A concrete memory map, at which the properties of the allocator and its clients are instantiated.\<close>

definition demo_map :: "nat \<Rightarrow> nat \<Rightarrow> block_map" where
  "demo_map bs n = \<lparr>block_size = bs, count = n, free_count = n, first_free = 0,
     block = replicate n \<lparr>hdr_size = 0, hdr_used = 0, unaligned_ptr = 0\<rparr>, base = 0\<rparr>"

definition demo_heap :: mm_heap where
  "demo_heap = \<lparr>hmap = [demo_map 64 4, demo_map 256 2], heap = 4096, heap_size = 768, heap_caps = 3,
     info = \<lparr>info_used = 0, info_free = 768\<rparr>\<rparr>"

definition demo_platform :: platform where
  "demo_platform = \<lparr>PLATFORM_DCACHE_ALIGN = 64, CONFIG_CORE_COUNT = 1, cache_to_uncache = (\<lambda>a. a),
     uncache_to_cache = (\<lambda>a. a), is_uncached = (\<lambda>a. False), platform_rfree_prepare = (\<lambda>a. a),
     plat_trace = True\<rparr>"

definition demo_mm :: mm where
  "demo_mm = \<lparr>system = [\<lparr>hmap = [], heap = 1024, heap_size = 1024, heap_caps = 3,
       info = \<lparr>info_used = 0, info_free = 1024\<rparr>\<rparr>],
     system_runtime = [], system_shared = [], runtime_shared = [], runtime = [],
     buffer = [start_heap demo_heap], heap_trace_updated = 0\<rparr>"

lemma demo_static: "static_heap demo_heap"
  by (simp add: static_heap_def demo_heap_def static_map_def demo_map_def)

lemma demo_start: "heap_ok (start_heap demo_heap)" "live (start_heap demo_heap) = {}"
  by (rule start_heap_ok [OF demo_static])+

lemma demo_span [simp]: "heap (start_heap demo_heap) = 4096" "heap_size (start_heap demo_heap) = 768"
  by (simp_all add: start_heap_eq demo_heap_def)

lemma demo_flat: "flat_platform demo_platform"
  by (simp add: flat_platform_def demo_platform_def)

lemma demo_mm_ok: "mm_ok 0 demo_mm"
  by (simp add: mm_ok_def demo_mm_def demo_start heap_span_def)

definition demo_mm1 :: mm where
  "demo_mm1 = demo_mm\<lparr>buffer := [\<lparr>hmap = [(demo_map 64 4)\<lparr>base := 4096\<rparr>,
       (demo_map 256 2)\<lparr>base := 4352, free_count := 1, first_free := 1,
          block := [\<lparr>hdr_size = 1, hdr_used = 1, unaligned_ptr = 4352\<rparr>,
                    \<lparr>hdr_size = 0, hdr_used = 0, unaligned_ptr = 0\<rparr>]\<rparr>],
     heap = 4096, heap_size = 768, heap_caps = 3,
     info = \<lparr>info_used = 256, info_free = 512\<rparr>\<rparr>]\<rparr>"

lemma replicate_2: "replicate 2 x = [x, x]"
  by (simp add: numeral_2_eq_2)

lemma demo_alloc: "rballoc_align demo_platform demo_mm 0 1 100 32 = Done (demo_mm1, 4352)"
proof -
  have fit: "aligned_fit ((demo_map 256 2)\<lparr>base := 4352\<rparr>) 100 32 = Some 0"
    by (simp add: aligned_fit_def demo_map_def upt_rec ALIGN_UP_eq is_power_of_2_def u32_def)
  have maps: "start_heap demo_heap = \<lparr>hmap = [(demo_map 64 4)\<lparr>base := 4096\<rparr>, (demo_map 256 2)\<lparr>base := 4352\<rparr>],
      heap = 4096, heap_size = 768, heap_caps = 3, info = \<lparr>info_used = 0, info_free = 768\<rparr>\<rparr>"
    by (simp add: start_heap_eq demo_heap_def demo_map_def u32_def)
  have "alloc_heap_buffer (start_heap demo_heap) 100 32 = Done (buffer demo_mm1 ! 0, 4352)"
    unfolding maps
    by (simp add: alloc_heap_buffer_def upt_rec fit alloc_block_index_def align_ptr_def Let_def
        ALIGN_UP_eq is_power_of_2_def u32_def)
      (simp add: demo_map_def demo_mm1_def next_free_def upt_rec u16_sub_def heap_account_def u32_def u32_sub_def
        replicate_2)
  moreover have "demo_mm1 = demo_mm\<lparr>buffer := [buffer demo_mm1 ! 0]\<rparr>"
    by (simp add: demo_mm1_def)
  moreover have "heap_caps (start_heap demo_heap) = 3" by (simp add: maps)
  ultimately show ?thesis
    by (simp add: rballoc_align_def balloc_unlocked_def balloc_loop.simps get_heap_from_caps_def demo_mm_def
        demo_platform_def debug_trace_ptr_def)
qed

lemma demo_mm1_ok: "mm_ok 0 demo_mm1"
  using region_allocator.alloc_served [OF buffer_api [OF demo_flat] demo_mm_ok, of 100 32 0 1] demo_alloc
  by (auto simp: buffers_adm_def demo_mm_def buffer_adm_def align_fits_def is_power_of_2_def)

lemma demo_heap1_ok: "heap_ok (buffer demo_mm1 ! 0)"
  by (rule mm_okD(3) [OF demo_mm1_ok]) (simp add: demo_mm1_def)

lemma demo_mm1_live: "(4352, 256) \<in> buffers_live demo_mm1"
proof -
  let ?h = "buffer demo_mm1 ! 0"
  have "(0, 1) \<in> runs (hmap ?h ! 1)" by (simp add: runs_def demo_mm1_def demo_map_def)
  moreover have "region (hmap ?h ! 1) (0, 1) = (4352, 256)"
    by (simp add: region_def block_addr_def demo_mm1_def demo_map_def)
  ultimately have "(4352, 256) \<in> live ?h" by (force simp: live_def demo_mm1_def)
  then show ?thesis by (simp add: buffers_live_def demo_mm1_def)
qed

end
