(* ===== verification/MmClaims.thy ===== *)
theory MmClaims
  imports MmDemo
begin

text \<open>
  The properties of the heap allocator, \<^verbatim>\<open>src/lib/alloc.c\<close>.
\<close>

section \<open>Client programs\<close>



text \<open>
  (C16) A heap described by the platform's static tables is memory safe from start-up on: after
  \<^verbatim>\<open>init_heap_map\<close>, every sequence of \<^verbatim>\<open>get_ptr_from_heap\<close> and \<^verbatim>\<open>free_block\<close>
  calls with admissible sizes runs to its end, keeps the heap invariant, and the ranges held never overlap.
\<close>

theorem runtime_clients_disjoint:
  assumes "static_heap h" and "\<forall>x\<in>set xs. op_adm runtime_adm (start_heap h) x"
  shows "\<exists>h' H. client_run get_ptr_from_heap free_in_heap xs (start_heap h, []) = Done (h', H) \<and>
    heap_ok h' \<and>
    (\<forall>i<length H. \<forall>j<length H. i \<noteq> j \<longrightarrow>
       {fst (H ! i)..<fst (H ! i) + snd (H ! i)} \<inter> {fst (H ! j)..<fst (H ! j) + snd (H ! j)} = {})"
  by (rule runtime_pool.client_disjoint [OF assms(2) start_heap_ok(1) [OF assms(1)]])

theorem runtime_clients_disjoint_witness:
  "let xs = [OpAlloc 40 64, OpAlloc 64 0, OpFree 1, OpAlloc 200 16] in
   (\<exists>h' H. client_run get_ptr_from_heap free_in_heap xs (start_heap demo_heap, []) = Done (h', H) \<and>
    heap_ok h' \<and>
    (\<forall>i<length H. \<forall>j<length H. i \<noteq> j \<longrightarrow>
       {fst (H ! i)..<fst (H ! i) + snd (H ! i)} \<inter> {fst (H ! j)..<fst (H ! j) + snd (H ! j)} = {}))"
  unfolding Let_def
  by (rule runtime_clients_disjoint [OF demo_static])
    (simp add: runtime_adm_def align_fits_def is_power_of_2_def)

section \<open>The operations\<close>

text \<open>
  (C14) \<^verbatim>\<open>rbrealloc_align\<close> of a held buffer either fails and leaves the memory contents and the
  live regions as they were, or returns an aligned pointer to a region that no live region touched,
  holds a copy of the first \<open>min bytes old_bytes\<close> bytes (unless the caller asked for no
  copy), has written nothing outside the new buffer, and has released the old region and no other.
\<close>

theorem rbrealloc_align_correct:
  assumes "mm_ok core mm" and "flat_platform p" and "buffers_adm mm b a"
    and "x \<in> buffers_live mm" and "q \<in> extent x" and "q \<noteq> 0" and "{q..<q + old} \<subseteq> extent x"
  shows "\<exists>mm' mem' q'. rbrealloc_align p core (mm, mem) q flags cap b old a = Done ((mm', mem'), q') \<and>
    mm_ok core mm' \<and>
    (q' = 0 \<and> buffers_live mm' = buffers_live mm \<and> mem' = mem \<or>
     q' \<noteq> 0 \<and> alloc_spec (buffers_live mm) b a (insert x (buffers_live mm')) q' \<and> x \<notin> buffers_live mm' \<and>
     (flags AND SOF_MEM_FLAG_NO_COPY = 0 \<longrightarrow> (\<forall>i<min b old. mem' (q' + i) = mem (q + i))) \<and>
     (\<forall>i. i \<notin> {q'..<q' + b} \<longrightarrow> mem' i = mem i))"
  using rbrealloc_served [OF assms, of mem flags cap] by (elim exE conjE) (intro exI conjI, assumption+)

theorem rbrealloc_align_correct_witness:
  "\<exists>mm' mem' q'. rbrealloc_align demo_platform 0 (demo_mm1, (\<lambda>i. i mod 256)) 4352 0 1 200 100 32
      = Done ((mm', mem'), q') \<and> mm_ok 0 mm' \<and>
    (q' = 0 \<and> buffers_live mm' = buffers_live demo_mm1 \<and> mem' = (\<lambda>i. i mod 256) \<or>
     q' \<noteq> 0 \<and> alloc_spec (buffers_live demo_mm1) 200 32 (insert (4352, 256) (buffers_live mm')) q' \<and>
     (4352, 256) \<notin> buffers_live mm' \<and>
     ((0::nat) AND SOF_MEM_FLAG_NO_COPY = 0 \<longrightarrow> (\<forall>i<min 200 100. mem' (q' + i) = (4352 + i) mod 256)) \<and>
     (\<forall>i. i \<notin> {q'..<q' + 200} \<longrightarrow> mem' i = i mod 256))"
  by (rule rbrealloc_align_correct [OF demo_mm1_ok demo_flat _ demo_mm1_live])
    (auto simp: buffers_adm_def demo_mm1_def buffer_adm_def align_fits_def is_power_of_2_def extent_def)

text \<open>
  (C25) Freeing any address inside a live region, its first byte, an aligned pointer
  further in or a later block of a multi block buffer, releases that region and no other, keeps the
  heap invariant, and the statistics keep counting exactly the bytes of the live regions.
\<close>

theorem free_in_heap_exact:
  assumes "heap_ok h" and "x \<in> live h" and "q \<in> extent x"
  shows "\<exists>h'. free_in_heap h q = Done h' \<and> heap_ok h' \<and> live h' = live h - {x} \<and>
    info_used (info h) = info_used (info h') + snd x \<and> info_used (info h') = (\<Sum>r\<in>live h'. snd r)"
proof -
  obtain h' where h': "free_in_heap h q = Done h'" "heap_ok h'" "live h' = live h - {x}"
    using free_in_heap_spec [OF assms] by blast
  moreover have "finite (live h)" by (simp add: live_def)
  ultimately show ?thesis
    using info_used_live [OF assms(1)] info_used_live [OF h'(2)] assms(2) by (simp add: sum.remove)
qed

theorem free_in_heap_exact_witness:
  "\<exists>h'. free_in_heap (buffer demo_mm1 ! 0) 4400 = Done h' \<and> heap_ok h' \<and>
    live h' = live (buffer demo_mm1 ! 0) - {(4352, 256)} \<and>
    info_used (info (buffer demo_mm1 ! 0)) = info_used (info h') + 256 \<and>
    info_used (info h') = (\<Sum>r\<in>live h'. snd r)"
  using free_in_heap_exact [of "buffer demo_mm1 ! 0" "(4352, 256)" 4400] demo_mm1_ok demo_mm1_live
  by (simp add: mm_ok_def buffers_live_def demo_mm1_def demo_mm_def extent_def)

definition geom :: "block_map \<Rightarrow> nat \<times> nat \<times> nat" where
  "geom m = (block_size m, count m, base m)"

lemma geom_update [simp]:
  "geom (m\<lparr>block := b\<rparr>) = geom m" "geom (m\<lparr>free_count := c\<rparr>) = geom m" "geom (m\<lparr>first_free := f\<rparr>) = geom m"
  by (simp_all add: geom_def)

lemma map_update_same [simp]: "(map f xs)[k := f (xs ! k)] = map f xs"
  by (cases "k < length xs") (simp_all flip: map_update)

lemma free_in_heap_geoms: "free_in_heap h q = Done h' \<Longrightarrow> map geom (hmap h') = map geom (hmap h)"
  by (auto simp: free_in_heap_def Let_def map_update split: option.splits if_splits)

lemma free_in_heap_geom:
  assumes "free_in_heap h q = Done h'" and "i < length (hmap h)"
  shows "i < length (hmap h')" and "same_geom (hmap h ! i) (hmap h' ! i)"
proof -
  note e = free_in_heap_geoms [OF assms(1)]
  show l: "i < length (hmap h')" using arg_cong [OF e, of length] assms(2) by simp
  show "same_geom (hmap h ! i) (hmap h' ! i)"
    using arg_cong [OF e, of "\<lambda>xs. xs ! i"] assms(2) l by (simp add: geom_def same_geom_def)
qed

lemma run_block_in_extent:
  assumes "geom_ok m" and "k \<in> {fst s..<fst s + snd s}"
  shows "block_addr m k \<in> extent (region m s)"
proof -
  have "0 < block_size m" using assms(1) by (simp add: geom_ok_def)
  moreover obtain j where "k = fst s + j" "j < snd s" using assms(2) by (auto simp: le_iff_add)
  ultimately show ?thesis by (simp add: extent_def region_def block_addr_def algebra_simps)
qed

lemma free_free_block:
  assumes h: "heap_ok h" and i: "i < length (hmap h)" and k: "k \<in> free_set (hmap h ! i)"
  shows "free_in_heap h (block_addr (hmap h ! i) k) = Done h"
proof -
  define m where "m = hmap h ! i"
  have m: "map_ok m" unfolding m_def by (rule heap_okD(3) [OF h i])
  note g = map_okD(1) [OF m]
  have k': "k < count m" "\<not> used_at m k" using k by (auto simp: free_set_def m_def)
  note z = runs_ok_freeD [OF map_okD(2) [OF m] k']
  have bs: "0 < block_size m" using g by (simp add: geom_ok_def)
  have lt: "block_addr m k < map_end m" using k'(1) bs by (simp add: map_end_def block_addr_def)
  have find: "List.find (\<lambda>i. block_addr m k < u32 (base (hmap h ! i) + block_size (hmap h ! i) * count (hmap h ! i)))
           [0..<length (hmap h)] = Some i"
    using find_map_of_ptr [OF h i, of "block_addr m k"] lt by (simp add: m_def block_addr_def)
  have fc: "0 < free_count m" by (rule free_set_pos [OF m]) (use k in \<open>simp add: m_def\<close>)
  have ff: "first_free m \<le> k"
    using map_okD(3) [OF m] fc k' unfolding free_ok_def by (meson not_le)
  have blk: "u32_sub (block_addr m k) (base m) div block_size m = k"
    using block_addr_less [OF g, of k] k'(1) bs by (simp add: u32_sub_id block_addr_def)
  have up: "upd_range f k 0 (block m) = block m" for f
    by (rule nth_equalityI) (simp_all add: nth_upd_range)
  have addr: "u32 (base m + block_size m * k) = block_addr m k"
    using u32_block_addr [OF g, of k] k'(1) by simp
  have "free_count m < 2 ^ 16" using free_count_less [OF m] g by (simp add: geom_ok_def)
  then have same: "m\<lparr>block := block m, free_count := u16 (free_count m + 0), first_free := first_free m\<rparr> = m"
    by (simp add: u16_id)
  have "info_used (info h) < 2 ^ 32" "info_free (info h) < 2 ^ 32"
    using heap_okD(2) [OF h] layout_okD(1) [OF heap_okD(1) [OF h]] by (auto simp: account_ok_def)
  then have inf: "\<lparr>info_used = u32_sub (info_used (info h)) 0, info_free = u32 (info_free (info h) + 0)\<rparr> = info h"
    by (simp add: u32_sub_id u32_id)
  have "h\<lparr>hmap := (hmap h)[i := m], info := info h\<rparr> = h" by (simp add: m_def)
  then show ?thesis
    unfolding free_in_heap_def m_def [symmetric] find
    using z k'(1) map_okD(4) [OF m] blk addr fc ff up same inf by (simp add: Let_def flip: m_def)
qed

text \<open>
  (C29) Freeing a buffer twice by its block address is harmless: the second call finds a free
  block and leaves the heap exactly as it was.
\<close>

theorem double_free_harmless:
  assumes "heap_ok h" and "i < length (hmap h)" and "r \<in> runs (hmap h ! i)" and "q = fst (region (hmap h ! i) r)"
  shows "\<exists>h'. free_in_heap h q = Done h' \<and> free_in_heap h' q = Done h'"
proof -
  let ?x = "region (hmap h ! i) r"
  have x: "?x \<in> live h" "q \<in> extent ?x"
    using assms region_bounds(3) [OF heap_okD(3) [OF assms(1,2)] assms(3)] by (auto simp: live_def extent_def)
  obtain h' where h': "free_in_heap h q = Done h'" "heap_ok h'" "live h' = live h - {?x}"
    using free_in_heap_spec [OF assms(1) x] by blast
  have i': "i < length (hmap h')" and sg: "same_geom (hmap h ! i) (hmap h' ! i)"
    using free_in_heap_geom [OF h'(1)] assms(2) by auto
  have q: "q = block_addr (hmap h' ! i) (fst r)"
    using sg assms(4) by (simp add: region_def block_addr_def same_geom_def)
  have "fst r \<in> free_set (hmap h' ! i)"
  proof (rule ccontr)
    assume n: "fst r \<notin> free_set (hmap h' ! i)"
    have "fst r < count (hmap h' ! i)"
      using sg runsD(1) [OF heap_okD(3) [OF assms(1,2)] assms(3)] by (simp add: same_geom_def)
    with n have "fst r \<in> (\<Union>s\<in>runs (hmap h' ! i). {fst s..<fst s + snd s})"
      by (simp add: runs_cover [OF heap_okD(3) [OF h'(2) i']])
    then obtain s where s: "s \<in> runs (hmap h' ! i)" "fst r \<in> {fst s..<fst s + snd s}" by blast
    have "q \<in> extent (region (hmap h' ! i) s)"
      unfolding q by (rule run_block_in_extent [OF map_okD(1) [OF heap_okD(3) [OF h'(2) i']] s(2)])
    moreover have "region (hmap h' ! i) s \<in> live h'" using s(1) i' unfolding live_def by blast
    ultimately show False
      using h'(3) live_separated [OF assms(1)] x unfolding separated_def by blast
  qed
  from free_free_block [OF h'(2) i' this] h'(1) q show ?thesis by auto
qed

theorem double_free_harmless_witness:
  "\<exists>h'. free_in_heap (buffer demo_mm1 ! 0) 4352 = Done h' \<and> free_in_heap h' 4352 = Done h'"
proof -
  have "(0, 1) \<in> runs (hmap (buffer demo_mm1 ! 0) ! 1)" by (simp add: runs_def demo_mm1_def demo_map_def)
  moreover have "1 < length (hmap (buffer demo_mm1 ! 0))"
    "4352 = fst (region (hmap (buffer demo_mm1 ! 0) ! 1) (0, 1))"
    by (simp_all add: demo_mm1_def region_def block_addr_def demo_map_def)
  ultimately show ?thesis using double_free_harmless [OF demo_heap1_ok] by blast
qed



lemma round_up_mod:
  fixes u d :: nat
  assumes "0 < d"
  shows "(u + (d - 1)) div d * d = u + (if u mod d \<noteq> 0 then d - u mod d else 0)"
proof -
  obtain e where d: "d = Suc e" using assms by (cases d) auto
  let ?q = "u div d" and ?r = "u mod d"
  have u: "u = ?r + ?q * d" by simp
  have r: "?r < d" using assms by simp
  have "u + (d - 1) = (?r + e) + ?q * d" using u d by linarith
  then have "(u + (d - 1)) div d = ?q + (?r + e) div d"
    using assms div_mult_self1 [of d "?r + e" ?q] by (simp only:)
  moreover have "(?r + e) div d = (if ?r \<noteq> 0 then 1 else 0)"
  proof (cases "?r = 0")
    case False
    have "(k + e) div Suc e = 1" if "0 < k" "k < Suc e" for k
      using that by (intro div_nat_eqI) auto
    from this [of ?r] False r show ?thesis by (simp add: d)
  qed (simp add: d)
  ultimately have "(u + (d - 1)) div d * d = ?q * d + (if ?r \<noteq> 0 then d else 0)"
    by (simp add: add_mult_distrib)
  then show ?thesis using u r by (simp only: split: if_split) linarith
qed


end
