(* ===== verification/Numbers.thy ===== *)
theory Numbers
  imports Prelude "HOL-Library.While_Combinator"
begin

text \<open>
  \<^verbatim>\<open>src/math/numbers.c\<close>: the binary greatest common divisor, searches in vectors,
  normalisation and CRC-32. C \<^verbatim>\<open>int\<close> values are integers; \<^verbatim>\<open>>> 1\<close> on them is
  \<open>div 2\<close>. Loops whose end depends on the input are \<open>while_option\<close>, so that not
  returning would be \<open>None\<close>.
\<close>

section \<open>Greatest common divisor\<close>

definition gcd_twos :: "int \<Rightarrow> int \<Rightarrow> (nat \<times> int \<times> int) option" where
  "gcd_twos a b = while_option (\<lambda>(k, a, b). (a OR b) AND 1 = 0) (\<lambda>(k, a, b). (k + 1, a div 2, b div 2)) (0, a, b)"

definition gcd_odd :: "int \<Rightarrow> int option" where
  "gcd_odd a = while_option (\<lambda>a. a AND 1 = 0) (\<lambda>a. a div 2) a"

text \<open>The body of the \<^verbatim>\<open>do\<close> loop; \<open>None\<close> inside it stays \<open>None\<close>.\<close>

definition gcd_round :: "int \<times> int \<Rightarrow> (int \<times> int) option" where
  "gcd_round s = (case s of (a, b) \<Rightarrow>
     (case gcd_odd b of None \<Rightarrow> None
      | Some b' \<Rightarrow> Some (if b' < a then (b', a - b') else (a, b' - a))))"

definition gcd_loop :: "int \<Rightarrow> int \<Rightarrow> int option" where
  "gcd_loop a b =
     (case while_option (\<lambda>s. case s of None \<Rightarrow> False | Some (a, b) \<Rightarrow> b \<noteq> 0)
             (\<lambda>s. Option.bind s gcd_round) (gcd_round (a, b)) of
        Some (Some (a', b')) \<Rightarrow> Some a'
      | _ \<Rightarrow> None)"

definition gcd_int :: "int \<Rightarrow> int \<Rightarrow> int option" where
  "gcd_int a b =
     (if a = 0 then Some b
      else if b = 0 then Some a
      else
        let a = (if a < 0 then - a else a);
            b = (if b < 0 then - b else b)
        in case gcd_twos a b of
             None \<Rightarrow> None
           | Some (k, a, b) \<Rightarrow>
               (case gcd_odd a of
                  None \<Rightarrow> None
                | Some a \<Rightarrow> (case gcd_loop a b of None \<Rightarrow> None | Some g \<Rightarrow> Some (g * 2 ^ k))))"

section \<open>Vectors\<close>

text \<open>\<open>find_equal_int16\<close> returns the indexes it stores in \<^verbatim>\<open>idx\<close>; their number is the C result.\<close>

fun find_equal_loop :: "int list \<Rightarrow> int \<Rightarrow> int \<Rightarrow> nat \<Rightarrow> nat list \<Rightarrow> nat list" where
  "find_equal_loop [] n max_results i idx = idx"
| "find_equal_loop (v # vs) n max_results i idx =
     (if v = n
      then let idx' = idx @ [i]
           in if int (length idx') = max_results then idx'
              else find_equal_loop vs n max_results (i + 1) idx'
      else find_equal_loop vs n max_results (i + 1) idx)"

definition find_equal_int16 :: "int list \<Rightarrow> int \<Rightarrow> int \<Rightarrow> nat list" where
  "find_equal_int16 vec n max_results = find_equal_loop vec n max_results 0 []"

definition find_min_int16 :: "int list \<Rightarrow> int" where
  "find_min_int16 vec = foldl (\<lambda>m v. if v < m then v else m) (hd vec) (tl vec)"

text \<open>The negations are on \<^verbatim>\<open>int\<close>: the one of the smallest value wraps.\<close>

definition find_max_abs_int32 :: "int list \<Rightarrow> int" where
  "find_max_abs_int32 vec =
     (let amax = foldl (\<lambda>m v. let m1 = (if v > m then v else m) in if s32 (- v) > m1 then s32 (- v) else m1)
                   (if hd vec > 0 then hd vec else s32 (- hd vec)) (tl vec)
      in if amax > 2 ^ 31 - 1 then 2 ^ 31 - 1 else amax)"

section \<open>Normalisation\<close>

function norm_shifts :: "int \<Rightarrow> nat" where
  "norm_shifts val = (if val \<noteq> - 1 \<and> val \<noteq> 0 then Suc (norm_shifts (val div 2)) else 0)"
  by pat_completeness auto
termination
  by (relation "measure (\<lambda>v. nat \<bar>v\<bar>)") auto

declare norm_shifts.simps [simp del]

definition norm_int32 :: "int \<Rightarrow> int" where
  "norm_int32 val = 31 - int (norm_shifts val)"

section \<open>CRC-32\<close>

definition crc_shift :: "32 word \<Rightarrow> 32 word" where
  "crc_shift cur = (if cur AND 1 \<noteq> 0 then drop_bit 1 cur XOR 0xEDB88320 else drop_bit 1 cur)"

definition crc_byte :: "32 word \<Rightarrow> 8 word \<Rightarrow> 32 word" where
  "crc_byte crc d = (crc_shift ^^ 8) ((crc XOR ucast d) AND 0xFF) XOR drop_bit 8 crc"

definition crc32 :: "32 word \<Rightarrow> 8 word list \<Rightarrow> 32 word" where
  "crc32 bas data = NOT (foldl crc_byte (NOT bas) data)"

section \<open>The divisor is the greatest one\<close>

lemma and_one_even: "(a::int) AND 1 = 0 \<longleftrightarrow> even a"
  by (simp add: and_one_eq even_iff_mod_2_eq_zero)

lemma or_and_one_even: "((a::int) OR b) AND 1 = 0 \<longleftrightarrow> even a \<and> even b"
  by (simp add: and_one_even even_or_iff)

lemma gcd_odd_Some:
  assumes "0 < a"
  shows "\<exists>a'. gcd_odd a = Some a' \<and> odd a' \<and> 0 < a' \<and> a' \<le> a \<and> (odd b \<longrightarrow> gcd a' b = gcd a b)"
proof -
  let ?P = "\<lambda>x. 0 < x \<and> x \<le> a \<and> (odd b \<longrightarrow> gcd x b = gcd a b)"
  have step: "?P (x div 2) \<and> nat (x div 2) < nat x" if "?P x" "x AND 1 = 0" for x
  proof -
    from that(2) obtain y where y: "x = 2 * y" by (auto simp: and_one_even elim: evenE)
    with that(1) have "0 < y" by simp
    moreover have "gcd y b = gcd (2 * y) b" if "odd b"
      using that by (simp add: gcd_mult_left_left_cancel)
    ultimately show ?thesis using that(1) y by auto
  qed
  have "?P a" using assms by simp
  then obtain a' where a': "while_option (\<lambda>a. a AND 1 = 0) (\<lambda>a. a div 2) a = Some a'"
    using measure_while_option_Some [of ?P "\<lambda>a. a AND 1 = 0" "\<lambda>a. a div 2" nat a] step by blast
  have "?P a'"
    by (rule while_option_rule [OF _ a', of ?P]) (use step \<open>?P a\<close> in auto)
  moreover have "odd a'" using while_option_stop [OF a'] by (simp add: and_one_even)
  ultimately show ?thesis using a' by (auto simp: gcd_odd_def)
qed

lemma gcd_twos_Some:
  assumes "0 < a" and "0 < b"
  shows "\<exists>k a' b'. gcd_twos a b = Some (k, a', b') \<and> 0 < a' \<and> 0 < b' \<and> \<not> (even a' \<and> even b') \<and>
    gcd a b = gcd a' b' * 2 ^ k"
proof -
  let ?c = "\<lambda>(k::nat, a::int, b::int). (a OR b) AND 1 = 0"
  let ?f = "\<lambda>(k::nat, a::int, b::int). (k + 1, a div 2, b div 2)"
  let ?P = "\<lambda>(k, x, y). 0 < x \<and> 0 < y \<and> gcd a b = gcd x y * 2 ^ k"
  have step: "?P (?f s) \<and> nat (fst (snd (?f s))) < nat (fst (snd s))" if "?P s" "?c s" for s
  proof -
    obtain k x y where s: "s = (k, x, y)" by (cases s)
    with that(2) obtain u v where uv: "x = 2 * u" "y = 2 * v" by (auto simp: or_and_one_even elim!: evenE)
    have "gcd (2 * u) (2 * v) = 2 * gcd u v" using gcd_mult_distrib_int [of 2 u v] by simp
    with that(1) s uv show ?thesis by auto
  qed
  have P0: "?P (0, a, b)" using assms by simp
  obtain t where t: "while_option ?c ?f (0, a, b) = Some t"
    using measure_while_option_Some [of ?P ?c ?f "\<lambda>s. nat (fst (snd s))" "(0, a, b)"] step P0 by blast
  have "?P t" by (rule while_option_rule [OF _ t, of ?P]) (use step P0 in auto)
  moreover have "\<not> ?c t" by (rule while_option_stop [OF t])
  ultimately show ?thesis using t by (cases t) (auto simp: gcd_twos_def or_and_one_even)
qed

lemma gcd_round_Some:
  assumes "0 < a" and "odd a" and "0 < b"
  shows "\<exists>a' b'. gcd_round (a, b) = Some (a', b') \<and> 0 < a' \<and> odd a' \<and> 0 \<le> b' \<and> a' + b' \<le> max a b \<and>
    a' + b' < a + b \<and> gcd a' b' = gcd a b"
proof -
  obtain c where c: "gcd_odd b = Some c" "odd c" "0 < c" "c \<le> b" "gcd c a = gcd b a"
    using gcd_odd_Some [OF assms(3), of a] assms(2) by blast
  have "gcd c (a - c) = gcd b a" "gcd a (c - a) = gcd a b"
    using c(5) gcd_diff1 [of a c] gcd_diff1 [of c a] by (metis gcd.commute)+
  with c assms show ?thesis by (auto simp: gcd_round_def gcd.commute)
qed

lemma gcd_loop_Some:
  assumes "0 < a" and "odd a" and "0 < b"
  shows "gcd_loop a b = Some (gcd a b)"
proof -
  let ?c = "\<lambda>s::(int \<times> int) option. case s of None \<Rightarrow> False | Some (a, b) \<Rightarrow> b \<noteq> 0"
  let ?f = "\<lambda>s. Option.bind s gcd_round"
  let ?P = "\<lambda>s. \<exists>x y. s = Some (x, y) \<and> 0 < x \<and> odd x \<and> 0 \<le> y \<and> gcd x y = gcd a b"
  let ?m = "\<lambda>s. case s of None \<Rightarrow> 0 | Some (x, y) \<Rightarrow> nat (x + y)"
  have step: "?P (?f s) \<and> ?m (?f s) < ?m s" if "?P s" "?c s" for s
  proof -
    note Ps = that(1) and cs = that(2)
    obtain x y where s: "s = Some (x, y)" "0 < x" "odd x" "0 \<le> y" "gcd x y = gcd a b" using Ps by blast
    with cs have "0 < y" by simp
    from gcd_round_Some [OF s(2,3) this] s show ?thesis by auto
  qed
  have P0: "?P (gcd_round (a, b))" using gcd_round_Some [OF assms] by auto
  obtain t where t: "while_option ?c ?f (gcd_round (a, b)) = Some t"
    using measure_while_option_Some [of ?P ?c ?f ?m "gcd_round (a, b)"] step P0 by blast
  have "?P t" by (rule while_option_rule [OF _ t, of ?P]) (use step P0 in auto)
  moreover have "\<not> ?c t" by (rule while_option_stop [OF t])
  ultimately show ?thesis using t by (auto simp: gcd_loop_def)
qed

lemma gcd_int_pos:
  assumes "a \<noteq> 0" and "b \<noteq> 0"
  shows "gcd_int a b = Some (gcd a b)"
proof -
  have pos: "0 < \<bar>a\<bar>" "0 < \<bar>b\<bar>" using assms by auto
  obtain k x y where t: "gcd_twos \<bar>a\<bar> \<bar>b\<bar> = Some (k, x, y)" "0 < x" "0 < y" "\<not> (even x \<and> even y)"
    "gcd \<bar>a\<bar> \<bar>b\<bar> = gcd x y * 2 ^ k" using gcd_twos_Some [OF pos] by blast
  obtain x' where x': "gcd_odd x = Some x'" "odd x'" "0 < x'" "odd y \<longrightarrow> gcd x' y = gcd x y"
    using gcd_odd_Some [OF t(2), of y] by blast
  have "odd x \<Longrightarrow> gcd_odd x = Some x"
    by (simp add: gcd_odd_def while_option_unfold and_one_even)
  with x' t(4) have "gcd x' y = gcd x y" by (cases "odd x") auto
  moreover have "gcd_loop x' y = Some (gcd x' y)" by (rule gcd_loop_Some [OF x'(3,2) t(3)])
  moreover have "gcd_int a b = (case gcd_twos \<bar>a\<bar> \<bar>b\<bar> of None \<Rightarrow> None | Some (k, a, b) \<Rightarrow>
      (case gcd_odd a of None \<Rightarrow> None | Some a \<Rightarrow>
         (case gcd_loop a b of None \<Rightarrow> None | Some g \<Rightarrow> Some (g * 2 ^ k))))"
    using assms by (simp add: gcd_int_def Let_def abs_if)
  ultimately show ?thesis using t(1,5) x'(1) by simp
qed

section \<open>Vectors, normalisation\<close>

lemma find_equal_loop_eq:
  assumes "max_results \<le> 0 \<or> int (length idx) < max_results"
  shows "find_equal_loop vs n max_results i idx =
    (let r = idx @ map (\<lambda>j. j + i) (filter (\<lambda>j. vs ! j = n) [0..<length vs])
     in if max_results \<le> 0 then r else take (nat max_results) r)"
  using assms
proof (induction vs n max_results i idx rule: find_equal_loop.induct)
  case (1 n max_results i idx)
  then show ?case by auto
next
  case (2 v vs n m i idx)
  have up: "[0..<length (v # vs)] = 0 # map Suc [0..<length vs]" by (simp add: upt_conv_Cons map_Suc_upt del: upt_Suc)
  have fl: "map (\<lambda>j. j + i) (filter (\<lambda>j. (v # vs) ! j = n) [0..<length (v # vs)]) =
      (if v = n then [i] else []) @ map (\<lambda>j. Suc (j + i)) (filter (\<lambda>j. vs ! j = n) [0..<length vs])"
    unfolding up by (simp add: filter_map comp_def)
  show ?case
  proof (cases "v = n")
    case False
    with 2(2) [OF False] 2(3) show ?thesis unfolding fl by (simp add: Let_def)
  next
    case True
    show ?thesis
    proof (cases "int (length (idx @ [i])) = m")
      case t: True
      then have "nat m = length (idx @ [i])" by simp
      with True t show ?thesis unfolding fl by (simp add: Let_def)
    next
      case f: False
      with 2(3) have "m \<le> 0 \<or> int (length (idx @ [i])) < m" by auto
      from 2(1) [OF True refl f this] True f show ?thesis unfolding fl by (simp add: Let_def)
    qed
  qed
qed

lemma foldl_min: "foldl (\<lambda>m v. if v < m then v else m) a xs = Min (insert a (set xs))" for a :: int
proof (induction xs arbitrary: a)
  case (Cons x xs)
  have "Min (insert a (insert x (set xs))) = Min (insert (if x < a then x else a) (set xs))"
    by (cases "xs = []") (auto simp: min_def)
  with Cons show ?case by simp
qed simp

lemma norm_shifts_bounds:
  "- (2 ^ norm_shifts v) \<le> v \<and> v < 2 ^ norm_shifts v \<and>
   (v \<noteq> 0 \<longrightarrow> v \<noteq> - 1 \<longrightarrow> v < - (2 ^ (norm_shifts v - 1)) \<or> 2 ^ (norm_shifts v - 1) \<le> v)"
proof (induction v rule: norm_shifts.induct)
  case (1 v)
  show ?case
  proof (cases "v \<noteq> - 1 \<and> v \<noteq> 0")
    case False
    then show ?thesis by (auto simp: norm_shifts.simps [of v])
  next
    case True
    note ih = 1 [OF True]
    define w n where "w = v div 2" and "n = norm_shifts (v div 2)"
    have e: "norm_shifts v = Suc n" using True by (simp add: norm_shifts.simps [of v] n_def)
    have w: "2 * w \<le> v" "v \<le> 2 * w + 1" by (simp_all add: w_def)
    have b: "- (2 ^ n) \<le> w" "w < 2 ^ n" using ih by (simp_all add: w_def n_def)
    then have "- (2 ^ Suc n) \<le> v \<and> v < 2 ^ Suc n" using w by simp
    moreover have "v < - (2 ^ n) \<or> 2 ^ n \<le> v"
    proof (cases "w \<noteq> 0 \<and> w \<noteq> - 1")
      case True
      then have "n \<noteq> 0" by (simp add: norm_shifts.simps [of w] n_def flip: w_def)
      then obtain k where k: "n = Suc k" by (cases n) auto
      have "w < - (2 ^ (n - 1)) \<or> 2 ^ (n - 1) \<le> w" using ih True by (simp add: w_def n_def)
      with w show ?thesis by (auto simp: k)
    next
      case False
      then have "n = 0" by (auto simp: norm_shifts.simps [of w] n_def simp flip: w_def)
      with True False w show ?thesis by auto
    qed
    ultimately show ?thesis by (simp add: e)
  qed
qed
section \<open>CRC-32 against the bitwise definition\<close>

text \<open>The textbook form: the byte enters the whole register, which is then shifted eight times.\<close>

definition crc_byte_ref :: "32 word \<Rightarrow> 8 word \<Rightarrow> 32 word" where
  "crc_byte_ref crc d = (crc_shift ^^ 8) (crc XOR ucast d)"

lemma and_one_iff: "x AND 1 \<noteq> 0 \<longleftrightarrow> bit x 0" for x :: "32 word"
  by (metis and_one_eq bit_0 even_iff_mod_2_eq_zero)

lemma crc_shift_xor: "crc_shift (x XOR y) = crc_shift x XOR crc_shift y"
  by (cases "bit x 0"; cases "bit y 0")
    (auto simp: crc_shift_def and_one_iff bit_xor_iff drop_bit_xor xor.assoc xor.left_commute xor.commute)

lemma crc_shifts_xor: "(crc_shift ^^ n) (x XOR y) = (crc_shift ^^ n) x XOR (crc_shift ^^ n) y"
  by (induction n) (simp_all add: crc_shift_xor)

lemma crc_shift_push:
  assumes "n < 8"
  shows "crc_shift (push_bit (Suc n) (drop_bit 8 x)) = push_bit n (drop_bit 8 x)"
proof -
  have "\<not> bit (push_bit (Suc n) (drop_bit 8 x)) 0" by (simp add: bit_push_bit_iff del: push_bit_Suc)
  moreover have "drop_bit 1 (push_bit (Suc n) (drop_bit 8 x)) = push_bit n (drop_bit 8 x)"
    by (rule bit_word_eqI) (use assms in \<open>auto simp: bit_simps simp del: push_bit_Suc dest: bit_imp_le_length\<close>)
  ultimately show ?thesis by (simp add: crc_shift_def and_one_iff)
qed

lemma crc_shifts_push: "n \<le> 8 \<Longrightarrow> (crc_shift ^^ n) (push_bit n (drop_bit 8 x)) = drop_bit 8 x"
proof (induction n)
  case (Suc n)
  have "(crc_shift ^^ Suc n) (push_bit (Suc n) (drop_bit 8 x)) =
      (crc_shift ^^ n) (crc_shift (push_bit (Suc n) (drop_bit 8 x)))" by (simp add: funpow_swap1)
  with Suc show ?case by (simp only: crc_shift_push [of n x])
qed simp

lemma crc_byte_eq_ref: "crc_byte crc d = crc_byte_ref crc d"
proof -
  have m: "(0xFF :: 32 word) = mask 8" by (simp add: mask_eq_exp_minus_1)
  have split: "crc XOR ucast d = ((crc XOR ucast d) AND 0xFF) XOR push_bit 8 (drop_bit 8 crc)"
    unfolding m by (rule bit_word_eqI) (auto simp: bit_simps dest: bit_imp_le_length)
  show ?thesis
    unfolding crc_byte_def crc_byte_ref_def
    by (subst (2) split) (simp only: crc_shifts_xor crc_shifts_push [OF order.refl])
qed

lemma crc_bytes_append: "crc32 bas (xs @ ys) = crc32 (crc32 bas xs) ys"
  by (simp add: crc32_def)

section \<open>Properties\<close>

text \<open>
  (C21) The binary greatest common divisor always returns (the smallest \<^verbatim>\<open>int\<close>, whose negation
  C leaves undefined, apart): with two non-zero arguments it returns
  their greatest common divisor, with a zero argument the other one, as its comment says.
\<close>

theorem gcd_int_correct:
  "gcd_int a b = Some (if a = 0 then b else if b = 0 then a else gcd a b)"
  by (simp add: gcd_int_pos) (simp add: gcd_int_def)


text \<open>
  (C34) \<^verbatim>\<open>norm_int32\<close> is the largest left shift that does not overflow: shifting by it keeps a
  32-bit value in range and one more shift would not, except for 0 and -1, which get 31.
\<close>

theorem norm_int32_correct:
  assumes "- (2 ^ 31) \<le> v" and "v < 2 ^ 31"
  shows "0 \<le> norm_int32 v \<and> - (2 ^ 31) \<le> v * 2 ^ nat (norm_int32 v) \<and> v * 2 ^ nat (norm_int32 v) < 2 ^ 31 \<and>
    (v \<noteq> 0 \<longrightarrow> v \<noteq> - 1 \<longrightarrow> v * 2 ^ Suc (nat (norm_int32 v)) < - (2 ^ 31) \<or> 2 ^ 31 \<le> v * 2 ^ Suc (nat (norm_int32 v)))"
proof -
  define n where "n = norm_shifts v"
  note b = norm_shifts_bounds [of v, folded n_def]
  have n: "n \<le> 31"
  proof (rule ccontr)
    assume "\<not> n \<le> 31"
    then have "(2::int) ^ 31 \<le> 2 ^ (n - 1)" by (intro power_increasing) auto
    moreover have "v \<noteq> 0 \<and> v \<noteq> - 1"
      using \<open>\<not> n \<le> 31\<close> by (auto simp: n_def norm_shifts.simps [of v] split: if_splits)
    ultimately show False using b assms by linarith
  qed
  then obtain k where k: "n + k = 31" by (metis le_add_diff_inverse)
  then have nk: "nat (norm_int32 v) = k" "0 \<le> norm_int32 v" by (auto simp: norm_int32_def n_def)
  have p: "(2::int) ^ 31 = 2 ^ n * 2 ^ k" by (simp add: k flip: power_add)
  have "- (2 ^ n) * 2 ^ k \<le> v * 2 ^ k" by (rule mult_right_mono) (use b in auto)
  moreover have "v * 2 ^ k < 2 ^ n * 2 ^ k" by (rule mult_strict_right_mono) (use b in auto)
  moreover have "v * 2 ^ Suc k < - (2 ^ 31) \<or> 2 ^ 31 \<le> v * 2 ^ Suc k" if "v \<noteq> 0" "v \<noteq> - 1"
  proof -
    have "n \<noteq> 0" using that by (simp add: n_def norm_shifts.simps [of v])
    then obtain m where m: "n = Suc m" by (cases n) auto
    have q: "(2::int) ^ 31 = 2 ^ m * 2 ^ Suc k" using p m by simp
    from b that m have "v < - (2 ^ m) \<or> 2 ^ m \<le> v" by simp
    then show ?thesis
    proof
      assume "v < - (2 ^ m)"
      then have "v * 2 ^ Suc k < - (2 ^ m) * 2 ^ Suc k" by (intro mult_strict_right_mono) auto
      then show ?thesis unfolding q by (simp only: mult_minus_left simp_thms)
    next
      assume "2 ^ m \<le> v"
      then have "2 ^ m * 2 ^ Suc k \<le> v * 2 ^ Suc k" by (intro mult_right_mono) auto
      then show ?thesis unfolding q by (simp only: simp_thms)
    qed
  qed
  ultimately show ?thesis unfolding nk p using nk(2) unfolding mult_minus_left by blast
qed

theorem norm_int32_correct_witness:
  "let v = - 5 :: int in 0 \<le> norm_int32 v \<and> - (2 ^ 31) \<le> v * 2 ^ nat (norm_int32 v) \<and>
    v * 2 ^ nat (norm_int32 v) < 2 ^ 31 \<and>
    (v \<noteq> 0 \<longrightarrow> v \<noteq> - 1 \<longrightarrow> v * 2 ^ Suc (nat (norm_int32 v)) < - (2 ^ 31) \<or> 2 ^ 31 \<le> v * 2 ^ Suc (nat (norm_int32 v)))"
  unfolding Let_def
  by (rule norm_int32_correct) simp_all



end
