(* ===== verification/AudioStream.thy ===== *)
theory AudioStream
  imports Numbers
begin

text \<open>
  The circular audio buffer, \<^verbatim>\<open>src/include/sof/audio/audio_stream.h\<close> and
  \<^verbatim>\<open>src/audio/audio_stream.c\<close>, with the copy routines of \<^verbatim>\<open>src/audio/component.c\<close>
  (generic versions). Pointers are 32-bit addresses; a failed \<^verbatim>\<open>assert\<close> is \<open>Panic\<close>.
  Cache maintenance (\<^verbatim>\<open>audio_stream_invalidate\<close>, \<^verbatim>\<open>audio_stream_writeback\<close>) is modelled
  by the regions it names.
\<close>

section \<open>Sample formats\<close>

datatype sof_ipc_frame =
    SOF_IPC_FRAME_S16_LE
  | SOF_IPC_FRAME_S24_4LE
  | SOF_IPC_FRAME_S32_LE
  | SOF_IPC_FRAME_FLOAT
  | SOF_IPC_FRAME_S24_3LE
  | SOF_IPC_FRAME_S24_4LE_MSB
  | SOF_IPC_FRAME_U8

fun get_sample_bytes :: "sof_ipc_frame \<Rightarrow> nat" where
  "get_sample_bytes SOF_IPC_FRAME_S16_LE = 2"
| "get_sample_bytes SOF_IPC_FRAME_S24_3LE = 3"
| "get_sample_bytes SOF_IPC_FRAME_U8 = 1"
| "get_sample_bytes _ = 4"

fun get_sample_bitdepth :: "sof_ipc_frame \<Rightarrow> nat" where
  "get_sample_bitdepth SOF_IPC_FRAME_S16_LE = 16"
| "get_sample_bitdepth SOF_IPC_FRAME_S24_4LE = 24"
| "get_sample_bitdepth SOF_IPC_FRAME_S24_3LE = 24"
| "get_sample_bitdepth SOF_IPC_FRAME_U8 = 8"
| "get_sample_bitdepth _ = 32"

definition get_frame_bytes :: "sof_ipc_frame \<Rightarrow> nat \<Rightarrow> nat" where
  "get_frame_bytes fmt chs = u32 (get_sample_bytes fmt * chs)"

section \<open>State\<close>

record sof_audio_stream_params =
  sp_id :: nat
  sp_pipeline_id :: nat
  frame_fmt :: sof_ipc_frame
  valid_sample_fmt :: sof_ipc_frame
  rate :: nat
  channels :: nat
  align_frame_cnt :: nat
  align_shift_idx :: nat
  overrun_permitted :: bool
  underrun_permitted :: bool
  buffer_fmt :: nat

record audio_stream =
  st_size :: nat
  st_avail :: nat
  st_free :: nat
  w_ptr :: nat
  r_ptr :: nat
  addr :: nat
  end_addr :: nat
  byte_align_req :: nat
  frame_align_req :: nat
  runtime_stream_params :: sof_audio_stream_params

definition audio_stream_frame_bytes :: "audio_stream \<Rightarrow> nat" where
  "audio_stream_frame_bytes b =
     get_frame_bytes (frame_fmt (runtime_stream_params b)) (channels (runtime_stream_params b))"

definition audio_stream_sample_bytes :: "audio_stream \<Rightarrow> nat" where
  "audio_stream_sample_bytes b = get_sample_bytes (frame_fmt (runtime_stream_params b))"

section \<open>Processing alignment\<close>

text \<open>The number of significant bits; \<^verbatim>\<open>clz\<close> of 0 (undefined in C) is 32.\<close>

fun nbits :: "nat \<Rightarrow> nat" where
  "nbits n = (if n = 0 then 0 else Suc (nbits (n div 2)))"

declare nbits.simps [simp del]

definition clz :: "nat \<Rightarrow> nat" where
  "clz x = 32 - nbits x"

definition gcd_u32 :: "nat \<Rightarrow> nat \<Rightarrow> nat" where
  "gcd_u32 a b = nat (the (gcd_int (s32 (int a)) (s32 (int b))))"

definition audio_stream_frame_align_get :: "nat \<Rightarrow> nat \<Rightarrow> nat \<Rightarrow> nat" where
  "audio_stream_frame_align_get byte_align frame_align frame_size =
     (let frame_num = byte_align div gcd_u32 byte_align frame_size
      in u32 (frame_align * frame_num) div gcd_u32 frame_num frame_align)"

definition audio_stream_recalc_align :: "audio_stream \<Rightarrow> audio_stream" where
  "audio_stream_recalc_align b =
     (let frame_size = audio_stream_frame_bytes b;
          cnt = u16 (audio_stream_frame_align_get (byte_align_req b) (frame_align_req b) frame_size);
          process_size = u32 (cnt * frame_size);
          idx = u16 ((if is_power_of_2 process_size then 31 else 32) - clz process_size)
      in b\<lparr>runtime_stream_params :=
             (runtime_stream_params b)\<lparr>align_frame_cnt := cnt, align_shift_idx := idx\<rparr>\<rparr>)"

definition audio_stream_set_align :: "nat \<Rightarrow> nat \<Rightarrow> audio_stream \<Rightarrow> audio_stream" where
  "audio_stream_set_align byte_align frame_align b =
     audio_stream_recalc_align (b\<lparr>byte_align_req := byte_align mod 2 ^ 8, frame_align_req := frame_align mod 2 ^ 8\<rparr>)"

section \<open>Setters\<close>

definition audio_stream_set_rptr :: "audio_stream \<Rightarrow> nat \<Rightarrow> audio_stream" where
  "audio_stream_set_rptr b v = b\<lparr>r_ptr := v\<rparr>"

definition audio_stream_set_wptr :: "audio_stream \<Rightarrow> nat \<Rightarrow> audio_stream" where
  "audio_stream_set_wptr b v = b\<lparr>w_ptr := v\<rparr>"

definition audio_stream_set_end_addr :: "audio_stream \<Rightarrow> nat \<Rightarrow> audio_stream" where
  "audio_stream_set_end_addr b v = b\<lparr>end_addr := v\<rparr>"

definition audio_stream_set_addr :: "audio_stream \<Rightarrow> nat \<Rightarrow> audio_stream" where
  "audio_stream_set_addr b v = b\<lparr>addr := v\<rparr>"

definition audio_stream_set_size :: "audio_stream \<Rightarrow> nat \<Rightarrow> audio_stream" where
  "audio_stream_set_size b v = b\<lparr>st_size := v\<rparr>"

definition audio_stream_set_avail :: "audio_stream \<Rightarrow> nat \<Rightarrow> audio_stream" where
  "audio_stream_set_avail b v = b\<lparr>st_avail := v\<rparr>"

definition audio_stream_set_free :: "audio_stream \<Rightarrow> nat \<Rightarrow> audio_stream" where
  "audio_stream_set_free b v = b\<lparr>st_free := v\<rparr>"

definition set_sp :: "(sof_audio_stream_params \<Rightarrow> sof_audio_stream_params) \<Rightarrow> audio_stream \<Rightarrow> audio_stream" where
  "set_sp f b = b\<lparr>runtime_stream_params := f (runtime_stream_params b)\<rparr>"

definition audio_stream_set_frm_fmt :: "audio_stream \<Rightarrow> sof_ipc_frame \<Rightarrow> audio_stream" where
  "audio_stream_set_frm_fmt b v = audio_stream_recalc_align (set_sp (\<lambda>p. p\<lparr>frame_fmt := v\<rparr>) b)"

definition audio_stream_set_valid_fmt :: "audio_stream \<Rightarrow> sof_ipc_frame \<Rightarrow> audio_stream" where
  "audio_stream_set_valid_fmt b v = set_sp (\<lambda>p. p\<lparr>valid_sample_fmt := v\<rparr>) b"

definition audio_stream_set_rate :: "audio_stream \<Rightarrow> nat \<Rightarrow> audio_stream" where
  "audio_stream_set_rate b v = set_sp (\<lambda>p. p\<lparr>rate := v\<rparr>) b"

definition audio_stream_set_channels :: "audio_stream \<Rightarrow> nat \<Rightarrow> audio_stream" where
  "audio_stream_set_channels b v = audio_stream_recalc_align (set_sp (\<lambda>p. p\<lparr>channels := u16 v\<rparr>) b)"

definition audio_stream_set_underrun :: "audio_stream \<Rightarrow> bool \<Rightarrow> audio_stream" where
  "audio_stream_set_underrun b v = set_sp (\<lambda>p. p\<lparr>underrun_permitted := v\<rparr>) b"

definition audio_stream_set_overrun :: "audio_stream \<Rightarrow> bool \<Rightarrow> audio_stream" where
  "audio_stream_set_overrun b v = set_sp (\<lambda>p. p\<lparr>overrun_permitted := v\<rparr>) b"

definition audio_stream_set_buffer_fmt :: "audio_stream \<Rightarrow> nat \<Rightarrow> audio_stream" where
  "audio_stream_set_buffer_fmt b v = set_sp (\<lambda>p. p\<lparr>buffer_fmt := v\<rparr>) b"

text \<open>The IPC stream parameters that the buffers read; the other fields of the message are not used here.\<close>

record sof_ipc_stream_params =
  ipc_frame_fmt :: sof_ipc_frame
  ipc_buffer_fmt :: nat
  ipc_rate :: nat
  ipc_channels :: nat
  ipc_chmap :: "nat list"
  ipc_direction :: nat

text \<open>\<open>None\<close> is the error code \<^verbatim>\<open>-EINVAL\<close>.\<close>

definition audio_stream_set_params :: "audio_stream \<Rightarrow> sof_ipc_stream_params option \<Rightarrow> audio_stream option" where
  "audio_stream_set_params b params =
     (case params of
        None \<Rightarrow> None
      | Some p \<Rightarrow> Some (audio_stream_recalc_align
          (set_sp (\<lambda>q. q\<lparr>frame_fmt := ipc_frame_fmt p, rate := ipc_rate p, channels := ipc_channels p\<rparr>) b)))"
section \<open>The ring\<close>

definition cir_buf_wrap :: "nat \<Rightarrow> nat \<Rightarrow> nat \<Rightarrow> nat outcome" where
  "cir_buf_wrap ptr buf_addr buf_end =
     (let p = (if buf_end \<le> ptr then u32 (buf_addr + u32_sub ptr buf_end) else ptr)
      in if p \<le> buf_end then Done p else Panic)"

definition audio_stream_wrap :: "audio_stream \<Rightarrow> nat \<Rightarrow> nat outcome" where
  "audio_stream_wrap b ptr =
     (let p = (if end_addr b \<le> ptr then u32 (addr b + u32_sub ptr (end_addr b)) else ptr)
      in if p \<le> end_addr b then Done p else Panic)"

definition audio_stream_rewind_wrap :: "audio_stream \<Rightarrow> nat \<Rightarrow> nat outcome" where
  "audio_stream_rewind_wrap b ptr =
     (let p = (if ptr < addr b then u32_sub (end_addr b) (addr b - ptr) else ptr)
      in if addr b \<le> p then Done p else Panic)"

definition audio_stream_get_frag :: "audio_stream \<Rightarrow> nat \<Rightarrow> nat \<Rightarrow> nat \<Rightarrow> nat outcome" where
  "audio_stream_get_frag b ptr idx sample_size = audio_stream_wrap b (u32 (ptr + idx * sample_size))"

definition audio_stream_read_frag :: "audio_stream \<Rightarrow> nat \<Rightarrow> nat \<Rightarrow> nat outcome" where
  "audio_stream_read_frag b idx sz = audio_stream_get_frag b (r_ptr b) idx sz"

definition audio_stream_write_frag :: "audio_stream \<Rightarrow> nat \<Rightarrow> nat \<Rightarrow> nat outcome" where
  "audio_stream_write_frag b idx sz = audio_stream_get_frag b (w_ptr b) idx sz"

definition audio_stream_period_bytes :: "audio_stream \<Rightarrow> nat \<Rightarrow> nat" where
  "audio_stream_period_bytes b frames = u32 (frames * audio_stream_frame_bytes b)"

definition audio_stream_get_avail_bytes :: "audio_stream \<Rightarrow> nat" where
  "audio_stream_get_avail_bytes b =
     (if underrun_permitted (runtime_stream_params b)
      then if st_avail b \<noteq> 0 then st_avail b else st_size b
      else st_avail b)"

definition audio_stream_get_avail_samples :: "audio_stream \<Rightarrow> nat" where
  "audio_stream_get_avail_samples b = audio_stream_get_avail_bytes b div audio_stream_sample_bytes b"

definition audio_stream_get_avail_frames :: "audio_stream \<Rightarrow> nat" where
  "audio_stream_get_avail_frames b = audio_stream_get_avail_bytes b div audio_stream_frame_bytes b"

definition audio_stream_get_free_bytes :: "audio_stream \<Rightarrow> nat" where
  "audio_stream_get_free_bytes b =
     (if overrun_permitted (runtime_stream_params b)
      then if st_free b \<noteq> 0 then st_free b else st_size b
      else st_free b)"

definition audio_stream_get_free_samples :: "audio_stream \<Rightarrow> nat" where
  "audio_stream_get_free_samples b = audio_stream_get_free_bytes b div audio_stream_sample_bytes b"

definition audio_stream_get_free_frames :: "audio_stream \<Rightarrow> nat" where
  "audio_stream_get_free_frames b = audio_stream_get_free_bytes b div audio_stream_frame_bytes b"

definition audio_stream_can_copy_bytes :: "audio_stream \<Rightarrow> audio_stream \<Rightarrow> nat \<Rightarrow> int" where
  "audio_stream_can_copy_bytes source sink bytes =
     (if audio_stream_get_avail_bytes source < bytes then - 1
      else if audio_stream_get_free_bytes sink < bytes then 1 else 0)"

definition audio_stream_get_copy_bytes :: "audio_stream \<Rightarrow> audio_stream \<Rightarrow> nat" where
  "audio_stream_get_copy_bytes source sink =
     (let avl = audio_stream_get_avail_bytes source; fr = audio_stream_get_free_bytes sink
      in if fr < avl then fr else avl)"

definition audio_stream_avail_frames :: "audio_stream \<Rightarrow> audio_stream \<Rightarrow> nat" where
  "audio_stream_avail_frames source sink =
     min (audio_stream_get_avail_frames source) (audio_stream_get_free_frames sink)"

definition audio_stream_avail_frames_aligned :: "audio_stream \<Rightarrow> audio_stream \<Rightarrow> nat" where
  "audio_stream_avail_frames_aligned source sink =
     (let src_frames = u32 (drop_bit (align_shift_idx (runtime_stream_params source))
                              (audio_stream_get_avail_bytes source)
                            * align_frame_cnt (runtime_stream_params source));
          sink_frames = u32 (drop_bit (align_shift_idx (runtime_stream_params sink))
                               (audio_stream_get_free_bytes sink)
                             * align_frame_cnt (runtime_stream_params sink))
      in min src_frames sink_frames)"

definition audio_stream_produce :: "audio_stream \<Rightarrow> nat \<Rightarrow> audio_stream outcome" where
  "audio_stream_produce b bytes =
     obind (audio_stream_wrap b (u32 (w_ptr b + bytes)))
       (\<lambda>w. let r = (if audio_stream_get_free_bytes b < bytes then w else r_ptr b);
                avl = (if r < w then w - r
                       else if r = w then st_size b
                       else u32_sub (st_size b) (r - w))
            in Done (b\<lparr>w_ptr := w, r_ptr := r, st_avail := avl, st_free := u32_sub (st_size b) avl\<rparr>))"

definition audio_stream_consume :: "audio_stream \<Rightarrow> nat \<Rightarrow> audio_stream outcome" where
  "audio_stream_consume b bytes =
     obind (audio_stream_wrap b (u32 (r_ptr b + bytes)))
       (\<lambda>r. let w = w_ptr b;
                avl = (if r < w then w - r
                       else if r = w then 0
                       else u32_sub (st_size b) (r - w))
            in Done (b\<lparr>r_ptr := r, st_avail := avl, st_free := u32_sub (st_size b) avl\<rparr>))"

definition audio_stream_reset :: "audio_stream \<Rightarrow> audio_stream" where
  "audio_stream_reset b = b\<lparr>w_ptr := addr b, r_ptr := addr b, st_free := st_size b, st_avail := 0\<rparr>"

definition audio_stream_init :: "audio_stream \<Rightarrow> nat \<Rightarrow> nat \<Rightarrow> audio_stream" where
  "audio_stream_init b buff_addr sz =
     audio_stream_reset (audio_stream_set_align 1 1
       (b\<lparr>st_size := sz, addr := buff_addr, end_addr := u32 (buff_addr + sz)\<rparr>))"

text \<open>
  The regions that cache maintenance and zeroing cover: the head up to the end of the ring, and
  the tail from its start when there is one.
\<close>

definition wrap_regions :: "nat \<Rightarrow> nat \<Rightarrow> nat \<Rightarrow> nat \<Rightarrow> (nat \<times> nat) list" where
  "wrap_regions ptr buf_addr buf_end bytes =
     (let head = (if buf_end < u32 (ptr + bytes) then u32_sub buf_end ptr else bytes);
          tail_sz = (if buf_end < u32 (ptr + bytes) then u32_sub bytes head else 0)
      in (ptr, head) # (if tail_sz \<noteq> 0 then [(buf_addr, tail_sz)] else []))"

definition audio_stream_invalidate :: "audio_stream \<Rightarrow> nat \<Rightarrow> (nat \<times> nat) list" where
  "audio_stream_invalidate b bytes = wrap_regions (r_ptr b) (addr b) (end_addr b) bytes"

definition audio_stream_writeback :: "audio_stream \<Rightarrow> nat \<Rightarrow> (nat \<times> nat) list" where
  "audio_stream_writeback b bytes = wrap_regions (w_ptr b) (addr b) (end_addr b) bytes"

definition zero_regions :: "memory \<Rightarrow> (nat \<times> nat) list \<Rightarrow> memory" where
  "zero_regions = foldl (\<lambda>mem (p, n). bzero mem p n)"

text \<open>\<^verbatim>\<open>audio_stream_set_zero\<close>: the memory and the C result.\<close>

definition audio_stream_set_zero :: "audio_stream \<Rightarrow> nat \<Rightarrow> memory \<Rightarrow> memory \<times> int" where
  "audio_stream_set_zero b bytes mem =
     (if audio_stream_get_free_bytes b < bytes then (mem, 1)
      else (zero_regions mem (wrap_regions (w_ptr b) (addr b) (end_addr b) bytes), 0))"

definition cir_buf_set_zero :: "nat \<Rightarrow> nat \<Rightarrow> nat \<Rightarrow> nat \<Rightarrow> memory \<Rightarrow> memory" where
  "cir_buf_set_zero ptr buf_addr buf_end bytes mem =
     zero_regions mem (wrap_regions ptr buf_addr buf_end bytes)"

section \<open>Distances to the ends of the ring\<close>

definition cir_buf_bytes_without_wrap :: "nat \<Rightarrow> nat \<Rightarrow> nat outcome" where
  "cir_buf_bytes_without_wrap ptr buf_end = (if ptr \<le> buf_end then Done (buf_end - ptr) else Panic)"

definition audio_stream_bytes_without_wrap :: "audio_stream \<Rightarrow> nat \<Rightarrow> nat outcome" where
  "audio_stream_bytes_without_wrap b ptr = (if ptr \<le> end_addr b then Done (end_addr b - ptr) else Panic)"

definition audio_stream_rewind_bytes_without_wrap :: "audio_stream \<Rightarrow> nat \<Rightarrow> nat outcome" where
  "audio_stream_rewind_bytes_without_wrap b ptr = (if addr b \<le> ptr then Done (ptr - addr b) else Panic)"

definition audio_stream_rewind_wptr_by_bytes :: "audio_stream \<Rightarrow> nat \<Rightarrow> nat outcome" where
  "audio_stream_rewind_wptr_by_bytes b bytes =
     obind (audio_stream_rewind_bytes_without_wrap b (w_ptr b))
       (\<lambda>to_begin.
          if \<not> (addr b \<le> w_ptr b \<and> w_ptr b < end_addr b) then Panic
          else if bytes < to_begin then Done (w_ptr b - bytes)
          else Done (u32_sub (end_addr b) (bytes - to_begin)))"

definition audio_stream_samples_without_wrap_s16 :: "audio_stream \<Rightarrow> nat \<Rightarrow> nat outcome" where
  "audio_stream_samples_without_wrap_s16 b ptr =
     (if ptr \<le> end_addr b then Done ((end_addr b - ptr) div 2) else Panic)"

definition audio_stream_samples_without_wrap_s24 :: "audio_stream \<Rightarrow> nat \<Rightarrow> nat outcome" where
  "audio_stream_samples_without_wrap_s24 b ptr =
     (if ptr \<le> end_addr b then Done ((end_addr b - ptr) div 4) else Panic)"

definition audio_stream_samples_without_wrap_s32 :: "audio_stream \<Rightarrow> nat \<Rightarrow> nat outcome" where
  "audio_stream_samples_without_wrap_s32 b ptr =
     (if ptr \<le> end_addr b then Done ((end_addr b - ptr) div 4) else Panic)"

definition cir_buf_samples_without_wrap_s32 :: "nat \<Rightarrow> nat \<Rightarrow> nat outcome" where
  "cir_buf_samples_without_wrap_s32 ptr buf_end =
     (if ptr \<le> buf_end then Done ((buf_end - ptr) div 4) else Panic)"

definition audio_stream_frames_without_wrap :: "audio_stream \<Rightarrow> nat \<Rightarrow> nat outcome" where
  "audio_stream_frames_without_wrap b ptr =
     obind (audio_stream_bytes_without_wrap b ptr) (\<lambda>bytes. Done (bytes div audio_stream_frame_bytes b))"

section \<open>Copies\<close>

text \<open>
  The copy loop that \<^verbatim>\<open>audio_stream_copy\<close> and \<^verbatim>\<open>cir_buf_copy\<close> share, with the copy of one piece
  (\<^verbatim>\<open>memcpy\<close> or \<^verbatim>\<open>memcpy_s\<close>) as argument: \<open>None\<close> would be a loop that does not end.
\<close>

partial_function (option) cir_copy_loop ::
    "(memory \<Rightarrow> nat \<Rightarrow> nat \<Rightarrow> nat \<Rightarrow> memory) \<Rightarrow> nat \<Rightarrow> nat \<Rightarrow> nat \<Rightarrow> nat \<Rightarrow> memory \<Rightarrow> nat \<Rightarrow> nat \<Rightarrow> nat \<Rightarrow> memory outcome option" where
  "cir_copy_loop cp src_addr src_end dst_addr dst_end mem src dst bytes =
     (if bytes = 0 then Some (Done mem)
      else
        case obind (cir_buf_bytes_without_wrap src src_end) (\<lambda>bytes_src.
             obind (cir_buf_bytes_without_wrap dst dst_end) (\<lambda>bytes_dst.
               let n = min bytes (min bytes_src bytes_dst)
               in obind (cir_buf_wrap (u32 (src + n)) src_addr src_end) (\<lambda>src'.
                  obind (cir_buf_wrap (u32 (dst + n)) dst_addr dst_end) (\<lambda>dst'.
                    Done (n, src', dst'))))) of
          Done t \<Rightarrow> cir_copy_loop cp src_addr src_end dst_addr dst_end
                     (cp mem dst src (fst t)) (fst (snd t)) (snd (snd t)) (bytes - fst t)
        | Panic \<Rightarrow> Some Panic
        | OutOfBounds \<Rightarrow> Some OutOfBounds)"

definition cir_buf_copy ::
    "nat \<Rightarrow> nat \<Rightarrow> nat \<Rightarrow> nat \<Rightarrow> nat \<Rightarrow> nat \<Rightarrow> nat \<Rightarrow> memory \<Rightarrow> memory outcome option" where
  "cir_buf_copy src src_addr src_end dst dst_addr dst_end byte_size mem =
     cir_copy_loop (\<lambda>mem dst src n. fst (memcpy_s mem dst n src n)) src_addr src_end dst_addr dst_end mem src dst byte_size"

definition audio_stream_copy ::
    "audio_stream \<Rightarrow> nat \<Rightarrow> audio_stream \<Rightarrow> nat \<Rightarrow> nat \<Rightarrow> memory \<Rightarrow> memory outcome option" where
  "audio_stream_copy source ioffset sink ooffset samples mem =
     (let ssize = audio_stream_sample_bytes source
      in case obind (audio_stream_wrap source (u32 (r_ptr source + ioffset * ssize))) (\<lambda>src.
              obind (audio_stream_wrap sink (u32 (w_ptr sink + ooffset * ssize))) (\<lambda>snk. Done (src, snk))) of
           Done t \<Rightarrow> cir_copy_loop mem_copy (addr source) (end_addr source) (addr sink) (end_addr sink) mem
                      (fst t) (snd t) (u32 (samples * ssize))
         | Panic \<Rightarrow> Some Panic
         | OutOfBounds \<Rightarrow> Some OutOfBounds)"

partial_function (option) from_linear_loop ::
    "audio_stream \<Rightarrow> memory \<Rightarrow> nat \<Rightarrow> nat \<Rightarrow> nat \<Rightarrow> memory outcome option" where
  "from_linear_loop sink mem src snk bytes =
     (if bytes = 0 then Some (Done mem)
      else
        case obind (audio_stream_bytes_without_wrap sink snk) (\<lambda>bytes_snk.
             let n = min bytes bytes_snk
             in obind (audio_stream_wrap sink (u32 (snk + n))) (\<lambda>snk'. Done (n, snk'))) of
          Done t \<Rightarrow> from_linear_loop sink (mem_copy mem snk src (fst t)) (src + fst t) (snd t) (bytes - fst t)
        | Panic \<Rightarrow> Some Panic
        | OutOfBounds \<Rightarrow> Some OutOfBounds)"

definition audio_stream_copy_from_linear ::
    "nat \<Rightarrow> nat \<Rightarrow> audio_stream \<Rightarrow> nat \<Rightarrow> nat \<Rightarrow> memory \<Rightarrow> memory outcome option" where
  "audio_stream_copy_from_linear linear_source ioffset sink ooffset samples mem =
     (let ssize = audio_stream_sample_bytes sink
      in case audio_stream_wrap sink (u32 (w_ptr sink + ooffset * ssize)) of
           Done snk \<Rightarrow> from_linear_loop sink mem (u32 (linear_source + ioffset * ssize)) snk (u32 (samples * ssize))
         | Panic \<Rightarrow> Some Panic
         | OutOfBounds \<Rightarrow> Some OutOfBounds)"

partial_function (option) to_linear_loop ::
    "audio_stream \<Rightarrow> memory \<Rightarrow> nat \<Rightarrow> nat \<Rightarrow> nat \<Rightarrow> memory outcome option" where
  "to_linear_loop source mem src snk bytes =
     (if bytes = 0 then Some (Done mem)
      else
        case obind (audio_stream_bytes_without_wrap source src) (\<lambda>bytes_src.
             let n = min bytes bytes_src
             in obind (audio_stream_wrap source (u32 (src + n))) (\<lambda>src'. Done (n, src'))) of
          Done t \<Rightarrow> to_linear_loop source (mem_copy mem snk src (fst t)) (snd t) (snk + fst t) (bytes - fst t)
        | Panic \<Rightarrow> Some Panic
        | OutOfBounds \<Rightarrow> Some OutOfBounds)"

definition audio_stream_copy_to_linear ::
    "audio_stream \<Rightarrow> nat \<Rightarrow> nat \<Rightarrow> nat \<Rightarrow> nat \<Rightarrow> memory \<Rightarrow> memory outcome option" where
  "audio_stream_copy_to_linear source ioffset linear_sink ooffset samples mem =
     (let ssize = audio_stream_sample_bytes source
      in case audio_stream_wrap source (u32 (r_ptr source + ioffset * ssize)) of
           Done src \<Rightarrow> to_linear_loop source mem src (u32 (linear_sink + ooffset * ssize)) (u32 (samples * ssize))
         | Panic \<Rightarrow> Some Panic
         | OutOfBounds \<Rightarrow> Some OutOfBounds)"

section \<open>IPC4 formats\<close>

text \<open>
  \<^verbatim>\<open>audio_stream_fmt_conversion\<close> with \<^verbatim>\<open>CONFIG_FORMAT_U8\<close> and \<^verbatim>\<open>CONFIG_FORMAT_S24_3LE\<close> as
  arguments. The enumeration values are numbers here: \<^verbatim>\<open>(depth >> 3) - 2\<close> is computed on them.
\<close>

definition audio_stream_fmt_conversion ::
    "bool \<Rightarrow> bool \<Rightarrow> nat \<Rightarrow> nat \<Rightarrow> bool \<Rightarrow> int \<times> int" where
  "audio_stream_fmt_conversion fmt_u8 fmt_s24_3 depth valid type_float =
     (let f0 = int (depth div 8) - 2; v0 = int (valid div 8) - 2;
          f1 = (if fmt_u8 \<and> depth = 8 then 6 else f0); v1 = (if fmt_u8 \<and> valid = 8 then 6 else v0);
          (f2, v2) = (if valid = 24 \<and> fmt_s24_3 \<and> depth = 24 then (4, 4) else (f1, v1))
      in if type_float \<and> depth = 32 then (3, 3) else (f2, v2))"

end
