(* ===== verification/AudioStream_Props.thy ===== *)
theory AudioStream_Props
  imports AudioStream
begin

text \<open>
  The ring of \<^verbatim>\<open>audio_stream.h\<close> as a byte queue: its invariant, the effect of
  \<open>audio_stream_produce\<close> and \<open>audio_stream_consume\<close> on the queue, the copy loops, and the
  processing alignment.
\<close>

section \<open>Positions on a ring\<close>

text \<open>The address of the \<open>i\<close>-th byte after \<open>p\<close> in the ring of \<open>n\<close> bytes at \<open>a\<close>.\<close>

definition ring_at :: "nat \<Rightarrow> nat \<Rightarrow> nat \<Rightarrow> nat \<Rightarrow> nat" where
  "ring_at a n p i = a + (p - a + i) mod n"

lemma ring_at_bounds: "0 < n \<Longrightarrow> a \<le> ring_at a n p i \<and> ring_at a n p i < a + n"
  by (simp add: ring_at_def)

lemma ring_at_0 [simp]: "a \<le> p \<Longrightarrow> p < a + n \<Longrightarrow> ring_at a n p 0 = p"
  by (simp add: ring_at_def)

lemma ring_at_plus: "ring_at a n (ring_at a n p i) j = ring_at a n p (i + j)"
  by (simp add: ring_at_def mod_simps add.assoc)

lemma ring_at_small: "a \<le> p \<Longrightarrow> p + i < a + n \<Longrightarrow> ring_at a n p i = p + i"
  by (simp add: ring_at_def)

lemma mod_small_twice: "y < n + n \<Longrightarrow> y mod n = (if y < n then y else y - n)" for y :: nat
  by (simp add: mod_if [of y n])

lemma mod_add_inj:
  fixes n :: nat
  assumes "(x + i) mod n = (x + j) mod n" and "i < n" and "j < n"
  shows "i = j"
proof -
  have le: "i = j" if "i \<le> j" "(x + i) mod n = (x + j) mod n" "j < n" for i j
  proof -
    have "n dvd (x + j) - (x + i)" using that mod_eq_dvd_iff_nat [of "x + i" "x + j" n] by simp
    then have "n dvd j - i" by simp
    with that show ?thesis by (metis dvd_imp_le le_antisym less_imp_diff_less not_less zero_less_diff)
  qed
  show ?thesis using le [of i j] le [of j i] assms by (cases "i \<le> j") auto
qed

lemma ring_at_inj:
  assumes "ring_at a n p i = ring_at a n p j" and "i < n" and "j < n"
  shows "i = j"
  using assms mod_add_inj [of "p - a" i n j] by (simp add: ring_at_def)

text \<open>The fill level that the source computes from the two pointers, for the full and the empty reading of equal pointers.\<close>

lemma ring_at_cases:
  assumes "a \<le> p" and "p < a + n" and "d \<le> n"
  shows "ring_at a n p d = (if p + d < a + n then p + d else p + d - n)"
  using assms by (auto simp: ring_at_def mod_small_twice)

lemma ring_level:
  assumes "a \<le> r" and "r < a + n" and "d \<le> n" and "w = ring_at a n r d"
  shows "0 < d \<Longrightarrow> (if r < w then w - r else if r = w then n else n - (r - w)) = d"
    and "d < n \<Longrightarrow> (if r < w then w - r else if r = w then 0 else n - (r - w)) = d"
  using assms(1-3) unfolding assms(4) ring_at_cases [OF assms(1-3)] by auto

section \<open>The invariant\<close>

definition stream_ok :: "audio_stream \<Rightarrow> bool" where
  "stream_ok b \<longleftrightarrow> 0 < st_size b \<and> end_addr b = addr b + st_size b \<and> end_addr b + st_size b < 2 ^ 32 \<and>
     addr b \<le> r_ptr b \<and> r_ptr b < end_addr b \<and> st_avail b \<le> st_size b \<and> st_free b = st_size b - st_avail b \<and>
     w_ptr b = ring_at (addr b) (st_size b) (r_ptr b) (st_avail b)"

lemma stream_okD:
  assumes "stream_ok b"
  shows "0 < st_size b" "end_addr b = addr b + st_size b" "end_addr b + st_size b < 2 ^ 32"
    "addr b \<le> r_ptr b" "r_ptr b < addr b + st_size b" "st_avail b \<le> st_size b"
    "st_free b = st_size b - st_avail b" "w_ptr b = ring_at (addr b) (st_size b) (r_ptr b) (st_avail b)"
    "addr b \<le> w_ptr b" "w_ptr b < addr b + st_size b"
  using assms ring_at_bounds [of "st_size b" "addr b" "r_ptr b" "st_avail b"] by (auto simp: stream_ok_def)

lemma cir_buf_wrap_ok:
  assumes "0 < n" and "a + n + n < 2 ^ 32" and "a \<le> p" and "p < a + n" and "i \<le> n"
  shows "cir_buf_wrap (u32 (p + i)) a (a + n) = Done (ring_at a n p i)"
proof -
  have u: "u32 (p + i) = p + i" using assms by (intro u32_id) simp
  show ?thesis
  proof (cases "a + n \<le> p + i")
    case True
    then have "u32_sub (p + i) (a + n) = p + i - (a + n)" using assms by (intro u32_sub_id) auto
    moreover have "u32 (a + (p + i - (a + n))) = p + i - n" using assms True by (subst u32_id) auto
    ultimately have "cir_buf_wrap (u32 (p + i)) a (a + n) = Done (p + i - n)"
      using True assms unfolding cir_buf_wrap_def u Let_def by simp
    with True show ?thesis using ring_at_cases [OF assms(3-5)] by simp
  next
    case False
    then show ?thesis using assms by (simp add: cir_buf_wrap_def u ring_at_small)
  qed
qed

lemma audio_stream_wrap_cir: "audio_stream_wrap b p = cir_buf_wrap p (addr b) (end_addr b)"
  by (simp add: audio_stream_wrap_def cir_buf_wrap_def)

lemma audio_stream_wrap_ok:
  assumes "stream_ok b" and "addr b \<le> p" and "p < end_addr b" and "i \<le> st_size b"
  shows "audio_stream_wrap b (u32 (p + i)) = Done (ring_at (addr b) (st_size b) p i)"
  using cir_buf_wrap_ok [of "st_size b" "addr b" p i] stream_okD [OF assms(1)] assms(2-4)
  by (simp add: audio_stream_wrap_cir)

section \<open>Producing and consuming\<close>

definition moved :: "audio_stream \<Rightarrow> nat \<Rightarrow> nat \<Rightarrow> audio_stream" where
  "moved b skip lvl = b\<lparr>r_ptr := ring_at (addr b) (st_size b) (r_ptr b) skip,
     w_ptr := ring_at (addr b) (st_size b) (r_ptr b) (skip + lvl),
     st_avail := lvl, st_free := st_size b - lvl\<rparr>"

lemma moved_ok:
  assumes "stream_ok b" and "lvl \<le> st_size b"
  shows "stream_ok (moved b skip lvl)"
  using stream_okD [OF assms(1)] assms(2) ring_at_bounds [of "st_size b" "addr b" "r_ptr b" skip]
  by (auto simp: stream_ok_def moved_def ring_at_plus)

lemma produce_level:
  assumes ok: "stream_ok b" and n: "0 < n" "n \<le> audio_stream_get_free_bytes b" "n \<le> st_size b"
    and d: "d \<le> st_size b" "0 < d"
    and w: "ring_at (addr b) (st_size b) (w_ptr b) n = ring_at (addr b) (st_size b) (r_ptr b) d"
  shows "audio_stream_produce b n = Done (moved b 0 d)"
proof -
  note D = stream_okD [OF ok]
  let ?w = "ring_at (addr b) (st_size b) (r_ptr b) d"
  have wr: "audio_stream_wrap b (u32 (w_ptr b + n)) = Done ?w"
    using audio_stream_wrap_ok [OF ok D(9) _ n(3)] D(2,10) w by simp
  have bnd: "addr b \<le> ?w" "?w < addr b + st_size b" using ring_at_bounds [OF D(1)] by auto
  have lvl: "(if r_ptr b < ?w then ?w - r_ptr b else if r_ptr b = ?w then st_size b
      else u32_sub (st_size b) (r_ptr b - ?w)) = d"
  proof -
    have "u32_sub (st_size b) (r_ptr b - ?w) = st_size b - (r_ptr b - ?w)"
      using D bnd by (intro u32_sub_id) auto
    with ring_level(1) [OF D(4,5) d(1) refl d(2)] show ?thesis by (simp only:)
  qed
  have "u32_sub (st_size b) d = st_size b - d" using D d by (intro u32_sub_id) auto
  with wr n(2) lvl D(4,5) show ?thesis
    by (simp add: audio_stream_produce_def moved_def Let_def split del: if_split)
qed

lemma produce_appends:
  assumes ok: "stream_ok b" and n: "0 < n" "n \<le> st_free b"
  shows "audio_stream_produce b n = Done (moved b 0 (st_avail b + n))"
proof (rule produce_level [OF ok n(1)])
  note D = stream_okD [OF ok]
  show "n \<le> audio_stream_get_free_bytes b" using n by (simp add: audio_stream_get_free_bytes_def)
  show "n \<le> st_size b" "st_avail b + n \<le> st_size b" using n D by auto
  show "ring_at (addr b) (st_size b) (w_ptr b) n = ring_at (addr b) (st_size b) (r_ptr b) (st_avail b + n)"
    unfolding D(8) ring_at_plus ..
qed (use n in simp)

text \<open>With overruns permitted, writing to a full ring replaces its contents by what was written.\<close>

lemma produce_overwrites:
  assumes ok: "stream_ok b" and n: "0 < n" "n \<le> st_size b" and full: "st_free b = 0"
    and over: "overrun_permitted (runtime_stream_params b)"
  shows "audio_stream_produce b n = Done (moved b 0 n)"
proof (rule produce_level [OF ok n(1) _ n(2,2,1)])
  note D = stream_okD [OF ok]
  show "n \<le> audio_stream_get_free_bytes b" using n full over by (simp add: audio_stream_get_free_bytes_def)
  have "st_avail b = st_size b" using D full by simp
  then have "w_ptr b = r_ptr b" using D(4,5,8) ring_at_cases [OF D(4,5) order.refl] by simp
  then show "ring_at (addr b) (st_size b) (w_ptr b) n = ring_at (addr b) (st_size b) (r_ptr b) n" by simp
qed

lemma consume_drops:
  assumes ok: "stream_ok b" and n: "0 < n" "n \<le> st_avail b"
  shows "audio_stream_consume b n = Done (moved b n (st_avail b - n))"
proof -
  note D = stream_okD [OF ok]
  let ?r = "ring_at (addr b) (st_size b) (r_ptr b) n" and ?d = "st_avail b - n"
  have wr: "audio_stream_wrap b (u32 (r_ptr b + n)) = Done ?r"
    using audio_stream_wrap_ok [OF ok D(4)] D(2,5,6) n(2) by simp
  have bnd: "addr b \<le> ?r" "?r < addr b + st_size b" using ring_at_bounds [OF D(1)] by auto
  have w: "w_ptr b = ring_at (addr b) (st_size b) ?r ?d" unfolding ring_at_plus using D(8) n(2) by simp
  have lt: "?d \<le> st_size b" "?d < st_size b" using n D(6) by auto
  have "u32_sub (st_size b) (?r - w_ptr b) = st_size b - (?r - w_ptr b)"
    using D bnd by (intro u32_sub_id) auto
  with ring_level(2) [OF bnd lt(1) w lt(2)]
  have lvl: "(if ?r < w_ptr b then w_ptr b - ?r else if ?r = w_ptr b then 0
      else u32_sub (st_size b) (?r - w_ptr b)) = ?d" by (simp only:)
  have "u32_sub (st_size b) ?d = st_size b - ?d" using D by (intro u32_sub_id) auto
  moreover have "w_ptr b = ring_at (addr b) (st_size b) (r_ptr b) (n + ?d)" using D(8) n(2) by simp
  ultimately show ?thesis
    unfolding audio_stream_consume_def wr obind.simps Let_def lvl moved_def by simp
qed

lemma sample_bytes_moved [simp]: "audio_stream_sample_bytes (moved b skip lvl) = audio_stream_sample_bytes b"
  by (simp add: moved_def audio_stream_sample_bytes_def)

section \<open>The queue\<close>

definition ring_bytes :: "memory \<Rightarrow> nat \<Rightarrow> nat \<Rightarrow> nat \<Rightarrow> nat \<Rightarrow> nat list" where
  "ring_bytes mem a n p k = map (\<lambda>i. mem (ring_at a n p i)) [0..<k]"

lemma length_ring_bytes [simp]: "length (ring_bytes mem a n p k) = k"
  by (simp add: ring_bytes_def)

lemma ring_bytes_nth: "i < k \<Longrightarrow> ring_bytes mem a n p k ! i = mem (ring_at a n p i)"
  by (simp add: ring_bytes_def)

lemma ring_bytes_drop: "ring_bytes mem a n (ring_at a n p m) (k - m) = drop m (ring_bytes mem a n p k)"
  by (rule nth_equalityI) (auto simp: ring_bytes_def ring_at_plus)

text \<open>Writing \<open>data\<close> at the write position of a ring, byte by byte.\<close>

definition ring_written :: "nat \<Rightarrow> nat \<Rightarrow> nat \<Rightarrow> nat list \<Rightarrow> memory \<Rightarrow> memory \<Rightarrow> bool" where
  "ring_written a n p data mem mem' \<longleftrightarrow>
     (\<forall>i<length data. mem' (ring_at a n p i) = data ! i) \<and>
     (\<forall>x. (\<forall>i<length data. x \<noteq> ring_at a n p i) \<longrightarrow> mem' x = mem x)"

lemma ring_bytes_written:
  assumes w: "ring_written a n (ring_at a n p k) data mem mem'" and n: "k + length data \<le> n"
  shows "ring_bytes mem' a n p (k + length data) = ring_bytes mem a n p k @ data"
proof (rule nth_equalityI)
  fix i assume "i < length (ring_bytes mem' a n p (k + length data))"
  then have i: "i < k + length data" by simp
  show "ring_bytes mem' a n p (k + length data) ! i = (ring_bytes mem a n p k @ data) ! i"
  proof (cases "i < k")
    case True
    have "ring_at a n p i \<noteq> ring_at a n p (k + j)" if "j < length data" for j
      using ring_at_inj [of a n p i "k + j"] True that n by fastforce
    then have "mem' (ring_at a n p i) = mem (ring_at a n p i)" using w by (auto simp: ring_written_def ring_at_plus)
    with True i show ?thesis by (simp add: ring_bytes_nth nth_append)
  next
    case False
    then obtain j where "i = k + j" "j < length data" using i by (metis le_add_diff_inverse nat_add_left_cancel_less not_less)
    with w i show ?thesis by (simp add: ring_bytes_nth nth_append ring_written_def ring_at_plus)
  qed
qed simp

definition contents :: "memory \<Rightarrow> audio_stream \<Rightarrow> nat list" where
  "contents mem b = ring_bytes mem (addr b) (st_size b) (r_ptr b) (st_avail b)"

lemma length_contents [simp]: "length (contents mem b) = st_avail b"
  by (simp add: contents_def)

lemma contents_consume: "contents mem (moved b n (st_avail b - n)) = drop n (contents mem b)"
  by (simp add: contents_def moved_def ring_bytes_drop)

abbreviation written :: "audio_stream \<Rightarrow> nat list \<Rightarrow> memory \<Rightarrow> memory \<Rightarrow> bool" where
  "written b \<equiv> ring_written (addr b) (st_size b) (w_ptr b)"

lemma contents_produce:
  assumes ok: "stream_ok b" and w: "written b data mem mem'" and n: "length data \<le> st_free b"
  shows "contents mem' (moved b 0 (st_avail b + length data)) = contents mem b @ data"
  using ring_bytes_written [of "addr b" "st_size b" "r_ptr b" "st_avail b" data mem mem'] w n stream_okD [OF ok]
  by (simp add: contents_def moved_def)

section \<open>Copies between rings\<close>

lemma cir_copy_step:
  assumes s: "0 < ns" "as + ns + ns < 2 ^ 32" "as \<le> src" "src < as + ns"
    and d: "0 < nd" "ad + nd + nd < 2 ^ 32" "ad \<le> dst" "dst < ad + nd"
    and b: "bytes \<noteq> 0" and n: "n = min bytes (min (as + ns - src) (ad + nd - dst))"
    and cp: "cp mem dst src n = mem_copy mem dst src n"
  shows "cir_copy_loop cp as (as + ns) ad (ad + nd) mem src dst bytes =
     cir_copy_loop cp as (as + ns) ad (ad + nd) (mem_copy mem dst src n) (ring_at as ns src n) (ring_at ad nd dst n) (bytes - n)"
proof -
  have "n \<le> ns" "n \<le> nd" using n s d by auto
  with s d have "cir_buf_wrap (u32 (src + n)) as (as + ns) = Done (ring_at as ns src n)"
    "cir_buf_wrap (u32 (dst + n)) ad (ad + nd) = Done (ring_at ad nd dst n)"
    by (intro cir_buf_wrap_ok; simp)+
  with b s d show ?thesis
    by (subst cir_copy_loop.simps) (simp add: cir_buf_bytes_without_wrap_def Let_def cp flip: n)
qed

definition copied :: "nat \<Rightarrow> nat \<Rightarrow> nat \<Rightarrow> nat \<Rightarrow> nat \<Rightarrow> nat \<Rightarrow> nat \<Rightarrow> memory \<Rightarrow> memory \<Rightarrow> bool" where
  "copied as ns src ad nd dst bytes mem mem' \<longleftrightarrow>
     (\<forall>i<bytes. mem' (ring_at ad nd dst i) = mem (ring_at as ns src i)) \<and>
     (\<forall>a. (\<forall>i<bytes. a \<noteq> ring_at ad nd dst i) \<longrightarrow> mem' a = mem a)"

lemma copied_compose:
  assumes s: "0 < ns" "as \<le> src" "src + n \<le> as + ns" and d: "0 < nd" "ad \<le> dst" "dst + n \<le> ad + nd"
    and disj: "as + ns \<le> ad \<or> ad + nd \<le> as" and n: "n \<le> bytes" "bytes \<le> nd" "0 < n"
    and c: "copied as ns (ring_at as ns src n) ad nd (ring_at ad nd dst n) (bytes - n) (mem_copy mem dst src n) m'"
  shows "copied as ns src ad nd dst bytes mem m'"
  unfolding copied_def
proof (intro conjI allI impI)
  let ?m = "mem_copy mem dst src n"
  have low_d: "ring_at ad nd dst i = dst + i" if "i < n" for i using d that by (intro ring_at_small) auto
  have low_s: "ring_at as ns src i = src + i" if "i < n" for i using s that by (intro ring_at_small) auto
  have c1: "m' (ring_at ad nd dst (n + i)) = ?m (ring_at as ns src (n + i))" if "i < bytes - n" for i
    using c that by (simp add: copied_def ring_at_plus)
  have c2: "m' a = ?m a" if "\<forall>i<bytes - n. a \<noteq> ring_at ad nd dst (n + i)" for a
    using c that by (simp add: copied_def ring_at_plus)
  have src_kept: "?m (ring_at as ns src i) = mem (ring_at as ns src i)" for i
    using ring_at_bounds [OF s(1), of as src i] disj d by (auto simp: mem_copy_def)
  fix i assume i: "i < bytes"
  show "m' (ring_at ad nd dst i) = mem (ring_at as ns src i)"
  proof (cases "i < n")
    case True
    have "ring_at ad nd dst i \<noteq> ring_at ad nd dst (n + j)" if "j < bytes - n" for j
      using ring_at_inj [of ad nd dst i "n + j"] True that n by fastforce
    then have "m' (ring_at ad nd dst i) = ?m (ring_at ad nd dst i)" by (intro c2) blast
    then show ?thesis using True by (simp add: low_d low_s mem_copy_def)
  next
    case False
    then obtain j where "i = n + j" "j < bytes - n" using i by (metis diff_less_mono le_add_diff_inverse not_less)
    then show ?thesis using c1 src_kept by simp
  qed
next
  let ?m = "mem_copy mem dst src n"
  fix a assume a: "\<forall>i<bytes. a \<noteq> ring_at ad nd dst i"
  have "m' a = ?m a" using c a by (simp add: copied_def ring_at_plus)
  moreover have "\<not> (dst \<le> a \<and> a < dst + n)"
  proof
    assume "dst \<le> a \<and> a < dst + n"
    then have "a = ring_at ad nd dst (a - dst)" "a - dst < bytes"
      using d n by (auto simp: ring_at_small)
    with a show False by blast
  qed
  ultimately show "m' a = mem a" by (auto simp: mem_copy_def)
qed

lemma cir_copy_loop_copied:
  assumes s: "0 < ns" "as + ns + ns < 2 ^ 32" and d: "0 < nd" "ad + nd + nd < 2 ^ 32"
    and disj: "as + ns \<le> ad \<or> ad + nd \<le> as"
    and cp: "\<And>mem src dst n. as \<le> src \<Longrightarrow> src + n \<le> as + ns \<Longrightarrow> ad \<le> dst \<Longrightarrow> dst + n \<le> ad + nd \<Longrightarrow> 0 < n \<Longrightarrow>
      cp mem dst src n = mem_copy mem dst src n"
    and "as \<le> src" "src < as + ns" "ad \<le> dst" "dst < ad + nd" "bytes \<le> nd"
  shows "\<exists>mem'. cir_copy_loop cp as (as + ns) ad (ad + nd) mem src dst bytes = Some (Done mem') \<and>
    copied as ns src ad nd dst bytes mem mem'"
  using assms(7-)
proof (induction bytes arbitrary: mem src dst rule: less_induct)
  case (less bytes)
  show ?case
  proof (cases "bytes = 0")
    case True
    then show ?thesis by (subst cir_copy_loop.simps) (simp add: copied_def)
  next
    case False
    define n where "n = min bytes (min (as + ns - src) (ad + nd - dst))"
    let ?m = "mem_copy mem dst src n" and ?src = "ring_at as ns src n" and ?dst = "ring_at ad nd dst n"
    have n: "0 < n" "n \<le> bytes" "src + n \<le> as + ns" "dst + n \<le> ad + nd"
      using less.prems False by (auto simp: n_def)
    have "bytes - n < bytes" "bytes - n \<le> nd" using n less.prems by auto
    then obtain m' where m': "cir_copy_loop cp as (as + ns) ad (ad + nd) ?m ?src ?dst (bytes - n) = Some (Done m')"
      "copied as ns ?src ad nd ?dst (bytes - n) ?m m'"
      using less.IH [of "bytes - n" ?src ?dst ?m] ring_at_bounds [OF s(1)] ring_at_bounds [OF d(1)] by blast
    have "cir_copy_loop cp as (as + ns) ad (ad + nd) mem src dst bytes = Some (Done m')"
      using cir_copy_step [OF s less.prems(1,2) d less.prems(3,4) False n_def, of cp mem]
        cp [OF less.prems(1) n(3) less.prems(3) n(4,1), of mem] m'(1) by simp
    moreover have "copied as ns src ad nd dst bytes mem m'"
      by (rule copied_compose [OF s(1) less.prems(1) n(3) d(1) less.prems(3) n(4) disj n(2) less.prems(5) n(1) m'(2)])
    ultimately show ?thesis by blast
  qed
qed

lemma from_linear_loop_copied:
  assumes ok: "stream_ok b" and disj: "as + ns \<le> addr b \<or> end_addr b \<le> as"
    and "as \<le> src" "src + bytes < as + ns" "addr b \<le> snk" "snk < end_addr b" "bytes \<le> st_size b"
  shows "\<exists>mem'. from_linear_loop b mem src snk bytes = Some (Done mem') \<and>
    copied as ns src (addr b) (st_size b) snk bytes mem mem'"
  using assms(3-)
proof (induction bytes arbitrary: mem src snk rule: less_induct)
  case (less bytes)
  note D = stream_okD [OF ok]
  show ?case
  proof (cases "bytes = 0")
    case True
    then show ?thesis by (subst from_linear_loop.simps) (simp add: copied_def)
  next
    case False
    define n where "n = min bytes (end_addr b - snk)"
    let ?m = "mem_copy mem snk src n" and ?snk = "ring_at (addr b) (st_size b) snk n"
    have n: "0 < n" "n \<le> bytes" "src + n \<le> as + ns" "snk + n \<le> addr b + st_size b" "n \<le> st_size b"
      using less.prems False D(2) by (auto simp: n_def)
    have src: "ring_at as ns src n = src + n" using less.prems n by (intro ring_at_small) auto
    have "audio_stream_wrap b (u32 (snk + n)) = Done ?snk"
      by (rule audio_stream_wrap_ok [OF ok less.prems(3,4) n(5)])
    then have step: "from_linear_loop b mem src snk bytes = from_linear_loop b ?m (src + n) ?snk (bytes - n)"
      using False less.prems(4)
      by (subst from_linear_loop.simps) (simp add: audio_stream_bytes_without_wrap_def Let_def flip: n_def)
    have "bytes - n < bytes" "as \<le> src + n" "src + n + (bytes - n) < as + ns" "addr b \<le> ?snk" "?snk < end_addr b"
      "bytes - n \<le> st_size b" using n less.prems ring_at_bounds [OF D(1), of "addr b" snk n] D(2) by auto
    then obtain m' where m': "from_linear_loop b ?m (src + n) ?snk (bytes - n) = Some (Done m')"
      "copied as ns (src + n) (addr b) (st_size b) ?snk (bytes - n) ?m m'"
      using less.IH [of "bytes - n" "src + n" ?snk ?m] by blast
    have "copied as ns src (addr b) (st_size b) snk bytes mem m'"
      by (rule copied_compose [OF _ less.prems(1) n(3) D(1) less.prems(3) n(4) _ n(2) less.prems(5) n(1)])
        (use m'(2) src disj D(2) less.prems n in auto)
    with step m'(1) show ?thesis by auto
  qed
qed

lemma to_linear_loop_copied:
  assumes ok: "stream_ok b" and disj: "ad + nd \<le> addr b \<or> end_addr b \<le> ad"
    and "ad \<le> snk" "snk + bytes < ad + nd" "addr b \<le> src" "src < end_addr b"
  shows "\<exists>mem'. to_linear_loop b mem src snk bytes = Some (Done mem') \<and>
    copied (addr b) (st_size b) src ad nd snk bytes mem mem'"
  using assms(3-)
proof (induction bytes arbitrary: mem src snk rule: less_induct)
  case (less bytes)
  note D = stream_okD [OF ok]
  show ?case
  proof (cases "bytes = 0")
    case True
    then show ?thesis by (subst to_linear_loop.simps) (simp add: copied_def)
  next
    case False
    define n where "n = min bytes (end_addr b - src)"
    let ?m = "mem_copy mem snk src n" and ?src = "ring_at (addr b) (st_size b) src n"
    have n: "0 < n" "n \<le> bytes" "snk + n \<le> ad + nd" "src + n \<le> addr b + st_size b" "n \<le> st_size b" "bytes \<le> nd"
      using less.prems False D(2) by (auto simp: n_def)
    have snk: "ring_at ad nd snk n = snk + n" using less.prems n by (intro ring_at_small) auto
    have "audio_stream_wrap b (u32 (src + n)) = Done ?src"
      by (rule audio_stream_wrap_ok [OF ok less.prems(3,4) n(5)])
    then have step: "to_linear_loop b mem src snk bytes = to_linear_loop b ?m ?src (snk + n) (bytes - n)"
      using False less.prems(4)
      by (subst to_linear_loop.simps) (simp add: audio_stream_bytes_without_wrap_def Let_def flip: n_def)
    have "bytes - n < bytes" "ad \<le> snk + n" "snk + n + (bytes - n) < ad + nd" "addr b \<le> ?src" "?src < end_addr b"
      using n less.prems ring_at_bounds [OF D(1), of "addr b" src n] D(2) by auto
    then obtain m' where m': "to_linear_loop b ?m ?src (snk + n) (bytes - n) = Some (Done m')"
      "copied (addr b) (st_size b) ?src ad nd (snk + n) (bytes - n) ?m m'"
      using less.IH [of "bytes - n" "snk + n" ?src ?m] by blast
    have "copied (addr b) (st_size b) src ad nd snk bytes mem m'"
      by (rule copied_compose [OF D(1) less.prems(3) n(4) _ less.prems(1) n(3) _ n(2,6,1)])
        (use m'(2) snk disj D(2) less.prems n in auto)
    with step m'(1) show ?thesis by auto
  qed
qed

lemma copied_written:
  assumes ok: "stream_ok src" and c: "copied (addr src) (st_size src) (r_ptr src) (addr b) (st_size b) (w_ptr b) n mem mem'"
    and n: "n \<le> st_avail src"
  shows "written b (take n (contents mem src)) mem mem'"
  using c n by (auto simp: copied_def ring_written_def contents_def ring_bytes_nth)

lemma copied_keeps:
  assumes c: "copied as ns src (addr b) (st_size b) dst n mem mem'" and b: "0 < st_size b"
    and s: "0 < st_size s" and disj: "end_addr s \<le> addr b \<or> end_addr b \<le> addr s"
    and e: "end_addr s = addr s + st_size s" "end_addr b = addr b + st_size b"
  shows "contents mem' s = contents mem s"
  unfolding contents_def ring_bytes_def
proof (intro map_cong refl)
  fix i
  have "ring_at (addr s) (st_size s) (r_ptr s) i \<noteq> ring_at (addr b) (st_size b) dst j" for j
    using ring_at_bounds [OF s, of "addr s" "r_ptr s" i] ring_at_bounds [OF b, of "addr b" dst j] disj e by auto
  then show "mem' (ring_at (addr s) (st_size s) (r_ptr s) i) = mem (ring_at (addr s) (st_size s) (r_ptr s) i)"
    using c by (auto simp: copied_def)
qed

lemma audio_stream_copy_copied:
  assumes ok: "stream_ok src" "stream_ok snk" and disj: "end_addr src \<le> addr snk \<or> end_addr snk \<le> addr src"
    and n: "n = samples * audio_stream_sample_bytes src" "n \<le> st_size snk"
  shows "\<exists>mem'. audio_stream_copy src 0 snk 0 samples mem = Some (Done mem') \<and>
    copied (addr src) (st_size src) (r_ptr src) (addr snk) (st_size snk) (w_ptr snk) n mem mem'"
proof -
  note S = stream_okD [OF ok(1)] and K = stream_okD [OF ok(2)]
  have "audio_stream_wrap src (u32 (r_ptr src + 0)) = Done (ring_at (addr src) (st_size src) (r_ptr src) 0)"
    by (rule audio_stream_wrap_ok [OF ok(1)]) (use S in auto)
  moreover have "audio_stream_wrap snk (u32 (w_ptr snk + 0)) = Done (ring_at (addr snk) (st_size snk) (w_ptr snk) 0)"
    by (rule audio_stream_wrap_ok [OF ok(2)]) (use K in auto)
  ultimately have w: "audio_stream_wrap src (u32 (r_ptr src)) = Done (r_ptr src)"
    "audio_stream_wrap snk (u32 (w_ptr snk)) = Done (w_ptr snk)" using S K by auto
  have "u32 n = n" using n K by (intro u32_id) auto
  then have "audio_stream_copy src 0 snk 0 samples mem =
     cir_copy_loop mem_copy (addr src) (addr src + st_size src) (addr snk) (addr snk + st_size snk) mem (r_ptr src) (w_ptr snk) n"
    using w S(2) K(2) n(1) by (simp add: audio_stream_copy_def Let_def)
  with cir_copy_loop_copied [OF S(1) _ K(1) _ _ _ S(4,5) K(9,10) n(2), of mem_copy mem] S(2,3) K(2,3) disj show ?thesis by simp
qed

section \<open>Alignment\<close>

lemma gcd_u32_eq: "a < 2 ^ 31 \<Longrightarrow> b < 2 ^ 31 \<Longrightarrow> gcd_u32 a b = gcd a b"
  by (cases "a = 0"; cases "b = 0")
    (simp_all add: gcd_u32_def s32_id gcd_int_pos, simp_all add: gcd_int_def s32_def flip: gcd_int_int_eq)

lemma nbits_bounds: "0 < n \<Longrightarrow> 2 ^ (nbits n - 1) \<le> n \<and> n < 2 ^ nbits n \<and> 0 < nbits n"
proof (induction n rule: nbits.induct)
  case (1 n)
  have e: "nbits n = Suc (nbits (n div 2))" using 1(2) by (simp add: nbits.simps [of n])
  show ?case
  proof (cases "n = 1")
    case True
    then show ?thesis using e by (simp add: nbits.simps [of 0])
  next
    case False
    then have "0 < n div 2" using 1(2) by auto
    with 1(1) [OF _ this] 1(2) obtain k where k: "nbits (n div 2) = Suc k" "2 ^ k \<le> n div 2" "n div 2 < 2 ^ Suc k"
      by (cases "nbits (n div 2)") auto
    then show ?thesis unfolding e by auto
  qed
qed

lemma shift_idx_bounds:
  assumes "0 < P" and "P < 2 ^ 32"
  shows "P \<le> 2 ^ ((if is_power_of_2 P then 31 else 32) - clz P)"
proof -
  obtain k where k: "nbits P = Suc k" "2 ^ k \<le> P" "P < 2 ^ Suc k"
    using nbits_bounds [OF assms(1)] by (cases "nbits P") auto
  have "k < 32"
  proof (rule ccontr)
    assume "\<not> k < 32"
    then have "(2::nat) ^ 32 \<le> 2 ^ k" by (intro power_increasing) auto
    with k(2) assms(2) show False by linarith
  qed
  then have "32 - clz P = Suc k" "31 - clz P = k" using k(1) by (auto simp: clz_def)
  moreover have "P = 2 ^ k" if pw: "is_power_of_2 P"
  proof -
    obtain m where m: "P = 2 ^ m" using pw by (auto simp: is_power_of_2_iff)
    then have "m = k" using k(2,3) by (metis less_antisym not_less power_strict_increasing_iff Suc_1 lessI power_less_imp_less_exp)
    with m show ?thesis by simp
  qed
  ultimately show ?thesis using k(3) by auto
qed

lemma frame_align_get_eq:
  assumes "0 < ba" "ba < 2 ^ 8" "0 < fa" "fa < 2 ^ 8" "0 < fs" "fs < 2 ^ 31"
  shows "audio_stream_frame_align_get ba fa fs = lcm fa (ba div gcd ba fs)"
    and "lcm fa (ba div gcd ba fs) < 2 ^ 16" and "0 < lcm fa (ba div gcd ba fs)"
proof -
  let ?n = "ba div gcd ba fs"
  have n: "?n \<le> ba" "0 < ?n" using assms by (auto simp: div_greater_zero_iff gcd_le1_nat)
  have prod: "fa * ?n \<le> fa * ba" using n by simp
  have "fa * ba \<le> 255 * 255" using assms by (intro mult_le_mono) auto
  then have small: "fa * ?n < 2 ^ 16" by (rule le_less_trans [OF order_trans [OF prod]]) simp
  have "?n < 2 ^ 31" by (rule le_less_trans [OF n(1)]) (use assms in simp)
  then have "gcd_u32 ba fs = gcd ba fs" "gcd_u32 ?n fa = gcd ?n fa"
    using assms by (intro gcd_u32_eq; simp)+
  moreover have u: "u32 (fa * ?n) = fa * ?n" using small by (intro u32_id) simp
  ultimately show "audio_stream_frame_align_get ba fa fs = lcm fa ?n"
    using u by (simp only: audio_stream_frame_align_get_def Let_def lcm_nat_def gcd.commute [of ?n fa])
  have "lcm fa ?n \<le> fa * ?n" by (simp add: lcm_nat_def)
  with small show "lcm fa ?n < 2 ^ 16" by linarith
  show "0 < lcm fa ?n" using assms n by (simp add: lcm_pos_nat)
qed

lemma frame_align_iff:
  assumes "0 < ba" "0 < (fs::nat)"
  shows "fa dvd n \<and> ba dvd n * fs \<longleftrightarrow> lcm fa (ba div gcd ba fs) dvd n"
proof -
  define g u v where "g = gcd ba fs" and "u = ba div g" and "v = fs div g"
  have g: "g \<noteq> 0" using assms by (simp add: g_def)
  have e: "ba = u * g" "fs = v * g" by (simp_all add: g_def u_def v_def)
  have "coprime u v" using assms unfolding u_def v_def g_def by (intro div_gcd_coprime) simp
  then have "u dvd n * v \<longleftrightarrow> u dvd n" by (simp add: coprime_dvd_mult_left_iff)
  moreover have "ba dvd n * fs \<longleftrightarrow> u * g dvd (n * v) * g" unfolding e by (simp only: mult.assoc)
  ultimately show ?thesis using g by (simp flip: g_def u_def)
qed

text \<open>What \<open>audio_stream_recalc_align\<close> establishes and \<open>audio_stream_avail_frames_aligned\<close> relies on.\<close>

definition stream_align_ok :: "audio_stream \<Rightarrow> bool" where
  "stream_align_ok b \<longleftrightarrow> 0 < audio_stream_frame_bytes b \<and>
     align_frame_cnt (runtime_stream_params b) * audio_stream_frame_bytes b
       \<le> 2 ^ align_shift_idx (runtime_stream_params b)"

lemma recalc_align_spec:
  fixes b :: audio_stream
  defines "b' \<equiv> audio_stream_recalc_align b" and "fs \<equiv> audio_stream_frame_bytes b"
  assumes ba: "0 < byte_align_req b" "byte_align_req b < 2 ^ 8" and fa: "0 < frame_align_req b" "frame_align_req b < 2 ^ 8"
    and fs: "0 < fs" "fs < 2 ^ 16"
  shows "align_frame_cnt (runtime_stream_params b') dvd n \<longleftrightarrow>
      frame_align_req b dvd n \<and> byte_align_req b dvd n * fs" and "stream_align_ok b'"
proof -
  let ?c = "lcm (frame_align_req b) (byte_align_req b div gcd (byte_align_req b) fs)"
  have fs31: "fs < 2 ^ 31" using fs by simp
  note A = frame_align_get_eq [OF ba fa fs(1) fs31]
  have cnt: "align_frame_cnt (runtime_stream_params b') = ?c"
    using A by (simp add: b'_def audio_stream_recalc_align_def Let_def u16_id flip: fs_def)
  then show "align_frame_cnt (runtime_stream_params b') dvd n \<longleftrightarrow> frame_align_req b dvd n \<and> byte_align_req b dvd n * fs"
    using frame_align_iff [OF ba(1) fs(1)] by simp
  have "?c * fs \<le> (2 ^ 16 - 1) * (2 ^ 16 - 1)" using A(2) fs(2) by (intro mult_le_mono) auto
  then have P: "0 < ?c * fs" "?c * fs < 2 ^ 32" using A(3) fs(1) by auto
  have idx: "align_shift_idx (runtime_stream_params b') = (if is_power_of_2 (?c * fs) then 31 else 32) - clz (?c * fs)"
    using A P by (simp add: b'_def audio_stream_recalc_align_def Let_def u16_id u32_id flip: fs_def)
  have "audio_stream_frame_bytes b' = fs"
    by (simp add: b'_def fs_def audio_stream_recalc_align_def Let_def audio_stream_frame_bytes_def)
  then show "stream_align_ok b'" using shift_idx_bounds [OF P] fs(1) unfolding stream_align_ok_def idx cnt by simp
qed

lemma aligned_frames_fit:
  assumes "cnt * fs \<le> 2 ^ idx" and "0 < fs" and "avl < 2 ^ 32"
  shows "u32 (drop_bit idx avl * cnt) * fs \<le> avl"
proof -
  have "avl div 2 ^ idx * cnt * fs \<le> avl div 2 ^ idx * 2 ^ idx" using assms(1) by (simp add: mult.assoc)
  also have "\<dots> \<le> avl" by simp
  finally have le: "avl div 2 ^ idx * cnt * fs \<le> avl" .
  have "avl div 2 ^ idx * cnt \<le> avl div 2 ^ idx * cnt * fs" using assms(2) by simp
  with le assms(3) have "avl div 2 ^ idx * cnt < 2 ^ 32" by linarith
  with le show ?thesis by (simp add: u32_id drop_bit_eq_div)
qed

section \<open>Properties\<close>

definition demo_stream :: "nat \<Rightarrow> audio_stream" where
  "demo_stream a = \<lparr>st_size = 16, st_avail = 8, st_free = 8, w_ptr = a + 4, r_ptr = a + 12, addr = a, end_addr = a + 16,
     byte_align_req = 8, frame_align_req = 3,
     runtime_stream_params = \<lparr>sp_id = 0, sp_pipeline_id = 0, frame_fmt = SOF_IPC_FRAME_S16_LE,
       valid_sample_fmt = SOF_IPC_FRAME_S16_LE, rate = 48000, channels = 2, align_frame_cnt = 6, align_shift_idx = 5,
       overrun_permitted = False, underrun_permitted = False, buffer_fmt = 0\<rparr>\<rparr>"

lemma demo_stream_ok: "a < 2 ^ 16 \<Longrightarrow> stream_ok (demo_stream a)"
  by (simp add: stream_ok_def demo_stream_def ring_at_def)

text \<open>
  (C4) Moving samples between two streams is first-in first-out: \<^verbatim>\<open>audio_stream_copy\<close> of data that the
  source has and the sink has room for returns; after \<^verbatim>\<open>audio_stream_consume\<close> on the source and
  \<^verbatim>\<open>audio_stream_produce\<close> on the sink, the sink holds its old bytes followed by exactly the copied
  ones, the source the remaining ones, and both rings keep their invariant.
\<close>

theorem stream_transfer:
  assumes "stream_ok src" and "stream_ok snk" and "end_addr src \<le> addr snk \<or> end_addr snk \<le> addr src"
    and "n = samples * audio_stream_sample_bytes src" and "0 < n" and "n \<le> st_avail src" and "n \<le> st_free snk"
  shows "\<exists>mem' src' snk'. audio_stream_copy src 0 snk 0 samples mem = Some (Done mem') \<and>
    audio_stream_consume src n = Done src' \<and> audio_stream_produce snk n = Done snk' \<and> stream_ok src' \<and> stream_ok snk' \<and>
    contents mem' snk' = contents mem snk @ take n (contents mem src) \<and> contents mem' src' = drop n (contents mem src)"
proof -
  note S = stream_okD [OF assms(1)] and K = stream_okD [OF assms(2)]
  let ?data = "take n (contents mem src)"
  have len: "length ?data = n" using assms(6) by simp
  obtain mem' where m: "audio_stream_copy src 0 snk 0 samples mem = Some (Done mem')"
    "copied (addr src) (st_size src) (r_ptr src) (addr snk) (st_size snk) (w_ptr snk) n mem mem'"
    using audio_stream_copy_copied [OF assms(1-4) order_trans [OF assms(7)]] K(7) by auto
  note w = copied_written [OF assms(1) m(2) assms(6)]
  have "contents mem' (moved snk 0 (st_avail snk + n)) = contents mem snk @ ?data"
    using contents_produce [OF assms(2) w] assms(7) len by simp
  moreover have "contents mem' src = contents mem src"
    by (rule copied_keeps [OF m(2) K(1) S(1) assms(3) S(2) K(2)])
  then have "contents mem' (moved src n (st_avail src - n)) = drop n (contents mem src)"
    using contents_consume [of _ src n] by simp
  moreover have "stream_ok (moved src n (st_avail src - n))" "stream_ok (moved snk 0 (st_avail snk + n))"
    using moved_ok [OF assms(1)] moved_ok [OF assms(2)] S(6) K(6,7) assms(7) by auto
  ultimately show ?thesis
    using m(1) consume_drops [OF assms(1,5,6)] produce_appends [OF assms(2,5,7)] by blast
qed

theorem stream_transfer_witness:
  "\<exists>mem' src' snk'. audio_stream_copy (demo_stream 1000) 0 (demo_stream 2000) 0 3 (\<lambda>a. a mod 256) = Some (Done mem') \<and>
    audio_stream_consume (demo_stream 1000) 6 = Done src' \<and> audio_stream_produce (demo_stream 2000) 6 = Done snk' \<and>
    stream_ok src' \<and> stream_ok snk' \<and>
    contents mem' snk' = contents (\<lambda>a. a mod 256) (demo_stream 2000) @ take 6 (contents (\<lambda>a. a mod 256) (demo_stream 1000)) \<and>
    contents mem' src' = drop 6 (contents (\<lambda>a. a mod 256) (demo_stream 1000))"
  by (rule stream_transfer [OF demo_stream_ok demo_stream_ok])
    (simp_all add: demo_stream_def audio_stream_sample_bytes_def)

text \<open>
  (C18) A buffer written from linear memory reads back: copying samples from linear memory into the free
  part of a ring, producing them, and copying as many bytes out of the ring's read position after the
  older data was consumed, returns the bytes that went in, for any position of the ring's pointers.
\<close>

theorem linear_round_trip:
  assumes "stream_ok b" and "n = samples * audio_stream_sample_bytes b" and "0 < n" and "n \<le> st_size b" and "st_avail b = 0"
    and "src + n < 2 ^ 32" and "dst + n < 2 ^ 32" and "src + n < addr b \<or> end_addr b \<le> src" and "dst + n < addr b \<or> end_addr b \<le> dst"
  shows "\<exists>mem1 b1 mem2. audio_stream_copy_from_linear src 0 b 0 samples mem = Some (Done mem1) \<and>
    audio_stream_produce b n = Done b1 \<and> stream_ok b1 \<and> st_avail b1 = n \<and>
    audio_stream_copy_to_linear b1 0 dst 0 samples mem1 = Some (Done mem2) \<and>
    (\<forall>i<n. mem2 (dst + i) = mem (src + i))"
proof -
  note D = stream_okD [OF assms(1)]
  have wr: "w_ptr b = r_ptr b" using D(4,5,8) assms(5) by simp
  let ?b = "moved b 0 n"
  have eqs: "addr ?b = addr b" "end_addr ?b = end_addr b"
    "st_size ?b = st_size b" "r_ptr ?b = r_ptr b" using D(4,5) by (auto simp: moved_def)
  have ok1: "stream_ok ?b" by (rule moved_ok [OF assms(1,4)])
  have prod: "audio_stream_produce b n = Done ?b"
    using produce_appends [OF assms(1,3)] D(7) assms(4,5) by simp
  have w0: "audio_stream_wrap b (u32 (r_ptr b)) = Done (r_ptr b)"
    using audio_stream_wrap_ok [OF assms(1) D(4), of 0] D(2,5) D(4) by simp
  have w1: "audio_stream_wrap ?b (u32 (r_ptr b)) = Done (r_ptr b)"
    using audio_stream_wrap_ok [OF ok1, of "r_ptr b" 0] D(2,4,5) eqs by simp
  have un: "u32 n = n" using assms(4) D(3) by (intro u32_id) simp
  obtain mem1 where m1: "from_linear_loop b mem src (r_ptr b) n = Some (Done mem1)"
    "copied src (n + 1) src (addr b) (st_size b) (r_ptr b) n mem mem1"
    using from_linear_loop_copied [OF assms(1), of src "n + 1" src n "r_ptr b" mem] assms(4,8) D(2,4,5) by auto
  obtain mem2 where m2: "to_linear_loop ?b mem1 (r_ptr b) dst n = Some (Done mem2)"
    "copied (addr b) (st_size b) (r_ptr b) dst (n + 1) dst n mem1 mem2"
    using to_linear_loop_copied [OF ok1, of dst "n + 1" dst n "r_ptr b" mem1] assms(9) D(2,4,5) eqs by auto
  have "mem2 (dst + i) = mem (src + i)" if "i < n" for i
  proof -
    have "ring_at dst (n + 1) dst i = dst + i" "ring_at src (n + 1) src i = src + i"
      using that by (auto intro: ring_at_small)
    then show ?thesis using m1(2) m2(2) that by (auto simp: copied_def)
  qed
  moreover have "audio_stream_copy_from_linear src 0 b 0 samples mem = Some (Done mem1)"
    using w0 m1(1) un assms(2,6) by (simp add: audio_stream_copy_from_linear_def Let_def wr u32_id)
  moreover have "audio_stream_copy_to_linear ?b 0 dst 0 samples mem1 = Some (Done mem2)"
    using w1 m2(1) un assms(2,7) eqs by (simp add: audio_stream_copy_to_linear_def Let_def u32_id)
  moreover have "st_avail ?b = n" by (simp add: moved_def)
  ultimately show ?thesis using prod ok1 by blast
qed

theorem linear_round_trip_witness:
  "let b = audio_stream_reset (demo_stream 1000) in
   \<exists>mem1 b1 mem2. audio_stream_copy_from_linear 3000 0 b 0 5 (\<lambda>a. a mod 256) = Some (Done mem1) \<and>
    audio_stream_produce b 10 = Done b1 \<and> stream_ok b1 \<and> st_avail b1 = 10 \<and>
    audio_stream_copy_to_linear b1 0 4000 0 5 mem1 = Some (Done mem2) \<and>
    (\<forall>i<10. mem2 (4000 + i) = (3000 + i) mod 256)"
  unfolding Let_def
  by (rule linear_round_trip)
    (simp_all add: demo_stream_def audio_stream_sample_bytes_def audio_stream_reset_def stream_ok_def)

text \<open>
  (C28) When overruns are permitted, producing into a full ring makes exactly the newly written bytes
  available, from the unchanged read position.
\<close>

theorem stream_overrun_policy:
  assumes "stream_ok b" and "0 < n" and "n \<le> st_size b" and "st_free b = 0" and "overrun_permitted (runtime_stream_params b)"
  shows "\<exists>b'. audio_stream_produce b n = Done b' \<and> stream_ok b' \<and> st_avail b' = n \<and> r_ptr b' = r_ptr b"
proof -
  have "st_avail (moved b 0 n) = n" "r_ptr (moved b 0 n) = r_ptr b"
    using stream_okD(4,5) [OF assms(1)] by (auto simp: moved_def)
  with produce_overwrites [OF assms] moved_ok [OF assms(1,3)] show ?thesis by blast
qed

theorem stream_overrun_policy_witness:
  "let b = set_sp (\<lambda>p. p\<lparr>overrun_permitted := True\<rparr>) ((demo_stream 1000)\<lparr>st_avail := 16, st_free := 0, w_ptr := 1012\<rparr>) in
   \<exists>b'. audio_stream_produce b 5 = Done b' \<and> stream_ok b' \<and> st_avail b' = 5 \<and> r_ptr b' = r_ptr b"
  unfolding Let_def
  by (rule stream_overrun_policy) (simp_all add: demo_stream_def set_sp_def stream_ok_def ring_at_def)

text \<open>
  (C36) A commit of zero bytes is not neutral: producing nothing on an empty ring marks it full and
  consuming nothing from a full ring marks it empty. The callers in \<^verbatim>\<open>audio_stream.c\<close> test the size first.
\<close>

theorem empty_commit_flips_level:
  assumes "stream_ok b" and "st_avail b = 0 \<or> st_avail b = st_size b"
  shows "(st_avail b = 0 \<longrightarrow> (\<exists>b'. audio_stream_produce b 0 = Done b' \<and> st_avail b' = st_size b)) \<and>
    (st_avail b = st_size b \<longrightarrow> (\<exists>b'. audio_stream_consume b 0 = Done b' \<and> st_avail b' = 0))"
proof -
  note D = stream_okD [OF assms(1)]
  have rw: "w_ptr b = r_ptr b"
    using D(4,5,8) assms(2) ring_at_cases [OF D(4,5) order.refl] by auto
  have "audio_stream_wrap b (u32 (r_ptr b + 0)) = Done (ring_at (addr b) (st_size b) (r_ptr b) 0)"
    by (rule audio_stream_wrap_ok [OF assms(1)]) (use D in auto)
  then have "audio_stream_wrap b (u32 (r_ptr b)) = Done (r_ptr b)" using D(4,5) by simp
  then show ?thesis
    by (simp add: audio_stream_produce_def audio_stream_consume_def rw Let_def)
qed

theorem empty_commit_flips_level_witness:
  "let b = audio_stream_reset (demo_stream 1000) in
   (st_avail b = 0 \<longrightarrow> (\<exists>b'. audio_stream_produce b 0 = Done b' \<and> st_avail b' = st_size b)) \<and>
    (st_avail b = st_size b \<longrightarrow> (\<exists>b'. audio_stream_consume b 0 = Done b' \<and> st_avail b' = 0))"
  unfolding Let_def
  by (rule empty_commit_flips_level) (simp_all add: demo_stream_def audio_stream_reset_def stream_ok_def)

text \<open>
  (C17) The processing block of \<^verbatim>\<open>audio_stream_recalc_align\<close> is the least one: a frame count meets both
  the frame and the byte alignment exactly when it is a multiple of the computed
  \<^verbatim>\<open>align_frame_cnt\<close>. The frames that \<^verbatim>\<open>audio_stream_avail_frames_aligned\<close> then reports never
  exceed the bytes in the source or the room in the sink.
\<close>

theorem recalc_align_minimal:
  fixes src :: audio_stream
  assumes "0 < byte_align_req src" "byte_align_req src < 2 ^ 8" and "0 < frame_align_req src" "frame_align_req src < 2 ^ 8"
    and "0 < audio_stream_frame_bytes src" "audio_stream_frame_bytes src < 2 ^ 16"
    and "stream_align_ok snk" and "audio_stream_get_avail_bytes src < 2 ^ 32" and "audio_stream_get_free_bytes snk < 2 ^ 32"
  shows "(\<forall>n. align_frame_cnt (runtime_stream_params (audio_stream_recalc_align src)) dvd n \<longleftrightarrow>
       frame_align_req src dvd n \<and> byte_align_req src dvd n * audio_stream_frame_bytes src) \<and>
     audio_stream_avail_frames_aligned (audio_stream_recalc_align src) snk * audio_stream_frame_bytes src
       \<le> audio_stream_get_avail_bytes src \<and>
     audio_stream_avail_frames_aligned (audio_stream_recalc_align src) snk * audio_stream_frame_bytes snk
       \<le> audio_stream_get_free_bytes snk"
proof -
  let ?s = "audio_stream_recalc_align src"
  note R = recalc_align_spec [OF assms(1-6)]
  have e: "audio_stream_frame_bytes ?s = audio_stream_frame_bytes src"
    "audio_stream_get_avail_bytes ?s = audio_stream_get_avail_bytes src"
    by (simp_all add: audio_stream_recalc_align_def Let_def audio_stream_frame_bytes_def audio_stream_get_avail_bytes_def)
  have "u32 (drop_bit (align_shift_idx (runtime_stream_params ?s)) (audio_stream_get_avail_bytes src) *
      align_frame_cnt (runtime_stream_params ?s)) * audio_stream_frame_bytes src \<le> audio_stream_get_avail_bytes src"
    using R(2) e assms(8) by (intro aligned_frames_fit) (auto simp: stream_align_ok_def)
  moreover have "u32 (drop_bit (align_shift_idx (runtime_stream_params snk)) (audio_stream_get_free_bytes snk) *
      align_frame_cnt (runtime_stream_params snk)) * audio_stream_frame_bytes snk \<le> audio_stream_get_free_bytes snk"
    using assms(7,9) by (intro aligned_frames_fit) (auto simp: stream_align_ok_def)
  ultimately show ?thesis
    using R(1) unfolding audio_stream_avail_frames_aligned_def Let_def e(2)
    by (auto intro: order_trans [OF mult_le_mono1 [OF min.cobounded1]] order_trans [OF mult_le_mono1 [OF min.cobounded2]])
qed

theorem recalc_align_minimal_witness:
  "let src = demo_stream 1000; snk = demo_stream 2000 in
   (\<forall>n. align_frame_cnt (runtime_stream_params (audio_stream_recalc_align src)) dvd n \<longleftrightarrow>
       frame_align_req src dvd n \<and> byte_align_req src dvd n * audio_stream_frame_bytes src) \<and>
     audio_stream_avail_frames_aligned (audio_stream_recalc_align src) snk * audio_stream_frame_bytes src
       \<le> audio_stream_get_avail_bytes src \<and>
     audio_stream_avail_frames_aligned (audio_stream_recalc_align src) snk * audio_stream_frame_bytes snk
       \<le> audio_stream_get_free_bytes snk"
  unfolding Let_def
  by (rule recalc_align_minimal)
    (simp_all add: demo_stream_def audio_stream_frame_bytes_def get_frame_bytes_def u32_def stream_align_ok_def
      audio_stream_get_avail_bytes_def audio_stream_get_free_bytes_def)

end
