(* ===== verification/SinkSource.thy ===== *)
theory SinkSource
  imports AudioStream_Props
begin

text \<open>
  The sink and source interfaces, \<^verbatim>\<open>src/module/audio/sink_api.c\<close>,
  \<^verbatim>\<open>src/module/audio/source_api.c\<close> and their private helpers, and
  \<^verbatim>\<open>source_to_sink_copy\<close> of \<^verbatim>\<open>src/audio/sink_source_utils.c\<close>. The tables of operations
  that an implementation provides are records of functions on its state.
\<close>

section \<open>Operation tables\<close>

text \<open>
  \<open>Inl\<close> is a C error code; a buffer is the triple of data pointer, start and size. The
  optional callbacks return the new state and the C result. The stream parameters are shared by
  pointer with the implementation: the table says where they live in its state.
\<close>

record 's sink_ops =
  get_free_size :: "'s \<Rightarrow> nat"
  get_buffer :: "'s \<Rightarrow> nat \<Rightarrow> int + (nat \<times> nat \<times> nat)"
  commit_buffer :: "'s \<Rightarrow> nat \<Rightarrow> ('s \<times> int) outcome"
  sk_on_audio_format_set :: "('s \<Rightarrow> 's \<times> int) option"
  sk_audio_set_ipc_params :: "('s \<Rightarrow> sof_ipc_stream_params \<Rightarrow> bool \<Rightarrow> 's \<times> int) option"
  sk_set_alignment_constants :: "('s \<Rightarrow> nat \<Rightarrow> nat \<Rightarrow> 's \<times> int) option"
  sk_params :: "'s \<Rightarrow> sof_audio_stream_params"
  sk_update_params :: "(sof_audio_stream_params \<Rightarrow> sof_audio_stream_params) \<Rightarrow> 's \<Rightarrow> 's"

record 's source_ops =
  get_data_available :: "'s \<Rightarrow> nat"
  get_data :: "'s \<Rightarrow> nat \<Rightarrow> int + (nat \<times> nat \<times> nat)"
  release_data :: "'s \<Rightarrow> nat \<Rightarrow> ('s \<times> int) outcome"
  so_on_audio_format_set :: "('s \<Rightarrow> 's \<times> int) option"
  so_audio_set_ipc_params :: "('s \<Rightarrow> sof_ipc_stream_params \<Rightarrow> bool \<Rightarrow> 's \<times> int) option"
  so_set_alignment_constants :: "('s \<Rightarrow> nat \<Rightarrow> nat \<Rightarrow> 's \<times> int) option"
  so_params :: "'s \<Rightarrow> sof_audio_stream_params"
  so_update_params :: "(sof_audio_stream_params \<Rightarrow> sof_audio_stream_params) \<Rightarrow> 's \<Rightarrow> 's"

record 's sof_sink =
  sk_impl :: 's
  requested_write_frag_size :: nat
  sk_num_of_bytes_processed :: nat
  min_free_space :: nat

record 's sof_source =
  so_impl :: 's
  requested_read_frag_size :: nat
  so_num_of_bytes_processed :: nat
  min_available :: nat

section \<open>Sink\<close>

text \<open>\<^verbatim>\<open>sink_init\<close> leaves the other fields of the structure as they are.\<close>

definition sink_init :: "'s sof_sink \<Rightarrow> 's \<Rightarrow> 's sof_sink" where
  "sink_init sink impl = sink\<lparr>sk_impl := impl\<rparr>"

definition sink_get_free_size :: "'s sink_ops \<Rightarrow> 's sof_sink \<Rightarrow> nat" where
  "sink_get_free_size ops sink = get_free_size ops (sk_impl sink)"

definition sink_get_buffer ::
    "'s sink_ops \<Rightarrow> 's sof_sink \<Rightarrow> nat \<Rightarrow> 's sof_sink \<times> (int + (nat \<times> nat \<times> nat))" where
  "sink_get_buffer ops sink req_size =
     (if requested_write_frag_size sink \<noteq> 0 then (sink, Inl (- EBUSY))
      else case get_buffer ops (sk_impl sink) req_size of
             Inl e \<Rightarrow> (sink, Inl e)
           | Inr b \<Rightarrow> (sink\<lparr>requested_write_frag_size := req_size\<rparr>, Inr b))"

definition sink_commit_buffer :: "'s sink_ops \<Rightarrow> 's sof_sink \<Rightarrow> nat \<Rightarrow> ('s sof_sink \<times> int) outcome" where
  "sink_commit_buffer ops sink commit_size =
     (if requested_write_frag_size sink = 0 then Done (sink, - ENODATA)
      else
        let n = (if requested_write_frag_size sink < commit_size then requested_write_frag_size sink else commit_size)
        in obind (commit_buffer ops (sk_impl sink) n)
             (\<lambda>(impl, ret).
                Done (sink\<lparr>sk_impl := impl,
                           requested_write_frag_size := (if ret = 0 then 0 else requested_write_frag_size sink),
                           sk_num_of_bytes_processed := u32 (sk_num_of_bytes_processed sink + n)\<rparr>, ret)))"

definition sink_update :: "'s sink_ops \<Rightarrow> (sof_audio_stream_params \<Rightarrow> sof_audio_stream_params) \<Rightarrow> 's sof_sink \<Rightarrow> 's sof_sink \<times> int" where
  "sink_update ops f sink =
     (let impl = sk_update_params ops f (sk_impl sink)
      in case sk_on_audio_format_set ops of
           None \<Rightarrow> (sink\<lparr>sk_impl := impl\<rparr>, 0)
         | Some g \<Rightarrow> (let (impl', ret) = g impl in (sink\<lparr>sk_impl := impl'\<rparr>, ret)))"

definition sink_set_frm_fmt :: "'s sink_ops \<Rightarrow> 's sof_sink \<Rightarrow> sof_ipc_frame \<Rightarrow> 's sof_sink \<times> int" where
  "sink_set_frm_fmt ops sink v = sink_update ops (\<lambda>p. p\<lparr>frame_fmt := v\<rparr>) sink"

definition sink_set_valid_fmt :: "'s sink_ops \<Rightarrow> 's sof_sink \<Rightarrow> sof_ipc_frame \<Rightarrow> 's sof_sink \<times> int" where
  "sink_set_valid_fmt ops sink v = sink_update ops (\<lambda>p. p\<lparr>valid_sample_fmt := v\<rparr>) sink"

definition sink_set_rate :: "'s sink_ops \<Rightarrow> 's sof_sink \<Rightarrow> nat \<Rightarrow> 's sof_sink \<times> int" where
  "sink_set_rate ops sink v = sink_update ops (\<lambda>p. p\<lparr>rate := v\<rparr>) sink"

definition sink_set_channels :: "'s sink_ops \<Rightarrow> 's sof_sink \<Rightarrow> nat \<Rightarrow> 's sof_sink \<times> int" where
  "sink_set_channels ops sink v = sink_update ops (\<lambda>p. p\<lparr>channels := u16 v\<rparr>) sink"

definition sink_set_buffer_fmt :: "'s sink_ops \<Rightarrow> 's sof_sink \<Rightarrow> nat \<Rightarrow> 's sof_sink \<times> int" where
  "sink_set_buffer_fmt ops sink v = sink_update ops (\<lambda>p. p\<lparr>buffer_fmt := v\<rparr>) sink"

definition sink_set_overrun :: "'s sink_ops \<Rightarrow> 's sof_sink \<Rightarrow> bool \<Rightarrow> 's sof_sink \<times> int" where
  "sink_set_overrun ops sink v = sink_update ops (\<lambda>p. p\<lparr>overrun_permitted := v\<rparr>) sink"

definition sink_set_params :: "'s sink_ops \<Rightarrow> 's sof_sink \<Rightarrow> sof_ipc_stream_params \<Rightarrow> bool \<Rightarrow> 's sof_sink \<times> int" where
  "sink_set_params ops sink params force_update =
     (case sk_audio_set_ipc_params ops of
        None \<Rightarrow> (sink, 0)
      | Some g \<Rightarrow> (let (impl, ret) = g (sk_impl sink) params force_update in (sink\<lparr>sk_impl := impl\<rparr>, ret)))"

definition sink_set_alignment_constants :: "'s sink_ops \<Rightarrow> 's sof_sink \<Rightarrow> nat \<Rightarrow> nat \<Rightarrow> 's sof_sink \<times> int" where
  "sink_set_alignment_constants ops sink byte_align frame_align =
     (case sk_set_alignment_constants ops of
        None \<Rightarrow> (sink, 0)
      | Some g \<Rightarrow> (let (impl, ret) = g (sk_impl sink) byte_align frame_align in (sink\<lparr>sk_impl := impl\<rparr>, ret)))"

definition sink_get_frame_bytes :: "'s sink_ops \<Rightarrow> 's sof_sink \<Rightarrow> nat" where
  "sink_get_frame_bytes ops sink =
     get_frame_bytes (frame_fmt (sk_params ops (sk_impl sink))) (channels (sk_params ops (sk_impl sink)))"

definition sink_get_free_frames :: "'s sink_ops \<Rightarrow> 's sof_sink \<Rightarrow> nat" where
  "sink_get_free_frames ops sink = sink_get_free_size ops sink div sink_get_frame_bytes ops sink"

definition sink_reset_num_of_processed_bytes :: "'s sof_sink \<Rightarrow> 's sof_sink" where
  "sink_reset_num_of_processed_bytes sink = sink\<lparr>sk_num_of_bytes_processed := 0\<rparr>"

definition sink_set_min_free_space :: "'s sof_sink \<Rightarrow> nat \<Rightarrow> 's sof_sink" where
  "sink_set_min_free_space sink n = sink\<lparr>min_free_space := n\<rparr>"

section \<open>Source\<close>

definition source_init :: "'s sof_source \<Rightarrow> 's \<Rightarrow> 's sof_source" where
  "source_init source impl = source\<lparr>so_impl := impl, requested_read_frag_size := 0\<rparr>"

definition source_get_data_available :: "'s source_ops \<Rightarrow> 's sof_source \<Rightarrow> nat" where
  "source_get_data_available ops source = get_data_available ops (so_impl source)"

definition source_get_data ::
    "'s source_ops \<Rightarrow> 's sof_source \<Rightarrow> nat \<Rightarrow> 's sof_source \<times> (int + (nat \<times> nat \<times> nat))" where
  "source_get_data ops source req_size =
     (if requested_read_frag_size source \<noteq> 0 then (source, Inl (- EBUSY))
      else case get_data ops (so_impl source) req_size of
             Inl e \<Rightarrow> (source, Inl e)
           | Inr b \<Rightarrow> (source\<lparr>requested_read_frag_size := req_size\<rparr>, Inr b))"

definition source_release_data :: "'s source_ops \<Rightarrow> 's sof_source \<Rightarrow> nat \<Rightarrow> ('s sof_source \<times> int) outcome" where
  "source_release_data ops source free_size =
     (if requested_read_frag_size source = 0 then Done (source, - ENODATA)
      else
        let n = (if requested_read_frag_size source < free_size then requested_read_frag_size source else free_size)
        in obind (release_data ops (so_impl source) n)
             (\<lambda>(impl, ret).
                Done (source\<lparr>so_impl := impl,
                             requested_read_frag_size := (if ret = 0 then 0 else requested_read_frag_size source),
                             so_num_of_bytes_processed := u32 (so_num_of_bytes_processed source + n)\<rparr>, ret)))"

definition source_update :: "'s source_ops \<Rightarrow> (sof_audio_stream_params \<Rightarrow> sof_audio_stream_params) \<Rightarrow> 's sof_source \<Rightarrow> 's sof_source \<times> int" where
  "source_update ops f source =
     (let impl = so_update_params ops f (so_impl source)
      in case so_on_audio_format_set ops of
           None \<Rightarrow> (source\<lparr>so_impl := impl\<rparr>, 0)
         | Some g \<Rightarrow> (let (impl', ret) = g impl in (source\<lparr>so_impl := impl'\<rparr>, ret)))"

definition source_set_frm_fmt :: "'s source_ops \<Rightarrow> 's sof_source \<Rightarrow> sof_ipc_frame \<Rightarrow> 's sof_source \<times> int" where
  "source_set_frm_fmt ops source v = source_update ops (\<lambda>p. p\<lparr>frame_fmt := v\<rparr>) source"

definition source_set_valid_fmt :: "'s source_ops \<Rightarrow> 's sof_source \<Rightarrow> sof_ipc_frame \<Rightarrow> 's sof_source \<times> int" where
  "source_set_valid_fmt ops source v = source_update ops (\<lambda>p. p\<lparr>valid_sample_fmt := v\<rparr>) source"

definition source_set_rate :: "'s source_ops \<Rightarrow> 's sof_source \<Rightarrow> nat \<Rightarrow> 's sof_source \<times> int" where
  "source_set_rate ops source v = source_update ops (\<lambda>p. p\<lparr>rate := v\<rparr>) source"

definition source_set_channels :: "'s source_ops \<Rightarrow> 's sof_source \<Rightarrow> nat \<Rightarrow> 's sof_source \<times> int" where
  "source_set_channels ops source v = source_update ops (\<lambda>p. p\<lparr>channels := u16 v\<rparr>) source"

definition source_set_buffer_fmt :: "'s source_ops \<Rightarrow> 's sof_source \<Rightarrow> nat \<Rightarrow> 's sof_source \<times> int" where
  "source_set_buffer_fmt ops source v = source_update ops (\<lambda>p. p\<lparr>buffer_fmt := v\<rparr>) source"

definition source_set_underrun :: "'s source_ops \<Rightarrow> 's sof_source \<Rightarrow> bool \<Rightarrow> 's sof_source \<times> int" where
  "source_set_underrun ops source v = source_update ops (\<lambda>p. p\<lparr>underrun_permitted := v\<rparr>) source"

definition source_set_params :: "'s source_ops \<Rightarrow> 's sof_source \<Rightarrow> sof_ipc_stream_params \<Rightarrow> bool \<Rightarrow> 's sof_source \<times> int" where
  "source_set_params ops source params force_update =
     (case so_audio_set_ipc_params ops of
        None \<Rightarrow> (source, 0)
      | Some g \<Rightarrow> (let (impl, ret) = g (so_impl source) params force_update in (source\<lparr>so_impl := impl\<rparr>, ret)))"

definition source_set_alignment_constants :: "'s source_ops \<Rightarrow> 's sof_source \<Rightarrow> nat \<Rightarrow> nat \<Rightarrow> 's sof_source \<times> int" where
  "source_set_alignment_constants ops source byte_align frame_align =
     (case so_set_alignment_constants ops of
        None \<Rightarrow> (source, 0)
      | Some g \<Rightarrow> (let (impl, ret) = g (so_impl source) byte_align frame_align in (source\<lparr>so_impl := impl\<rparr>, ret)))"

definition source_get_frame_bytes :: "'s source_ops \<Rightarrow> 's sof_source \<Rightarrow> nat" where
  "source_get_frame_bytes ops source =
     get_frame_bytes (frame_fmt (so_params ops (so_impl source))) (channels (so_params ops (so_impl source)))"

definition source_get_data_frames_available :: "'s source_ops \<Rightarrow> 's sof_source \<Rightarrow> nat" where
  "source_get_data_frames_available ops source =
     (let frame_bytes = source_get_frame_bytes ops source
      in if 0 < frame_bytes then source_get_data_available ops source div frame_bytes else 0)"

definition source_reset_num_of_processed_bytes :: "'s sof_source \<Rightarrow> 's sof_source" where
  "source_reset_num_of_processed_bytes source = source\<lparr>so_num_of_bytes_processed := 0\<rparr>"

definition source_set_min_available :: "'s sof_source \<Rightarrow> nat \<Rightarrow> 's sof_source" where
  "source_set_min_available source n = source\<lparr>min_available := n\<rparr>"

section \<open>Copying from a source to a sink\<close>

text \<open>The loop of \<^verbatim>\<open>source_to_sink_copy\<close>; a refused \<^verbatim>\<open>memcpy_s\<close> fails the assertion.\<close>

partial_function (option) to_sink_loop ::
    "nat \<Rightarrow> nat \<Rightarrow> nat \<Rightarrow> nat \<Rightarrow> memory \<Rightarrow> nat \<Rightarrow> nat \<Rightarrow> nat \<Rightarrow> memory outcome option" where
  "to_sink_loop src_begin src_end dst_begin dst_end mem src_ptr dst_ptr sz =
     (if sz = 0 then Some (Done mem)
      else
        let src_overlap = u32_sub src_end src_ptr;
            dst_overlap = u32_sub dst_end dst_ptr;
            to_copy = min (min src_overlap dst_overlap) sz;
            r = memcpy_s mem dst_ptr dst_overlap src_ptr to_copy
        in if snd r \<noteq> 0 then Some Panic
           else to_sink_loop src_begin src_end dst_begin dst_end (fst r)
                  (if to_copy = src_overlap then src_begin else u32 (src_ptr + to_copy))
                  (if to_copy = dst_overlap then dst_begin else u32 (dst_ptr + to_copy))
                  (sz - to_copy))"

definition INT_MAX :: nat where "INT_MAX = 2 ^ 31 - 1"

definition source_to_sink_copy ::
    "'a source_ops \<Rightarrow> 'b sink_ops \<Rightarrow> 'a sof_source \<Rightarrow> 'b sof_sink \<Rightarrow> bool \<Rightarrow> nat \<Rightarrow> memory
       \<Rightarrow> ('a sof_source \<times> 'b sof_sink \<times> memory \<times> int) outcome option" where
  "source_to_sink_copy so sk source sink do_free sz mem =
     (if sz = 0 then Some (Done (source, sink, mem, 0))
      else if source_get_data_available so source < sz then Some (Done (source, sink, mem, - EFBIG))
      else if sink_get_free_size sk sink < sz then Some (Done (source, sink, mem, - ENOSPC))
      else case source_get_data so source sz of
        (source1, Inl e) \<Rightarrow> Some (Done (source1, sink, mem, e))
      | (source1, Inr (src_ptr, src_begin, src_size)) \<Rightarrow>
         (case sink_get_buffer sk sink sz of
            (sink1, Inl e) \<Rightarrow>
              Some (obind (source_release_data so source1 0) (\<lambda>r. Done (fst r, sink1, mem, e)))
          | (sink1, Inr (dst_ptr, dst_begin, dst_size)) \<Rightarrow>
              map_option
                (\<lambda>res. obind res (\<lambda>mem'.
                   obind (source_release_data so source1 (if do_free then INT_MAX else 0)) (\<lambda>r.
                   obind (sink_commit_buffer sk sink1 INT_MAX) (\<lambda>k.
                     Done (fst r, fst k, mem', 0)))))
                (to_sink_loop src_begin (u32 (src_begin + src_size)) dst_begin (u32 (dst_begin + dst_size))
                   mem src_ptr dst_ptr sz)))"

end
