(* ===== verification/SinkSource_Props.thy ===== *)
theory SinkSource_Props
  imports SinkSource
begin

text \<open>
  The contracts of sinks and sources as locales, and the correctness of \<open>source_to_sink_copy\<close>
  for every pair of implementations that keeps them.
\<close>

section \<open>The copy loop\<close>

lemma to_sink_step:
  assumes s: "0 < ns" "as + ns + ns < 2 ^ 32" "as \<le> src" "src < as + ns" "0 < as"
    and d: "0 < nd" "ad + nd + nd < 2 ^ 32" "ad \<le> dst" "dst < ad + nd" "0 < ad"
    and disj: "as + ns \<le> ad \<or> ad + nd \<le> as"
    and b: "sz \<noteq> 0" and n: "n = min (min (as + ns - src) (ad + nd - dst)) sz"
  shows "to_sink_loop as (as + ns) ad (ad + nd) mem src dst sz =
     to_sink_loop as (as + ns) ad (ad + nd) (mem_copy mem dst src n) (ring_at as ns src n) (ring_at ad nd dst n) (sz - n)"
proof -
  have o: "u32_sub (as + ns) src = as + ns - src" "u32_sub (ad + nd) dst = ad + nd - dst"
    using s d by (auto intro: u32_sub_id)
  have n0: "0 < n" "n \<le> as + ns - src" "n \<le> ad + nd - dst" using n b s d by auto
  have m: "memcpy_s mem dst (ad + nd - dst) src n = (mem_copy mem dst src n, 0)"
    using s d disj n0 by (intro memcpy_s_disjoint) auto
  have "(if n = as + ns - src then as else u32 (src + n)) = ring_at as ns src n"
    using s n0 by (auto simp: ring_at_cases u32_id)
  moreover have "(if n = ad + nd - dst then ad else u32 (dst + n)) = ring_at ad nd dst n"
    using d n0 by (auto simp: ring_at_cases u32_id)
  ultimately show ?thesis
    unfolding to_sink_loop.simps [of as "as + ns" ad "ad + nd" mem src dst sz] Let_def o n [symmetric] m fst_conv snd_conv
    using b by simp
qed

lemma to_sink_loop_copied:
  assumes s: "0 < ns" "as + ns + ns < 2 ^ 32" "0 < as" and d: "0 < nd" "ad + nd + nd < 2 ^ 32" "0 < ad"
    and disj: "as + ns \<le> ad \<or> ad + nd \<le> as"
    and "as \<le> src" "src < as + ns" "ad \<le> dst" "dst < ad + nd" "sz \<le> nd"
  shows "\<exists>mem'. to_sink_loop as (as + ns) ad (ad + nd) mem src dst sz = Some (Done mem') \<and>
    copied as ns src ad nd dst sz mem mem'"
  using assms(8-)
proof (induction sz arbitrary: mem src dst rule: less_induct)
  case (less sz)
  show ?case
  proof (cases "sz = 0")
    case True
    then show ?thesis by (subst to_sink_loop.simps) (simp add: copied_def)
  next
    case False
    define n where "n = min (min (as + ns - src) (ad + nd - dst)) sz"
    let ?m = "mem_copy mem dst src n" and ?src = "ring_at as ns src n" and ?dst = "ring_at ad nd dst n"
    have n: "0 < n" "n \<le> sz" "src + n \<le> as + ns" "dst + n \<le> ad + nd"
      using less.prems False by (auto simp: n_def)
    have "sz - n < sz" "sz - n \<le> nd" using n less.prems by auto
    then obtain m' where m': "to_sink_loop as (as + ns) ad (ad + nd) ?m ?src ?dst (sz - n) = Some (Done m')"
      "copied as ns ?src ad nd ?dst (sz - n) ?m m'"
      using less.IH [of "sz - n" ?src ?dst ?m] ring_at_bounds [OF s(1)] ring_at_bounds [OF d(1)] by blast
    have "to_sink_loop as (as + ns) ad (ad + nd) mem src dst sz = Some (Done m')"
      using to_sink_step [OF s(1,2) less.prems(1,2) s(3) d(1,2) less.prems(3,4) d(3) disj False n_def] m'(1) by simp
    moreover have "copied as ns src ad nd dst sz mem m'"
      by (rule copied_compose [OF s(1) less.prems(1) n(3) d(1) less.prems(3) n(4) disj n(2) less.prems(5) n(1) m'(2)])
    ultimately show ?thesis by blast
  qed
qed

section \<open>Contracts\<close>

definition ring_geometry :: "nat \<times> nat \<Rightarrow> nat \<Rightarrow> bool" where
  "ring_geometry r p \<longleftrightarrow> 0 < fst r \<and> 0 < snd r \<and> fst r + snd r + snd r < 2 ^ 32 \<and> fst r \<le> p \<and> p < fst r + snd r"

locale sink_provider =
  fixes ops :: "'s sink_ops" and ok :: "'s \<Rightarrow> bool" and ring :: "'s \<Rightarrow> nat \<times> nat" and wpos :: "'s \<Rightarrow> nat"
    and queue :: "memory \<Rightarrow> 's \<Rightarrow> nat list"
  assumes sink_geometry: "ok s \<Longrightarrow> ring_geometry (ring s) (wpos s) \<and> get_free_size ops s \<le> snd (ring s)"
    and sink_get: "ok s \<Longrightarrow> get_buffer ops s n =
      (if get_free_size ops s < n then Inl (- ENODATA) else Inr (wpos s, ring s))"
    and sink_commit: "ok s \<Longrightarrow> length data \<le> get_free_size ops s \<Longrightarrow>
      ring_written (fst (ring s)) (snd (ring s)) (wpos s) data mem mem' \<Longrightarrow>
      \<exists>s'. commit_buffer ops s (length data) = Done (s', 0) \<and> ok s' \<and> ring s' = ring s \<and> queue mem' s' = queue mem s @ data"

locale source_provider =
  fixes ops :: "'s source_ops" and ok :: "'s \<Rightarrow> bool" and ring :: "'s \<Rightarrow> nat \<times> nat" and rpos :: "'s \<Rightarrow> nat"
    and queue :: "memory \<Rightarrow> 's \<Rightarrow> nat list"
  assumes source_geometry: "ok s \<Longrightarrow> ring_geometry (ring s) (rpos s)"
    and source_available: "ok s \<Longrightarrow> get_data_available ops s = length (queue mem s)"
    and source_at: "ok s \<Longrightarrow> i < length (queue mem s) \<Longrightarrow> queue mem s ! i = mem (ring_at (fst (ring s)) (snd (ring s)) (rpos s) i)"
    and source_get: "ok s \<Longrightarrow> get_data ops s n =
      (if get_data_available ops s < n then Inl (- ENODATA) else Inr (rpos s, ring s))"
    and source_release: "ok s \<Longrightarrow> n \<le> get_data_available ops s \<Longrightarrow>
      \<exists>s'. release_data ops s n = Done (s', 0) \<and> ok s' \<and> ring s' = ring s \<and> (\<forall>mem. queue mem s' = drop n (queue mem s))"
begin

lemma queue_local:
  assumes "ok s" and "\<forall>a. fst (ring s) \<le> a \<and> a < fst (ring s) + snd (ring s) \<longrightarrow> mem' a = mem a"
  shows "queue mem' s = queue mem s"
proof (rule nth_equalityI)
  show len: "length (queue mem' s) = length (queue mem s)"
    using source_available [OF assms(1), of mem] source_available [OF assms(1), of mem'] by simp
  fix i assume i: "i < length (queue mem' s)"
  have "0 < snd (ring s)" using source_geometry [OF assms(1)] by (simp add: ring_geometry_def)
  then have "mem' (ring_at (fst (ring s)) (snd (ring s)) (rpos s) i) = mem (ring_at (fst (ring s)) (snd (ring s)) (rpos s) i)"
    using assms(2) ring_at_bounds by blast
  then show "queue mem' s ! i = queue mem s ! i" using source_at [OF assms(1)] i len by simp
qed

end

section \<open>Copying\<close>

locale transfer =
  src: source_provider so src_ok src_ring rpos src_queue + snk: sink_provider sk snk_ok snk_ring wpos snk_queue
  for so :: "'a source_ops" and src_ok src_ring rpos src_queue
    and sk :: "'b sink_ops" and snk_ok snk_ring wpos snk_queue
begin

lemma copy_moves:
  fixes source :: "'a sof_source" and sink :: "'b sof_sink"
  defines "S \<equiv> so_impl source" and "K \<equiv> sk_impl sink"
  assumes ok: "src_ok S" "snk_ok K" and idle: "requested_read_frag_size source = 0" "requested_write_frag_size sink = 0"
    and disj: "fst (src_ring S) + snd (src_ring S) \<le> fst (snk_ring K) \<or> fst (snk_ring K) + snd (snk_ring K) \<le> fst (src_ring S)"
    and n: "0 < sz" "sz \<le> get_data_available so S" "sz \<le> get_free_size sk K" "sz \<le> INT_MAX"
  shows "\<exists>source' sink' mem'. source_to_sink_copy so sk source sink do_free sz mem = Some (Done (source', sink', mem', 0)) \<and>
    src_ok (so_impl source') \<and> snk_ok (sk_impl sink') \<and>
    requested_read_frag_size source' = 0 \<and> requested_write_frag_size sink' = 0 \<and>
    snk_queue mem' (sk_impl sink') = snk_queue mem K @ take sz (src_queue mem S) \<and>
    src_queue mem' (so_impl source') = (if do_free then drop sz (src_queue mem S) else src_queue mem S)"
proof -
  obtain as ns ad nd where r: "src_ring S = (as, ns)" "snk_ring K = (ad, nd)" by (metis surj_pair)
  have gs: "0 < as" "0 < ns" "as + ns + ns < 2 ^ 32" "as \<le> rpos S" "rpos S < as + ns"
    using src.source_geometry [OF ok(1)] r by (auto simp: ring_geometry_def)
  have gd: "0 < ad" "0 < nd" "ad + nd + nd < 2 ^ 32" "ad \<le> wpos K" "wpos K < ad + nd" "get_free_size sk K \<le> nd"
    using snk.sink_geometry [OF ok(2)] r by (auto simp: ring_geometry_def)
  have dj: "as + ns \<le> ad \<or> ad + nd \<le> as" and szn: "sz \<le> nd" using disj r n(3) gd(6) by auto
  obtain mem' where m: "to_sink_loop as (as + ns) ad (ad + nd) mem (rpos S) (wpos K) sz = Some (Done mem')"
    "copied as ns (rpos S) ad nd (wpos K) sz mem mem'"
    using to_sink_loop_copied [OF gs(2,3,1) gd(2,3,1) dj gs(4,5) gd(4,5) szn, of mem] by blast
  let ?data = "take sz (src_queue mem S)"
  have len: "length ?data = sz" using n(2) src.source_available [OF ok(1), of mem] by simp
  have kept: "src_queue mem' S = src_queue mem S"
  proof (intro src.queue_local [OF ok(1)] allI impI)
    fix a assume "fst (src_ring S) \<le> a \<and> a < fst (src_ring S) + snd (src_ring S)"
    then have "a \<noteq> ring_at ad nd (wpos K) i" for i
      using ring_at_bounds [OF gd(2), of ad "wpos K" i] dj r by auto
    then show "mem' a = mem a" using m(2) by (auto simp: copied_def)
  qed
  have "ring_written ad nd (wpos K) ?data mem mem'"
    using m(2) len src.source_at [OF ok(1), of _ mem] r by (auto simp: copied_def ring_written_def)
  then obtain K' where K': "commit_buffer sk K sz = Done (K', 0)" "snk_ok K'" "snk_queue mem' K' = snk_queue mem K @ ?data"
    using snk.sink_commit [OF ok(2), of ?data mem mem'] len n(3) r by auto
  let ?f = "if do_free then sz else 0"
  have le: "?f \<le> get_data_available so S" using n(2) by simp
  obtain S' where S': "release_data so S ?f = Done (S', 0)" "src_ok S'" "\<forall>mem. src_queue mem S' = drop ?f (src_queue mem S)"
    using src.source_release [OF ok(1) le] by blast
  have e: "u32 (as + ns) = as + ns" "u32 (ad + nd) = ad + nd" using gs gd by (auto intro: u32_id)
  have "source_to_sink_copy so sk source sink do_free sz mem = Some (Done
      (source\<lparr>so_impl := S', requested_read_frag_size := 0, so_num_of_bytes_processed := u32 (so_num_of_bytes_processed source + ?f)\<rparr>,
       sink\<lparr>sk_impl := K', requested_write_frag_size := 0, sk_num_of_bytes_processed := u32 (sk_num_of_bytes_processed sink + sz)\<rparr>,
       mem', 0))"
    using n idle m(1) S'(1) K'(1) e src.source_get [OF ok(1), of sz] snk.sink_get [OF ok(2), of sz] r
    unfolding S_def K_def
    by (auto simp: source_to_sink_copy_def source_get_data_available_def sink_get_free_size_def source_get_data_def
        sink_get_buffer_def source_release_data_def sink_commit_buffer_def Let_def not_less)
  then show ?thesis using S' K' kept by auto
qed

end
end
