(* ===== verification/DpQueue.thy ===== *)
theory DpQueue
  imports SinkSource_Props MmHeap
begin

text \<open>
  The queue between data-processing modules, \<^verbatim>\<open>src/audio/dp_queue.c\<close> and
  \<^verbatim>\<open>src/include/sof/audio/dp_queue.h\<close>. Offsets run over twice the buffer, so that equal offsets
  mean an empty queue and offsets one buffer apart a full one. Cache maintenance is modelled by the
  regions it names, creation and release by the allocator of \<open>MmHeap\<close>.
\<close>

definition DP_QUEUE_MODE_LOCAL :: nat where "DP_QUEUE_MODE_LOCAL = 0"
definition DP_QUEUE_MODE_SHARED :: nat where "DP_QUEUE_MODE_SHARED = 2"

text \<open>
  \<open>audio_stream_params\<close> is the vector that the pointer of the same name designates; the embedded
  interface handles \<^verbatim>\<open>_source_api\<close> and \<^verbatim>\<open>_sink_api\<close> keep their own fields, their operations act on the queue.
\<close>

record dp_queue =
  audio_stream_params :: sof_audio_stream_params
  data_buffer_size :: nat
  dq_source_api :: "unit sof_source"
  dq_sink_api :: "unit sof_sink"
  dq_flags :: nat
  data_buffer :: nat
  write_offset :: nat
  read_offset :: nat
  dq_hw_params_configured :: bool

section \<open>Helpers\<close>

definition dp_queue_buffer_end :: "dp_queue \<Rightarrow> nat" where
  "dp_queue_buffer_end q = u32 (data_buffer q + data_buffer_size q)"

definition dp_queue_is_shared :: "dp_queue \<Rightarrow> bool" where
  "dp_queue_is_shared q \<longleftrightarrow> dq_flags q AND DP_QUEUE_MODE_SHARED \<noteq> 0"

text \<open>The regions of the data cache that are invalidated or written back.\<close>

definition dp_queue_shared_regions :: "dp_queue \<Rightarrow> nat \<Rightarrow> nat \<Rightarrow> (nat \<times> nat) list" where
  "dp_queue_shared_regions q ptr sz =
     (if \<not> dp_queue_is_shared q then []
      else if dp_queue_buffer_end q < u32 (ptr + sz)
      then let head = u32_sub (dp_queue_buffer_end q) ptr
           in [(ptr, head), (data_buffer q, u32_sub sz head)]
      else [(ptr, sz)])"

definition dp_queue_get_pointer :: "dp_queue \<Rightarrow> nat \<Rightarrow> nat" where
  "dp_queue_get_pointer q offset =
     u32 (data_buffer q + (if data_buffer_size q \<le> offset then offset - data_buffer_size q else offset))"

definition dp_queue_inc_offset :: "dp_queue \<Rightarrow> nat \<Rightarrow> nat \<Rightarrow> nat outcome" where
  "dp_queue_inc_offset q offset inc =
     (if data_buffer_size q < inc then Panic
      else
        let off = u32 (offset + inc); twice = u32 (2 * data_buffer_size q)
        in Done (if twice \<le> off then off - twice else off))"

definition dp_queue_data_available :: "dp_queue \<Rightarrow> nat" where
  "dp_queue_data_available q =
     (let avail_data = s32 (int (write_offset q) - int (read_offset q));
          avail = (if avail_data < 0 then s32 (int (2 * data_buffer_size q) + avail_data) else avail_data)
      in nat (avail mod 2 ^ 32))"

section \<open>Sink and source operations\<close>

definition dp_queue_get_free_size :: "dp_queue \<Rightarrow> nat" where
  "dp_queue_get_free_size q = u32_sub (data_buffer_size q) (dp_queue_data_available q)"

definition dp_queue_get_buffer :: "dp_queue \<Rightarrow> nat \<Rightarrow> int + (nat \<times> nat \<times> nat)" where
  "dp_queue_get_buffer q req_size =
     (if dp_queue_get_free_size q < req_size then Inl (- ENODATA)
      else Inr (dp_queue_get_pointer q (write_offset q), data_buffer q, data_buffer_size q))"

definition dp_queue_commit_buffer :: "dp_queue \<Rightarrow> nat \<Rightarrow> (dp_queue \<times> int) outcome" where
  "dp_queue_commit_buffer q commit_size =
     (if commit_size \<noteq> 0
      then obind (dp_queue_inc_offset q (write_offset q) commit_size) (\<lambda>off. Done (q\<lparr>write_offset := off\<rparr>, 0))
      else Done (q, 0))"

text \<open>The region that \<^verbatim>\<open>dp_queue_commit_buffer\<close> writes back before it moves the offset.\<close>

definition dp_queue_commit_writeback :: "dp_queue \<Rightarrow> nat \<Rightarrow> (nat \<times> nat) list" where
  "dp_queue_commit_writeback q commit_size =
     (if commit_size \<noteq> 0
      then dp_queue_shared_regions q (dp_queue_get_pointer q (write_offset q)) commit_size else [])"

definition dp_queue_get_data :: "dp_queue \<Rightarrow> nat \<Rightarrow> int + (nat \<times> nat \<times> nat)" where
  "dp_queue_get_data q req_size =
     (if dp_queue_data_available q < req_size then Inl (- ENODATA)
      else Inr (dp_queue_get_pointer q (read_offset q), data_buffer q, data_buffer_size q))"

definition dp_queue_get_data_invalidate :: "dp_queue \<Rightarrow> nat \<Rightarrow> (nat \<times> nat) list" where
  "dp_queue_get_data_invalidate q req_size =
     (if dp_queue_data_available q < req_size then []
      else dp_queue_shared_regions q (dp_queue_get_pointer q (read_offset q)) req_size)"

definition dp_queue_release_data :: "dp_queue \<Rightarrow> nat \<Rightarrow> (dp_queue \<times> int) outcome" where
  "dp_queue_release_data q free_size =
     (if free_size \<noteq> 0
      then obind (dp_queue_inc_offset q (read_offset q) free_size) (\<lambda>off. Done (q\<lparr>read_offset := off\<rparr>, 0))
      else Done (q, 0))"

definition dp_queue_set_ipc_params :: "dp_queue \<Rightarrow> sof_ipc_stream_params \<Rightarrow> bool \<Rightarrow> dp_queue \<times> int" where
  "dp_queue_set_ipc_params q params force_update =
     (if dq_hw_params_configured q \<and> \<not> force_update then (q, 0)
      else (q\<lparr>audio_stream_params := (audio_stream_params q)
                \<lparr>frame_fmt := ipc_frame_fmt params, rate := ipc_rate params, channels := ipc_channels params,
                 buffer_fmt := ipc_buffer_fmt params\<rparr>,
              dq_hw_params_configured := True\<rparr>, 0))"

definition dp_queue_source_ops :: "dp_queue source_ops" where
  "dp_queue_source_ops = \<lparr>get_data_available = dp_queue_data_available, get_data = dp_queue_get_data,
     release_data = dp_queue_release_data, so_on_audio_format_set = None,
     so_audio_set_ipc_params = Some dp_queue_set_ipc_params, so_set_alignment_constants = None,
     so_params = audio_stream_params, so_update_params = (\<lambda>f. audio_stream_params_update f)\<rparr>"

definition dp_queue_sink_ops :: "dp_queue sink_ops" where
  "dp_queue_sink_ops = \<lparr>get_free_size = dp_queue_get_free_size, get_buffer = dp_queue_get_buffer,
     commit_buffer = dp_queue_commit_buffer, sk_on_audio_format_set = None,
     sk_audio_set_ipc_params = Some dp_queue_set_ipc_params, sk_set_alignment_constants = None,
     sk_params = audio_stream_params, sk_update_params = (\<lambda>f. audio_stream_params_update f)\<rparr>"

section \<open>Handles\<close>

text \<open>
  A handle is the embedded interface structure together with the queue it belongs to, as
  \<^verbatim>\<open>container_of\<close> finds it; storing the handle back is what its operations do in place.
\<close>

definition dp_queue_get_source :: "dp_queue \<Rightarrow> dp_queue sof_source" where
  "dp_queue_get_source q = \<lparr>so_impl = q, requested_read_frag_size = requested_read_frag_size (dq_source_api q),
     so_num_of_bytes_processed = so_num_of_bytes_processed (dq_source_api q), min_available = min_available (dq_source_api q)\<rparr>"

definition dp_queue_get_sink :: "dp_queue \<Rightarrow> dp_queue sof_sink" where
  "dp_queue_get_sink q = \<lparr>sk_impl = q, requested_write_frag_size = requested_write_frag_size (dq_sink_api q),
     sk_num_of_bytes_processed = sk_num_of_bytes_processed (dq_sink_api q), min_free_space = min_free_space (dq_sink_api q)\<rparr>"

definition unit_source :: "'s sof_source \<Rightarrow> unit sof_source" where
  "unit_source h = \<lparr>so_impl = (), requested_read_frag_size = requested_read_frag_size h,
     so_num_of_bytes_processed = so_num_of_bytes_processed h, min_available = min_available h\<rparr>"

definition unit_sink :: "'s sof_sink \<Rightarrow> unit sof_sink" where
  "unit_sink h = \<lparr>sk_impl = (), requested_write_frag_size = requested_write_frag_size h,
     sk_num_of_bytes_processed = sk_num_of_bytes_processed h, min_free_space = min_free_space h\<rparr>"

definition dp_queue_put_source :: "dp_queue sof_source \<Rightarrow> dp_queue" where
  "dp_queue_put_source h = (so_impl h)\<lparr>dq_source_api := unit_source h\<rparr>"

definition dp_queue_put_sink :: "dp_queue sof_sink \<Rightarrow> dp_queue" where
  "dp_queue_put_sink h = (sk_impl h)\<lparr>dq_sink_api := unit_sink h\<rparr>"

section \<open>Creation and release\<close>

text \<open>The interface structures as \<^verbatim>\<open>rzalloc\<close> leaves them.\<close>

definition zero_source :: "unit sof_source" where
  "zero_source = \<lparr>so_impl = (), requested_read_frag_size = 0, so_num_of_bytes_processed = 0, min_available = 0\<rparr>"

definition zero_sink :: "unit sof_sink" where
  "zero_sink = \<lparr>sk_impl = (), requested_write_frag_size = 0, sk_num_of_bytes_processed = 0, min_free_space = 0\<rparr>"

text \<open>\<open>sz\<close> is \<^verbatim>\<open>sizeof(struct dp_queue)\<close>; the result is \<open>None\<close> for \<^verbatim>\<open>NULL\<close>, or the address of the structure and its value.\<close>

definition dp_queue_create ::
    "platform \<Rightarrow> nat \<Rightarrow> nat \<Rightarrow> mm \<times> memory \<Rightarrow> nat \<Rightarrow> nat \<Rightarrow> nat \<Rightarrow> nat \<Rightarrow> sof_audio_stream_params
       \<Rightarrow> ((mm \<times> memory) \<times> (nat \<times> dp_queue) option) outcome" where
  "dp_queue_create p core sz st min_avail min_free flags ident params =
     obind (rzalloc p core (if flags AND DP_QUEUE_MODE_SHARED \<noteq> 0 then SOF_MEM_ZONE_RUNTIME_SHARED else SOF_MEM_ZONE_RUNTIME)
              st 1 sz)
       (\<lambda>(st1, dp_ptr).
          if dp_ptr = 0 then Done (st1, None)
          else
            let size1 = ALIGN_UP (u32 (2 * max min_avail min_free)) (PLATFORM_DCACHE_ALIGN p)
            in obind (rballoc_align p (fst st1) 0 0 size1 (PLATFORM_DCACHE_ALIGN p))
                 (\<lambda>(mm2, buf).
                    if buf = 0 then obind (rfree p core mm2 dp_ptr) (\<lambda>mm3. Done ((mm3, snd st1), None))
                    else Done ((mm2, snd st1), Some (dp_ptr,
                      \<lparr>audio_stream_params = params\<lparr>sp_id := ident\<rparr>, data_buffer_size = size1,
                       dq_source_api = source_set_min_available (source_init zero_source ()) min_avail,
                       dq_sink_api = sink_set_min_free_space (sink_init zero_sink ()) min_free,
                       dq_flags = flags, data_buffer = buf, write_offset = 0, read_offset = 0,
                       dq_hw_params_configured = False\<rparr>))))"

definition dp_queue_free :: "platform \<Rightarrow> nat \<Rightarrow> mm \<Rightarrow> (nat \<times> dp_queue) option \<Rightarrow> mm outcome" where
  "dp_queue_free p core mm dp =
     (case dp of
        None \<Rightarrow> Done mm
      | Some (dp_ptr, q) \<Rightarrow> obind (rfree p core mm (data_buffer q)) (\<lambda>mm1. rfree p core mm1 dp_ptr))"

end
