(* ===== verification/DpQueue_Props.thy ===== *)
theory DpQueue_Props
  imports DpQueue
begin

text \<open>
  The dp_queue as a byte queue: its invariant, the double-area offsets against the ring, and the
  sink and source contracts.
\<close>

section \<open>The invariant\<close>

definition dq_level :: "dp_queue \<Rightarrow> nat" where
  "dq_level q = (write_offset q + (2 * data_buffer_size q - read_offset q)) mod (2 * data_buffer_size q)"

definition dq_ok :: "dp_queue \<Rightarrow> bool" where
  "dq_ok q \<longleftrightarrow> 0 < data_buffer q \<and> 0 < data_buffer_size q \<and> 2 * data_buffer_size q < 2 ^ 31 \<and>
     data_buffer q + 2 * data_buffer_size q < 2 ^ 32 \<and>
     read_offset q < 2 * data_buffer_size q \<and> write_offset q < 2 * data_buffer_size q \<and> dq_level q \<le> data_buffer_size q"

definition dq_pos :: "dp_queue \<Rightarrow> nat \<Rightarrow> nat" where
  "dq_pos q off = ring_at (data_buffer q) (data_buffer_size q) (data_buffer q) off"

definition dq_queue :: "memory \<Rightarrow> dp_queue \<Rightarrow> nat list" where
  "dq_queue mem q = ring_bytes mem (data_buffer q) (data_buffer_size q) (dq_pos q (read_offset q)) (dq_level q)"

abbreviation dq_ring :: "dp_queue \<Rightarrow> nat \<times> nat" where
  "dq_ring q \<equiv> (data_buffer q, data_buffer_size q)"

lemma dq_okD:
  assumes "dq_ok q"
  shows "0 < data_buffer q" "0 < data_buffer_size q" "2 * data_buffer_size q < 2 ^ 31"
    "data_buffer q + 2 * data_buffer_size q < 2 ^ 32"
    "read_offset q < 2 * data_buffer_size q" "write_offset q < 2 * data_buffer_size q" "dq_level q \<le> data_buffer_size q"
  using assms by (auto simp: dq_ok_def)

text \<open>The level in closed form, and the write offset that a level determines.\<close>

lemma dq_level_cases:
  assumes "read_offset q < 2 * data_buffer_size q" and "write_offset q < 2 * data_buffer_size q"
  shows "dq_level q = (if read_offset q \<le> write_offset q then write_offset q - read_offset q
    else 2 * data_buffer_size q + write_offset q - read_offset q)"
  using assms mod_small_twice [of "write_offset q + (2 * data_buffer_size q - read_offset q)" "2 * data_buffer_size q"]
  unfolding dq_level_def by auto

lemma write_offset_level:
  assumes "read_offset q < 2 * data_buffer_size q" and "write_offset q < 2 * data_buffer_size q"
  shows "write_offset q = (read_offset q + dq_level q) mod (2 * data_buffer_size q)"
  using assms by (auto simp: dq_level_cases mod_if)

lemma data_available_level:
  assumes "dq_ok q"
  shows "dp_queue_data_available q = dq_level q"
proof -
  note D = dq_okD [OF assms]
  have "s32 (int (write_offset q) - int (read_offset q)) = int (write_offset q) - int (read_offset q)"
    using D by (intro s32_id) auto
  moreover have "s32 (int (2 * data_buffer_size q) + (int (write_offset q) - int (read_offset q))) =
      int (2 * data_buffer_size q) + (int (write_offset q) - int (read_offset q))" if "write_offset q < read_offset q"
    using D that by (intro s32_id) auto
  ultimately show ?thesis
    using D unfolding dp_queue_data_available_def Let_def dq_level_cases [OF D(5,6)]
    by (auto simp: nat_diff_distrib' nat_add_distrib)
qed

lemma free_size_level: "dq_ok q \<Longrightarrow> dp_queue_get_free_size q = data_buffer_size q - dq_level q"
  using dq_okD [of q] unfolding dp_queue_get_free_size_def by (subst u32_sub_id) (auto simp: data_available_level)

lemma get_pointer_pos:
  assumes "dq_ok q" and "off < 2 * data_buffer_size q"
  shows "dp_queue_get_pointer q off = dq_pos q off"
proof -
  note D = dq_okD [OF assms(1)]
  have "u32 (data_buffer q + (if data_buffer_size q \<le> off then off - data_buffer_size q else off)) =
      data_buffer q + (if data_buffer_size q \<le> off then off - data_buffer_size q else off)"
    using D assms(2) by (intro u32_id) auto
  then show ?thesis
    using assms(2) mod_small_twice [of off "data_buffer_size q"]
    by (simp add: dp_queue_get_pointer_def dq_pos_def ring_at_def)
qed

lemma inc_offset_mod:
  assumes "dq_ok q" and "off < 2 * data_buffer_size q" and "n \<le> data_buffer_size q"
  shows "dp_queue_inc_offset q off n = Done ((off + n) mod (2 * data_buffer_size q))"
proof -
  note D = dq_okD [OF assms(1)]
  have "u32 (off + n) = off + n" "u32 (2 * data_buffer_size q) = 2 * data_buffer_size q"
    using D assms(2,3) by (auto intro: u32_id)
  then show ?thesis
    using assms(2,3) mod_small_twice [of "off + n" "2 * data_buffer_size q"]
    by (simp add: dp_queue_inc_offset_def)
qed

lemma dq_pos_wrap: "dq_pos q (off mod (2 * data_buffer_size q)) = dq_pos q off"
  by (simp add: dq_pos_def ring_at_def mod_mod_cancel)

lemma dq_pos_add: "ring_at (data_buffer q) (data_buffer_size q) (dq_pos q off) n = dq_pos q (off + n)"
  by (simp add: dq_pos_def ring_at_plus)

lemma level_advance:
  fixes r :: nat
  assumes "r < 2 * s" and "l \<le> s" and "0 < s"
  shows "((r + l) mod (2 * s) + (2 * s - r)) mod (2 * s) = l"
proof -
  have "((r + l) mod (2 * s) + (2 * s - r)) mod (2 * s) = (r + l + (2 * s - r)) mod (2 * s)" by (simp add: mod_simps)
  also have "r + l + (2 * s - r) = l + 2 * s" using assms(1) by simp
  finally show ?thesis using assms by simp
qed

section \<open>Writing and reading\<close>

lemma commit_appends:
  assumes ok: "dq_ok q" and n: "n \<le> dp_queue_get_free_size q"
  shows "\<exists>q'. dp_queue_commit_buffer q n = Done (q', 0) \<and> dq_ok q' \<and> dq_level q' = dq_level q + n \<and>
    q' = q\<lparr>write_offset := write_offset q'\<rparr>"
proof (cases "n = 0")
  case True
  with ok show ?thesis by (simp add: dp_queue_commit_buffer_def)
next
  case False
  note D = dq_okD [OF ok]
  let ?q = "q\<lparr>write_offset := (write_offset q + n) mod (2 * data_buffer_size q)\<rparr>"
  have le: "dq_level q + n \<le> data_buffer_size q" using n D by (simp add: free_size_level [OF ok])
  have "(write_offset q + n) mod (2 * data_buffer_size q) = (read_offset q + (dq_level q + n)) mod (2 * data_buffer_size q)"
    using write_offset_level [OF D(5,6)] by (metis add.assoc mod_add_left_eq)
  then have lvl: "dq_level ?q = dq_level q + n"
    using level_advance [OF D(5) le D(2)] by (simp add: dq_level_def)
  have "dq_ok ?q" using D le lvl unfolding dq_ok_def by simp
  with inc_offset_mod [OF ok D(6), of n] lvl le False show ?thesis by (auto simp: dp_queue_commit_buffer_def)
qed

lemma queue_release_drops:
  assumes ok: "dq_ok q" and n: "n \<le> dq_level q"
  shows "\<exists>q'. dp_queue_release_data q n = Done (q', 0) \<and> dq_ok q' \<and> dq_level q' = dq_level q - n \<and>
    dq_pos q' (read_offset q') = dq_pos q (read_offset q + n) \<and> q' = q\<lparr>read_offset := read_offset q'\<rparr>"
proof (cases "n = 0")
  case True
  with ok show ?thesis by (simp add: dp_queue_release_data_def)
next
  case False
  note D = dq_okD [OF ok]
  let ?r = "(read_offset q + n) mod (2 * data_buffer_size q)"
  let ?q = "q\<lparr>read_offset := ?r\<rparr>"
  have r: "?r < 2 * data_buffer_size q" using D(2) by simp
  have "write_offset q = (?r + (dq_level q - n)) mod (2 * data_buffer_size q)"
    using write_offset_level [OF D(5,6)] n mod_add_left_eq [of "read_offset q + n" "2 * data_buffer_size q" "dq_level q - n"]
    by simp
  then have lvl: "dq_level ?q = dq_level q - n"
    using level_advance [OF r, of "dq_level q - n"] D(2,7) by (simp add: dq_level_def)
  have "dq_ok ?q" using D r lvl unfolding dq_ok_def by simp
  moreover have "dq_pos ?q ?r = dq_pos q (read_offset q + n)" by (simp add: dq_pos_def ring_at_def mod_mod_cancel)
  ultimately show ?thesis
    using inc_offset_mod [OF ok D(5), of n] lvl n D(7) False by (auto simp: dp_queue_release_data_def)
qed

lemma write_pos: "dq_ok q \<Longrightarrow> dq_pos q (write_offset q) = dq_pos q (read_offset q + dq_level q)"
  using dq_okD(5,6) write_offset_level dq_pos_wrap by metis

section \<open>The contracts\<close>

lemma dq_geometry: "dq_ok q \<Longrightarrow> ring_geometry (dq_ring q) (dq_pos q off)"
  using dq_okD [of q] ring_at_bounds [of "data_buffer_size q" "data_buffer q" "data_buffer q" off]
  by (auto simp: ring_geometry_def dq_pos_def)

interpretation dq_sink: sink_provider dp_queue_sink_ops dq_ok dq_ring "\<lambda>q. dq_pos q (write_offset q)" dq_queue
proof
  show "dq_ok q \<Longrightarrow> ring_geometry (dq_ring q) (dq_pos q (write_offset q)) \<and>
      get_free_size dp_queue_sink_ops q \<le> snd (dq_ring q)" for q
    using dq_geometry by (simp add: dp_queue_sink_ops_def free_size_level)
  show "dq_ok q \<Longrightarrow> get_buffer dp_queue_sink_ops q n =
      (if get_free_size dp_queue_sink_ops q < n then Inl (- ENODATA) else Inr (dq_pos q (write_offset q), dq_ring q))" for q n
    using dq_okD(6) [of q] by (simp add: dp_queue_sink_ops_def dp_queue_get_buffer_def get_pointer_pos)
  show "\<exists>q'. commit_buffer dp_queue_sink_ops q (length data) = Done (q', 0) \<and> dq_ok q' \<and> dq_ring q' = dq_ring q \<and>
      dq_queue mem' q' = dq_queue mem q @ data"
    if ok: "dq_ok q" and fr: "length data \<le> get_free_size dp_queue_sink_ops q"
      and wr: "ring_written (fst (dq_ring q)) (snd (dq_ring q)) (dq_pos q (write_offset q)) data mem mem'" for q data mem mem'
  proof -
    have free: "length data \<le> dp_queue_get_free_size q" using fr by (simp add: dp_queue_sink_ops_def)
    obtain q' where q': "dp_queue_commit_buffer q (length data) = Done (q', 0)" "dq_ok q'"
      "dq_level q' = dq_level q + length data" "q' = q\<lparr>write_offset := write_offset q'\<rparr>"
      using commit_appends [OF ok free] by blast
    have e: "dq_ring q' = dq_ring q" "read_offset q' = read_offset q" by (subst q'(4), simp)+
    have "dq_level q + length data \<le> data_buffer_size q"
      using free dq_okD(7) [OF ok] by (simp add: free_size_level [OF ok])
    then have "dq_queue mem' q' = dq_queue mem q @ data"
      using ring_bytes_written [of "data_buffer q" "data_buffer_size q" "dq_pos q (read_offset q)" "dq_level q" data mem mem']
        wr write_pos [OF ok] e q'(3)
      by (simp add: dq_queue_def dq_pos_def ring_at_plus)
    with q' e show ?thesis by (auto simp: dp_queue_sink_ops_def)
  qed
qed

interpretation dq_source: source_provider dp_queue_source_ops dq_ok dq_ring "\<lambda>q. dq_pos q (read_offset q)" dq_queue
proof
  show "dq_ok q \<Longrightarrow> ring_geometry (dq_ring q) (dq_pos q (read_offset q))" for q by (rule dq_geometry)
  show "dq_ok q \<Longrightarrow> get_data_available dp_queue_source_ops q = length (dq_queue mem q)" for q mem
    by (simp add: dp_queue_source_ops_def dq_queue_def data_available_level)
  show "dq_ok q \<Longrightarrow> i < length (dq_queue mem q) \<Longrightarrow>
      dq_queue mem q ! i = mem (ring_at (fst (dq_ring q)) (snd (dq_ring q)) (dq_pos q (read_offset q)) i)" for q i mem
    by (simp add: dq_queue_def ring_bytes_nth)
  show "dq_ok q \<Longrightarrow> get_data dp_queue_source_ops q n =
      (if get_data_available dp_queue_source_ops q < n then Inl (- ENODATA) else Inr (dq_pos q (read_offset q), dq_ring q))" for q n
    using dq_okD(5) [of q] by (simp add: dp_queue_source_ops_def dp_queue_get_data_def get_pointer_pos)
  show "\<exists>q'. release_data dp_queue_source_ops q n = Done (q', 0) \<and> dq_ok q' \<and> dq_ring q' = dq_ring q \<and>
      (\<forall>mem. dq_queue mem q' = drop n (dq_queue mem q))"
    if ok: "dq_ok q" and av: "n \<le> get_data_available dp_queue_source_ops q" for q n
  proof -
    have "n \<le> dq_level q" using ok av by (simp add: dp_queue_source_ops_def data_available_level)
    then obtain q' where q': "dp_queue_release_data q n = Done (q', 0)" "dq_ok q'" "dq_level q' = dq_level q - n"
      "dq_pos q' (read_offset q') = dq_pos q (read_offset q + n)" "q' = q\<lparr>read_offset := read_offset q'\<rparr>"
      using queue_release_drops [OF ok] by blast
    have e: "dq_ring q' = dq_ring q"
      using arg_cong [OF q'(5), of data_buffer] arg_cong [OF q'(5), of data_buffer_size] by simp
    have "dq_queue mem q' = drop n (dq_queue mem q)" for mem
      unfolding dq_queue_def q'(3,4) using e ring_bytes_drop dq_pos_add by (metis prod.inject)
    with q' e show ?thesis by (auto simp: dp_queue_source_ops_def)
  qed
qed

end
