(* ===== verification/Notifier.thy ===== *)
theory Notifier
  imports MmHeap
begin

text \<open>
  The event notifier, \<^verbatim>\<open>src/lib/notifier.c\<close>: callback handles per event type, registration,
  removal and delivery on one core and across cores. Handle lists are plain lists, which the linked
  lists of the source implement. A delivery is the call of a callback; what callbacks do is not modelled.
\<close>

section \<open>State\<close>

definition NOTIFIER_ID_CPU_FREQ :: nat where "NOTIFIER_ID_CPU_FREQ = 0"
definition NOTIFIER_ID_KPB_CLIENT_EVT :: nat where "NOTIFIER_ID_KPB_CLIENT_EVT = 2"
definition NOTIFIER_ID_BUFFER_PRODUCE :: nat where "NOTIFIER_ID_BUFFER_PRODUCE = 4"
definition NOTIFIER_ID_BUFFER_CONSUME :: nat where "NOTIFIER_ID_BUFFER_CONSUME = 5"
definition NOTIFIER_ID_BUFFER_FREE :: nat where "NOTIFIER_ID_BUFFER_FREE = 6"
definition NOTIFIER_ID_COUNT :: nat where "NOTIFIER_ID_COUNT = 11"

lemmas notifier_ids = NOTIFIER_ID_CPU_FREQ_def NOTIFIER_ID_KPB_CLIENT_EVT_def NOTIFIER_ID_BUFFER_PRODUCE_def
  NOTIFIER_ID_BUFFER_CONSUME_def NOTIFIER_ID_BUFFER_FREE_def NOTIFIER_ID_COUNT_def

definition NOTIFIER_FLAG_AGGREGATE :: nat where "NOTIFIER_FLAG_AGGREGATE = 1"

text \<open>\<open>hd_ptr\<close> is the address of the handle, \<open>hd_cb\<close> names the callback function.\<close>

record callback_handle =
  hd_ptr :: nat
  receiver :: nat
  caller :: nat
  hd_cb :: nat
  num_registrations :: nat

type_synonym notify = "nat \<Rightarrow> callback_handle list"

record notify_data =
  nd_caller :: nat
  nd_type :: nat
  nd_data :: nat
  nd_data_size :: nat

text \<open>A call of a callback: function, receiver, event type and data.\<close>

type_synonym delivery = "nat \<times> nat \<times> nat \<times> nat"

section \<open>Registration\<close>

definition notifier_register ::
    "platform \<Rightarrow> nat \<Rightarrow> nat \<Rightarrow> (mm \<times> memory) \<Rightarrow> notify \<Rightarrow> nat \<Rightarrow> nat \<Rightarrow> nat \<Rightarrow> nat \<Rightarrow> nat \<Rightarrow> ((mm \<times> memory) \<times> notify \<times> int) outcome" where
  "notifier_register p core handle_size st ns recv clr typ cb flags =
     (if \<not> typ < NOTIFIER_ID_COUNT then Panic
      else if flags AND NOTIFIER_FLAG_AGGREGATE \<noteq> 0 \<and> ns typ \<noteq> [] then
        let h = hd (ns typ)
        in Done (st, ns(typ := h\<lparr>num_registrations := u32 (num_registrations h + 1)\<rparr> # tl (ns typ)), 0)
      else obind (rzalloc p core SOF_MEM_ZONE_SYS_RUNTIME st 1 handle_size)
             (\<lambda>(st1, ptr).
                if ptr = 0 then Done (st1, ns, - ENOMEM)
                else Done (st1, ns(typ := \<lparr>hd_ptr = ptr, receiver = recv, caller = clr, hd_cb = cb,
                                           num_registrations = 1\<rparr> # ns typ), 0)))"

definition handle_matches :: "nat \<Rightarrow> nat \<Rightarrow> callback_handle \<Rightarrow> bool" where
  "handle_matches recv clr h \<longleftrightarrow> (recv = 0 \<or> receiver h = recv) \<and> (clr = 0 \<or> caller h = clr)"

text \<open>The loop of \<^verbatim>\<open>notifier_unregister\<close>: the handles that stay and the addresses that are freed.\<close>

fun unregister_loop :: "nat \<Rightarrow> nat \<Rightarrow> callback_handle list \<Rightarrow> callback_handle list \<times> nat list" where
  "unregister_loop recv clr [] = ([], [])"
| "unregister_loop recv clr (h # hs) =
     (let (kept, freed) = unregister_loop recv clr hs
      in if handle_matches recv clr h
         then let n = u32_sub (num_registrations h) 1
              in if n = 0 then (kept, hd_ptr h # freed) else (h\<lparr>num_registrations := n\<rparr> # kept, freed)
         else (h # kept, freed))"

fun rfree_all :: "platform \<Rightarrow> nat \<Rightarrow> mm \<Rightarrow> nat list \<Rightarrow> mm outcome" where
  "rfree_all p core mm [] = Done mm"
| "rfree_all p core mm (q # qs) = obind (rfree p core mm q) (\<lambda>mm1. rfree_all p core mm1 qs)"

definition notifier_unregister :: "platform \<Rightarrow> nat \<Rightarrow> mm \<Rightarrow> notify \<Rightarrow> nat \<Rightarrow> nat \<Rightarrow> nat \<Rightarrow> (mm \<times> notify) outcome" where
  "notifier_unregister p core mm ns recv clr typ =
     (if \<not> typ < NOTIFIER_ID_COUNT then Panic
      else let (kept, freed) = unregister_loop recv clr (ns typ)
           in obind (rfree_all p core mm freed) (\<lambda>mm1. Done (mm1, ns(typ := kept))))"

fun unregister_types :: "platform \<Rightarrow> nat \<Rightarrow> mm \<Rightarrow> notify \<Rightarrow> nat \<Rightarrow> nat \<Rightarrow> nat list \<Rightarrow> (mm \<times> notify) outcome" where
  "unregister_types p core mm ns recv clr [] = Done (mm, ns)"
| "unregister_types p core mm ns recv clr (t # ts) =
     obind (notifier_unregister p core mm ns recv clr t) (\<lambda>(mm1, ns1). unregister_types p core mm1 ns1 recv clr ts)"

definition notifier_unregister_all :: "platform \<Rightarrow> nat \<Rightarrow> mm \<Rightarrow> notify \<Rightarrow> nat \<Rightarrow> nat \<Rightarrow> (mm \<times> notify) outcome" where
  "notifier_unregister_all p core mm ns recv clr =
     unregister_types p core mm ns recv clr [NOTIFIER_ID_CPU_FREQ..<NOTIFIER_ID_COUNT]"

section \<open>Delivery\<close>

definition notifier_notify :: "notify \<Rightarrow> nat \<Rightarrow> nat \<Rightarrow> nat \<Rightarrow> delivery list" where
  "notifier_notify ns clr typ dat =
     map (\<lambda>h. (hd_cb h, receiver h, typ, dat))
       (filter (\<lambda>h. clr = 0 \<or> caller h = 0 \<or> caller h = clr) (ns typ))"

definition notifier_notify_remote :: "notify \<Rightarrow> notify_data \<Rightarrow> delivery list" where
  "notifier_notify_remote ns nd =
     (if ns (nd_type nd) \<noteq> [] then notifier_notify ns (nd_caller nd) (nd_type nd) (nd_data nd) else [])"

text \<open>
  \<^verbatim>\<open>notifier_event\<close>: the deliveries on the calling core \<open>cpu\<close>, the notification records of the cores, and the
  cores that get an inter-core message.
\<close>

fun event_loop :: "(nat \<Rightarrow> bool) \<Rightarrow> nat \<Rightarrow> notify \<Rightarrow> notify_data \<Rightarrow> nat \<Rightarrow> nat list \<Rightarrow> (nat \<Rightarrow> notify_data) \<Rightarrow>
    delivery list \<times> (nat \<Rightarrow> notify_data) \<times> nat list" where
  "event_loop enabled cpu ns nd core_mask [] nds = ([], nds, [])"
| "event_loop enabled cpu ns nd core_mask (i # is) nds =
     (if core_mask AND 2 ^ i = 0 then event_loop enabled cpu ns nd core_mask is nds
      else if i = cpu then
        let (ds, nds', msgs) = event_loop enabled cpu ns nd core_mask is nds
        in (notifier_notify ns (nd_caller nd) (nd_type nd) (nd_data nd) @ ds, nds', msgs)
      else if enabled i then
        let (ds, nds', msgs) = event_loop enabled cpu ns nd core_mask is (nds(i := nd))
        in (ds, nds', i # msgs)
      else event_loop enabled cpu ns nd core_mask is nds)"

definition notifier_event ::
    "platform \<Rightarrow> (nat \<Rightarrow> bool) \<Rightarrow> nat \<Rightarrow> notify \<Rightarrow> (nat \<Rightarrow> notify_data) \<Rightarrow> nat \<Rightarrow> nat \<Rightarrow> nat \<Rightarrow> nat \<Rightarrow> nat
       \<Rightarrow> delivery list \<times> (nat \<Rightarrow> notify_data) \<times> nat list" where
  "notifier_event p enabled cpu ns nds clr typ core_mask dat data_size =
     event_loop enabled cpu ns \<lparr>nd_caller = clr, nd_type = typ, nd_data = dat, nd_data_size = data_size\<rparr> core_mask
       [0..<CONFIG_CORE_COUNT p] nds"

text \<open>
  \<^verbatim>\<open>init_system_notify\<close> writes the lists of the structure it allocated, without testing that the
  allocation succeeded.
\<close>

definition init_system_notify :: "platform \<Rightarrow> nat \<Rightarrow> nat \<Rightarrow> mm \<times> memory \<Rightarrow> ((mm \<times> memory) \<times> notify) outcome" where
  "init_system_notify p core notify_size st =
     obind (rzalloc p core SOF_MEM_ZONE_SYS st 1 notify_size)
       (\<lambda>(st1, ptr). if ptr = 0 then OutOfBounds else Done (st1, (\<lambda>_. [])))"

section \<open>Lemmas\<close>

lemma unregister_loop_nomatch:
  "\<forall>h\<in>set hs. \<not> handle_matches recv clr h \<Longrightarrow> unregister_loop recv clr hs = (hs, [])"
  by (induction hs) auto

lemma event_loop_here:
  "distinct is \<Longrightarrow> fst (event_loop enabled cpu ns nd cmask is nds) =
    (if cpu \<in> set is \<and> cmask AND 2 ^ cpu \<noteq> 0 then notifier_notify ns (nd_caller nd) (nd_type nd) (nd_data nd) else [])"
  by (induction "is" arbitrary: nds) (auto simp: Let_def case_prod_unfold)

abbreviation targets :: "(nat \<Rightarrow> bool) \<Rightarrow> nat \<Rightarrow> nat \<Rightarrow> nat list \<Rightarrow> nat list" where
  "targets enabled cpu cmask \<equiv> filter (\<lambda>i. i \<noteq> cpu \<and> enabled i \<and> cmask AND 2 ^ i \<noteq> 0)"

lemma event_loop_messages: "snd (snd (event_loop enabled cpu ns nd cmask is nds)) = targets enabled cpu cmask is"
  by (induction "is" arbitrary: nds) (simp_all add: Let_def case_prod_unfold)

lemma event_loop_records:
  "fst (snd (event_loop enabled cpu ns nd cmask is nds)) i = (if i \<in> set (targets enabled cpu cmask is) then nd else nds i)"
  by (induction "is" arbitrary: nds) (auto simp: Let_def case_prod_unfold)

text \<open>An event with the mask \<^verbatim>\<open>NOTIFIER_TARGET_CORE_LOCAL\<close> is a delivery on the calling core.\<close>

lemma and_two_powers: "(2 ^ i AND 2 ^ j :: nat) \<noteq> 0 \<longleftrightarrow> i = j"
proof -
  have "bit (2 ^ i AND 2 ^ j :: nat) n \<longleftrightarrow> n = i \<and> n = j" for n by (auto simp: bit_simps)
  then show ?thesis by (metis and.idem bit_0_eq bit_eqI bot_apply bot_bool_def)
qed

lemma notifier_event_local:
  assumes "cpu < CONFIG_CORE_COUNT p"
  shows "notifier_event p enabled cpu ns nds clr typ (2 ^ cpu) dat sz = (notifier_notify ns clr typ dat, nds, [])"
proof -
  let ?nd = "\<lparr>nd_caller = clr, nd_type = typ, nd_data = dat, nd_data_size = sz\<rparr>"
  have t: "targets enabled cpu (2 ^ cpu) [0..<CONFIG_CORE_COUNT p] = []" by (auto simp: filter_empty_conv and_two_powers [unfolded neq0_conv])
  show ?thesis
    using event_loop_here [of "[0..<CONFIG_CORE_COUNT p]" enabled cpu ns ?nd "2 ^ cpu" nds] assms
      event_loop_messages [of enabled cpu ns ?nd "2 ^ cpu" "[0..<CONFIG_CORE_COUNT p]" nds]
      event_loop_records [of enabled cpu ns ?nd "2 ^ cpu" "[0..<CONFIG_CORE_COUNT p]" nds]
    unfolding notifier_event_def t by (intro prod_eqI ext) simp_all
qed

lemma notifier_notify_remote_eq:
  "notifier_notify_remote ns nd = notifier_notify ns (nd_caller nd) (nd_type nd) (nd_data nd)"
  by (simp add: notifier_notify_remote_def notifier_notify_def)

section \<open>Claims\<close>


definition demo_notifier_mm :: mm where
  "demo_notifier_mm = \<lparr>system = [], system_runtime = [\<lparr>hmap = [\<lparr>block_size = 64, count = 1, free_count = 1, first_free = 0,
       block = [\<lparr>hdr_size = 0, hdr_used = 0, unaligned_ptr = 0\<rparr>], base = 8192\<rparr>],
       heap = 8192, heap_size = 64, heap_caps = 1, info = \<lparr>info_used = 0, info_free = 64\<rparr>\<rparr>],
     system_shared = [], runtime_shared = [], runtime = [], buffer = [], heap_trace_updated = 0\<rparr>"

definition demo_notifier_platform :: platform where
  "demo_notifier_platform = \<lparr>PLATFORM_DCACHE_ALIGN = 64, CONFIG_CORE_COUNT = 2, cache_to_uncache = (\<lambda>a. a),
     uncache_to_cache = (\<lambda>a. a), is_uncached = (\<lambda>a. False), platform_rfree_prepare = (\<lambda>a. a), plat_trace = False\<rparr>"

lemma demo_notifier_alloc:
  "\<exists>st1. rzalloc demo_notifier_platform 0 SOF_MEM_ZONE_SYS_RUNTIME (demo_notifier_mm, mem) 1 40 = Done (st1, 8192)"
proof -
  have "ALIGN_UP 8192 64 = 8192" by (rule ALIGN_UP_aligned) (simp_all add: is_power_of_2_def)
  then show ?thesis
    by (simp add: rzalloc_def rmalloc_def malloc_unlocked_def rmalloc_sys_runtime_def demo_notifier_mm_def
        demo_notifier_platform_def get_ptr_from_heap_def upt_rec s32_def s32_id alloc_block_def alloc_block_index_def align_ptr_def Let_def u32_def)
qed


text \<open>
  (C23) An event reaches exactly the targeted cores that are enabled: it is delivered at once on the
  calling core when the mask names it, every other named and enabled core gets one message and,
  when it handles the message, runs its own callbacks for the same caller, type and data; the records of
  all other cores are untouched.
\<close>

theorem notifier_reaches_targets:
  assumes "notifier_event p enabled cpu ns nds clr typ cmask dat sz = (ds, nds', msgs)" and "cpu < CONFIG_CORE_COUNT p"
  shows "ds = (if cmask AND 2 ^ cpu \<noteq> 0 then notifier_notify ns clr typ dat else []) \<and> distinct msgs \<and>
    set msgs = {i. i < CONFIG_CORE_COUNT p \<and> i \<noteq> cpu \<and> enabled i \<and> cmask AND 2 ^ i \<noteq> 0} \<and>
    (\<forall>i\<in>set msgs. \<forall>ns_i. notifier_notify_remote ns_i (nds' i) = notifier_notify ns_i clr typ dat) \<and>
    (\<forall>i. i \<notin> set msgs \<longrightarrow> nds' i = nds i)"
proof -
  let ?nd = "\<lparr>nd_caller = clr, nd_type = typ, nd_data = dat, nd_data_size = sz\<rparr>"
  note e = assms(1) [unfolded notifier_event_def]
  have "ds = (if cmask AND 2 ^ cpu \<noteq> 0 then notifier_notify ns clr typ dat else [])"
    using event_loop_here [of "[0..<CONFIG_CORE_COUNT p]" enabled cpu ns ?nd cmask nds] assms(2) unfolding e by simp
  moreover have "msgs = targets enabled cpu cmask [0..<CONFIG_CORE_COUNT p]"
    using event_loop_messages [of enabled cpu ns ?nd cmask "[0..<CONFIG_CORE_COUNT p]" nds] unfolding e by simp
  moreover from this have "nds' i = (if i \<in> set msgs then ?nd else nds i)" for i
    using event_loop_records [of enabled cpu ns ?nd cmask "[0..<CONFIG_CORE_COUNT p]" nds i] unfolding e by simp
  ultimately show ?thesis by (auto simp: notifier_notify_remote_eq)
qed

theorem notifier_reaches_targets_witness:
  "let (ds, nds', msgs) = notifier_event demo_notifier_platform (\<lambda>_. True) 0 (\<lambda>_. []) (\<lambda>_. \<lparr>nd_caller = 0, nd_type = 0, nd_data = 0, nd_data_size = 0\<rparr>) 6 4 2 9 8
   in ds = (if (2 :: nat) AND 2 ^ 0 \<noteq> 0 then notifier_notify (\<lambda>_. []) 6 4 9 else []) \<and> distinct msgs \<and>
    set msgs = {i. i < CONFIG_CORE_COUNT demo_notifier_platform \<and> i \<noteq> 0 \<and> True \<and> (2 :: nat) AND 2 ^ i \<noteq> 0} \<and>
    (\<forall>i\<in>set msgs. \<forall>ns_i. notifier_notify_remote ns_i (nds' i) = notifier_notify ns_i 6 4 9) \<and>
    (\<forall>i. i \<notin> set msgs \<longrightarrow> nds' i = \<lparr>nd_caller = 0, nd_type = 0, nd_data = 0, nd_data_size = 0\<rparr>)"
  unfolding Let_def split_def
  by (rule notifier_reaches_targets) (auto simp: demo_notifier_platform_def)

text \<open>
  (C37) An aggregating registration on a type that already has a handle keeps no trace of its
  receiver, caller and callback: deliveries stay what they were, although the call reports success.
\<close>

theorem aggregate_drops_receiver:
  assumes "typ < NOTIFIER_ID_COUNT" and "ns typ \<noteq> []"
  shows "\<exists>ns'. notifier_register p core sz st ns recv clr typ cb NOTIFIER_FLAG_AGGREGATE = Done (st, ns', 0) \<and>
    (\<forall>c t dat. notifier_notify ns' c t dat = notifier_notify ns c t dat)"
  using assms by (cases "ns typ") (auto simp: notifier_register_def NOTIFIER_FLAG_AGGREGATE_def notifier_notify_def Let_def)

theorem aggregate_drops_receiver_witness:
  "let ns = (\<lambda>_. [\<lparr>hd_ptr = 8192, receiver = 1, caller = 2, hd_cb = 3, num_registrations = 1\<rparr>]) in
   \<exists>ns'. notifier_register demo_notifier_platform 0 40 (demo_notifier_mm, \<lambda>_. 0) ns 5 6 4 7 NOTIFIER_FLAG_AGGREGATE
        = Done ((demo_notifier_mm, \<lambda>_. 0), ns', 0) \<and>
    (\<forall>c t dat. notifier_notify ns' c t dat = notifier_notify ns c t dat)"
  unfolding Let_def by (rule aggregate_drops_receiver) (simp_all add: notifier_ids)

end
