(* ===== verification/LinkedList.thy ===== *)
theory LinkedList
  imports Prelude
begin

text \<open>
  The intrusive doubly linked lists of \<^verbatim>\<open>xtos/include/sof/list.h\<close>, on a store of list items by
  address, and their refinement of plain lists.
\<close>

section \<open>Operations\<close>

record list_store =
  li_next :: "nat \<Rightarrow> nat"
  li_prev :: "nat \<Rightarrow> nat"

definition set_next :: "nat \<Rightarrow> nat \<Rightarrow> list_store \<Rightarrow> list_store" where
  "set_next a v s = s\<lparr>li_next := (li_next s)(a := v)\<rparr>"

definition set_prev :: "nat \<Rightarrow> nat \<Rightarrow> list_store \<Rightarrow> list_store" where
  "set_prev a v s = s\<lparr>li_prev := (li_prev s)(a := v)\<rparr>"

definition list_init :: "nat \<Rightarrow> list_store \<Rightarrow> list_store" where
  "list_init l s = set_prev l l (set_next l l s)"

definition list_item_prepend :: "nat \<Rightarrow> nat \<Rightarrow> list_store \<Rightarrow> list_store" where
  "list_item_prepend item l s =
     (let nxt = li_next s l
      in set_next l item (set_prev item l (set_next item nxt (set_prev nxt item s))))"

definition list_item_append :: "nat \<Rightarrow> nat \<Rightarrow> list_store \<Rightarrow> list_store" where
  "list_item_append item l s =
     (let tail = li_prev s l
      in set_prev l item (set_prev item tail (set_next item l (set_next tail item s))))"

definition list_item_del :: "nat \<Rightarrow> list_store \<Rightarrow> list_store" where
  "list_item_del item s =
     (let s1 = set_prev (li_next s item) (li_prev s item) s;
          s2 = set_next (li_prev s1 item) (li_next s1 item) s1
      in list_init item s2)"

definition list_item_is_last :: "nat \<Rightarrow> nat \<Rightarrow> list_store \<Rightarrow> bool" where
  "list_item_is_last item l s \<longleftrightarrow> li_next s item = l"

definition list_is_empty :: "nat \<Rightarrow> list_store \<Rightarrow> bool" where
  "list_is_empty l s \<longleftrightarrow> li_next s l = l"

text \<open>
  The iterators \<^verbatim>\<open>list_for_item\<close> and \<^verbatim>\<open>list_for_item_prev\<close>: \<open>f\<close> is the loop body, which may change the
  store; \<open>None\<close> is an iteration that does not end.
\<close>

partial_function (option) for_item_from :: "(nat \<Rightarrow> 's \<Rightarrow> 's) \<Rightarrow> ('s \<Rightarrow> list_store) \<Rightarrow> nat \<Rightarrow> nat \<Rightarrow> 's \<Rightarrow> 's option" where
  "for_item_from f links l item s =
     (if item = l then Some s else let s' = f item s in for_item_from f links l (li_next (links s') item) s')"

definition list_for_item :: "(nat \<Rightarrow> 's \<Rightarrow> 's) \<Rightarrow> ('s \<Rightarrow> list_store) \<Rightarrow> nat \<Rightarrow> 's \<Rightarrow> 's option" where
  "list_for_item f links l s = for_item_from f links l (li_next (links s) l) s"

partial_function (option) for_item_prev_from :: "(nat \<Rightarrow> 's \<Rightarrow> 's) \<Rightarrow> ('s \<Rightarrow> list_store) \<Rightarrow> nat \<Rightarrow> nat \<Rightarrow> 's \<Rightarrow> 's option" where
  "for_item_prev_from f links l item s =
     (if item = l then Some s else let s' = f item s in for_item_prev_from f links l (li_prev (links s') item) s')"

definition list_for_item_prev :: "(nat \<Rightarrow> 's \<Rightarrow> 's) \<Rightarrow> ('s \<Rightarrow> list_store) \<Rightarrow> nat \<Rightarrow> 's \<Rightarrow> 's option" where
  "list_for_item_prev f links l s = for_item_prev_from f links l (li_prev (links s) l) s"

text \<open>\<^verbatim>\<open>list_for_item_safe\<close> reads the successor of an item before the body runs.\<close>

partial_function (option) for_item_safe_from :: "(nat \<Rightarrow> 's \<Rightarrow> 's) \<Rightarrow> ('s \<Rightarrow> list_store) \<Rightarrow> nat \<Rightarrow> nat \<Rightarrow> nat \<Rightarrow> 's \<Rightarrow> 's option" where
  "for_item_safe_from f links l item tmp s =
     (if item = l then Some s
      else let s' = f item s in for_item_safe_from f links l tmp (li_next (links s') tmp) s')"

definition list_for_item_safe :: "(nat \<Rightarrow> 's \<Rightarrow> 's) \<Rightarrow> ('s \<Rightarrow> list_store) \<Rightarrow> nat \<Rightarrow> 's \<Rightarrow> 's option" where
  "list_for_item_safe f links l s = for_item_safe_from f links l (li_next (links s) l) (li_next (links s) (li_next (links s) l)) s"

definition list_relink :: "nat \<Rightarrow> nat \<Rightarrow> list_store \<Rightarrow> list_store option" where
  "list_relink new_list old_list s =
     (if li_next s new_list = old_list then Some (list_init new_list s)
      else case list_for_item (\<lambda>li s. if li_next s li = old_list then set_next li new_list s else s) (\<lambda>t. t) new_list s of
             None \<Rightarrow> None
           | Some s1 \<Rightarrow> list_for_item_prev (\<lambda>li s. if li_prev s li = old_list then set_prev li new_list s else s) (\<lambda>t. t) new_list s1)"

section \<open>Representation\<close>

fun chain :: "list_store \<Rightarrow> nat list \<Rightarrow> bool" where
  "chain s (a # b # xs) \<longleftrightarrow> li_next s a = b \<and> li_prev s b = a \<and> chain s (b # xs)"
| "chain s _ \<longleftrightarrow> True"

definition list_rep :: "list_store \<Rightarrow> nat \<Rightarrow> nat list \<Rightarrow> bool" where
  "list_rep s l xs \<longleftrightarrow> distinct (l # xs) \<and> chain s (l # xs @ [l])"

lemmas set_defs = set_next_def set_prev_def

lemma next_prev_set [simp]:
  "li_next (set_next a v s) = (li_next s)(a := v)" "li_prev (set_next a v s) = li_prev s"
  "li_next (set_prev a v s) = li_next s" "li_prev (set_prev a v s) = (li_prev s)(a := v)"
  by (simp_all add: set_defs)

lemma chain_split: "chain s (xs @ a # ys) \<longleftrightarrow> chain s (xs @ [a]) \<and> chain s (a # ys)"
proof (induction xs)
  case (Cons x xs)
  then show ?case by (cases xs) auto
qed simp

lemma chain_prefix: "chain s (xs @ ys) \<Longrightarrow> chain s xs"
  by (induction s xs rule: chain.induct) auto

lemma chain_snoc: "chain s (xs @ [a, b]) \<longleftrightarrow> chain s (xs @ [a]) \<and> li_next s a = b \<and> li_prev s b = a"
  using chain_split [of s xs a "[b]"] by auto

lemma chain_frame:
  assumes "\<forall>a\<in>set (butlast xs). li_next s' a = li_next s a" and "\<forall>b\<in>set (tl xs). li_prev s' b = li_prev s b"
  shows "chain s' xs = chain s xs"
  using assms by (induction s xs rule: chain.induct) (auto split: if_splits)

lemma chain_Cons_ends: "chain s (a # ys @ [b]) \<Longrightarrow> li_next s a = hd (ys @ [b]) \<and> li_prev s b = last (a # ys)"
proof (induction ys arbitrary: a)
  case (Cons y ys)
  then show ?case by auto
qed simp

section \<open>Refinement\<close>

lemma list_init_rep: "list_rep (list_init l s) l []"
  by (simp add: list_rep_def list_init_def)

lemma list_is_empty_rep: "list_rep s l xs \<Longrightarrow> list_is_empty l s \<longleftrightarrow> xs = []"
  by (cases xs) (auto simp: list_rep_def list_is_empty_def)

lemma prepend_rep:
  assumes "list_rep s l xs" and "item \<notin> set (l # xs)"
  shows "list_rep (list_item_prepend item l s) l (item # xs)"
proof (cases xs)
  case Nil
  with assms show ?thesis by (auto simp: list_rep_def list_item_prepend_def)
next
  case (Cons y ys)
  let ?s = "list_item_prepend item l s"
  have y: "li_next s l = y" "chain s (y # ys @ [l])" "distinct (l # y # ys)" "item \<notin> set (l # y # ys)"
    using assms Cons by (auto simp: list_rep_def)
  have "chain ?s (y # ys @ [l]) = chain s (y # ys @ [l])"
    using y(1,3,4) by (intro chain_frame) (auto simp: list_item_prepend_def Let_def butlast_append)
  with y show ?thesis unfolding Cons list_rep_def by (auto simp: list_item_prepend_def Let_def)
qed

lemma append_rep:
  assumes "list_rep s l xs" and "item \<notin> set (l # xs)"
  shows "list_rep (list_item_append item l s) l (xs @ [item])"
proof -
  let ?s = "list_item_append item l s" and ?t = "last (l # xs)"
  have c: "chain s (l # xs @ [l])" and d: "distinct (l # xs)" using assms by (auto simp: list_rep_def)
  have t: "li_prev s l = ?t" using chain_Cons_ends [OF c] by simp
  have tn: "?t \<notin> set (butlast (l # xs))"
    using d by (metis append_butlast_last_id distinct_butlast list.discI not_distinct_conv_prefix)
  have fr: "chain ?s (butlast (l # xs) @ [?t]) = chain s (butlast (l # xs) @ [?t])"
  proof (rule chain_frame)
    show "\<forall>a\<in>set (butlast (butlast (l # xs) @ [?t])). li_next ?s a = li_next s a"
      unfolding butlast_snoc
    proof
      fix a assume a: "a \<in> set (butlast (l # xs))"
      with tn have "a \<noteq> ?t" by blast
      moreover have "a \<noteq> item" using in_set_butlastD [OF a] assms(2) by auto
      ultimately show "li_next ?s a = li_next s a" by (simp add: list_item_append_def Let_def t)
    qed
    show "\<forall>b\<in>set (tl (butlast (l # xs) @ [?t])). li_prev ?s b = li_prev s b"
      using d assms(2) append_butlast_last_id [of "l # xs"] by (auto simp: list_item_append_def Let_def t)
  qed
  have e: "l # xs = butlast (l # xs) @ [?t]" by simp
  have "chain s (butlast (l # xs) @ [?t])"
    using c chain_split [of s "butlast (l # xs)" ?t "[l]"] e by (metis append_Cons append_assoc append_Nil)
  then have "chain ?s (butlast (l # xs) @ [?t])" using fr by blast
  moreover have "chain ?s [?t, item, l]"
    using assms(2) by (auto simp: list_item_append_def Let_def t)
  ultimately have "chain ?s (butlast (l # xs) @ ?t # [item, l])" using chain_split by blast
  moreover have "butlast (l # xs) @ ?t # [item, l] = (l # xs) @ [item, l]" using e by (metis append.assoc append_Cons append_Nil)
  ultimately have "chain ?s ((l # xs) @ [item, l])" by (simp only:)
  then show ?thesis using d assms(2) unfolding list_rep_def by simp
qed

lemma del_rep:
  assumes "list_rep s l (xs @ x # ys)"
  shows "list_rep (list_item_del x s) l (xs @ ys) \<and> list_is_empty x (list_item_del x s)"
proof -
  let ?s = "list_item_del x s" and ?p = "last (l # xs)" and ?n = "hd (ys @ [l])"
  have c: "chain s ((l # xs) @ x # ys @ [l])" and d: "distinct (l # xs @ x # ys)"
    using assms by (auto simp: list_rep_def)
  have c1: "chain s (l # xs @ [x])" and c2: "chain s (x # ys @ [l])" using c chain_split [of s "l # xs" x "ys @ [l]"] by simp_all
  have p: "li_prev s x = ?p" and n: "li_next s x = ?n" using chain_Cons_ends [OF c1] chain_Cons_ends [OF c2] by auto
  have pn: "?p \<noteq> x" "?n \<noteq> x" using d by (auto simp: hd_append split: list.splits if_splits)
  have nx: "li_next ?s = (li_next s)(?p := ?n, x := x)" and pv: "li_prev ?s = (li_prev s)(?n := ?p, x := x)"
    using pn by (auto simp: list_item_del_def list_init_def Let_def p n)
  have e: "l # xs = butlast (l # xs) @ [?p]" and e2: "ys @ [l] = ?n # tl (ys @ [l])" by simp_all
  have tn: "?p \<notin> set (butlast (l # xs))"
    using d by (metis append_butlast_last_id distinct_append distinct.simps(2) append_Cons list.discI not_distinct_conv_prefix)
  have nn: "?n \<notin> set (tl (ys @ [l]))" using d e2 by (cases ys) auto
  have "chain ?s (l # xs) = chain s (l # xs)"
  proof (rule chain_frame)
    show "\<forall>a\<in>set (butlast (l # xs)). li_next ?s a = li_next s a"
    proof
      fix a assume a: "a \<in> set (butlast (l # xs))"
      with tn have "a \<noteq> ?p" by blast
      moreover have "a \<noteq> x" using in_set_butlastD [OF a] d by auto
      ultimately show "li_next ?s a = li_next s a" by (simp add: nx)
    qed
    show "\<forall>b\<in>set (tl (l # xs)). li_prev ?s b = li_prev s b"
      using d e2 by (cases ys) (auto simp: pv)
  qed
  moreover have "chain s (l # xs)" using c1 chain_split [of s "butlast (l # xs)" ?p "[x]"] e
    by (metis append.assoc append_Cons append_Nil)
  moreover have "chain ?s (ys @ [l]) = chain s (ys @ [l])"
  proof (rule chain_frame)
    show "\<forall>a\<in>set (butlast (ys @ [l])). li_next ?s a = li_next s a"
    proof
      fix a assume "a \<in> set (butlast (ys @ [l]))"
      then have a: "a \<in> set ys" by simp
      moreover have "?p \<notin> set ys" using d last_in_set [of "l # xs"] by fastforce
      ultimately have "a \<noteq> ?p" "a \<noteq> x" using d by auto
      then show "li_next ?s a = li_next s a" by (simp add: nx)
    qed
    show "\<forall>b\<in>set (tl (ys @ [l])). li_prev ?s b = li_prev s b"
    proof
      fix b assume b: "b \<in> set (tl (ys @ [l]))"
      with nn have "b \<noteq> ?n" by blast
      moreover have "b \<in> set (ys @ [l])" using b e2 by (metis list.set_intros(2))
      then have "b \<noteq> x" using d by auto
      ultimately show "li_prev ?s b = li_prev s b" by (simp add: pv)
    qed
  qed
  moreover have "chain s (ys @ [l])" using c2 e2 by (metis chain.simps(1))
  moreover have "chain ?s [?p, ?n]" using pn by (simp add: nx pv)
  ultimately have "chain ?s (l # xs)" "chain ?s (?p # ys @ [l])" using e2 chain.simps(1) [of ?s ?p ?n "tl (ys @ [l])"] by auto
  then have "chain ?s (l # (xs @ ys) @ [l])"
    using chain_split [of ?s "butlast (l # xs)" ?p "ys @ [l]"] e by (metis append.assoc append_Cons append_Nil)
  then show ?thesis using d by (simp add: list_rep_def list_is_empty_def nx)
qed

section \<open>Iteration\<close>

lemma for_item_visits:
  assumes "\<And>x t. links (f x t) = links t"
  shows "chain (links s) (a # ys @ [l]) \<Longrightarrow> l \<notin> set ys \<Longrightarrow> for_item_from f links l (li_next (links s) a) s = Some (fold f ys s)"
proof (induction ys arbitrary: a s)
  case Nil
  then show ?case by (subst for_item_from.simps) simp
next
  case (Cons y ys)
  then have "li_next (links s) a = y" "y \<noteq> l" "chain (links (f y s)) (y # ys @ [l])" "l \<notin> set ys" using assms by auto
  with Cons.IH [of "f y s" y] assms show ?case by (subst for_item_from.simps) simp
qed

lemma list_for_item_fold:
  assumes "\<And>x t. links (f x t) = links t" and "list_rep (links s) l xs"
  shows "list_for_item f links l s = Some (fold f xs s)"
  unfolding list_for_item_def using assms by (intro for_item_visits) (auto simp: list_rep_def)

lemma for_item_safe_del:
  assumes "list_rep s l (zs @ ys)"
  shows "\<exists>s'. for_item_safe_from (\<lambda>x s. if P x then list_item_del x s else s) (\<lambda>t. t) l (hd (ys @ [l])) (li_next s (hd (ys @ [l]))) s = Some s' \<and>
    list_rep s' l (zs @ filter (\<lambda>x. \<not> P x) ys)"
  using assms
proof (induction ys arbitrary: zs s)
  case Nil
  then show ?case by (subst for_item_safe_from.simps) simp
next
  case (Cons y ys)
  let ?f = "\<lambda>x s. if P x then list_item_del x s else s"
  have y: "y \<noteq> l" "li_next s y = hd (ys @ [l])"
    using Cons.prems chain_split [of s "l # zs" y "ys @ [l]"] chain_Cons_ends [of s y ys l] by (auto simp: list_rep_def)
  have "list_rep (?f y s) l ((if P y then zs else zs @ [y]) @ ys)" using Cons.prems del_rep by auto
  then obtain s' where "for_item_safe_from ?f (\<lambda>t. t) l (hd (ys @ [l])) (li_next (?f y s) (hd (ys @ [l]))) (?f y s) = Some s'"
    "list_rep s' l ((if P y then zs else zs @ [y]) @ filter (\<lambda>x. \<not> P x) ys)"
    using Cons.IH by blast
  with y show ?case by (subst for_item_safe_from.simps) (auto simp: Let_def)
qed

section \<open>Moving a list head\<close>

lemma relink_forward:
  assumes "chain s (y # ys @ [old])" and "new \<notin> set (y # ys)" and "old \<notin> set (y # ys)"
  shows "for_item_from (\<lambda>li s. if li_next s li = old then set_next li new s else s) (\<lambda>t. t) new y s =
    Some (set_next (last (y # ys)) new s)"
  using assms
proof (induction ys arbitrary: y)
  case Nil
  then show ?case by (simp add: for_item_from.simps [of _ _ new])
next
  case (Cons z zs)
  then show ?case by (subst for_item_from.simps) auto
qed

lemma relink_backward:
  assumes "chain s (old # ys @ [y])" and "li_prev s1 = li_prev s" and "new \<notin> set (ys @ [y])" and "old \<notin> set (ys @ [y])"
  shows "for_item_prev_from (\<lambda>li s. if li_prev s li = old then set_prev li new s else s) (\<lambda>t. t) new y s1 =
    Some (set_prev (hd (ys @ [y])) new s1)"
  using assms
proof (induction ys arbitrary: y rule: rev_induct)
  case Nil
  then show ?case by (simp add: for_item_prev_from.simps [of _ _ new])
next
  case (snoc z zs)
  have "chain s ((old # zs) @ z # [y])" using snoc.prems by simp
  then have "chain s (old # zs @ [z])" "li_prev s y = z" using chain_split [of s "old # zs" z "[y]"] by auto
  with snoc show ?case by (subst for_item_prev_from.simps) (auto simp: hd_append)
qed

lemma relink_rep:
  assumes rep: "list_rep s old xs" and cp: "li_next s new = li_next s old" "li_prev s new = li_prev s old"
    and new: "new \<notin> set (old # xs)"
  shows "\<exists>s'. list_relink new old s = Some s' \<and> list_rep s' new xs"
proof (cases xs)
  case Nil
  then show ?thesis using rep cp list_init_rep by (auto simp: list_relink_def list_rep_def)
next
  case (Cons y ys)
  have c: "chain s (old # xs @ [old])" and d: "distinct (old # xs)" using rep by (auto simp: list_rep_def)
  have ends: "li_next s new = y" "li_prev s new = last xs" using chain_Cons_ends [OF c] cp Cons by auto
  have c1: "chain s (y # ys @ [old])" using c Cons by simp
  have e: "butlast xs @ [last xs] = xs" using Cons by simp
  have c2: "chain s (old # butlast xs @ [last xs])" "chain s xs"
    unfolding e using chain_prefix [of s "old # xs" "[old]"] chain_prefix [of s xs "[old]"] c c1 Cons by auto
  let ?s1 = "set_next (last xs) new s"
  let ?s2 = "set_prev y new ?s1"
  have nl: "new \<noteq> last xs" "y \<noteq> new" using new Cons last_in_set [of xs] by auto
  have "list_relink new old s = Some ?s2"
  proof -
    have "new \<notin> set (y # ys)" "old \<notin> set (y # ys)" using new d Cons by auto
    note f = relink_forward [OF c1 this]
    have "new \<notin> set (butlast xs @ [last xs])" "old \<notin> set (butlast xs @ [last xs])" unfolding e using new d by auto
    note b = relink_backward [OF c2(1) _ this, of ?s1]
    have "last (y # ys) = last xs" "hd (butlast xs @ [last xs]) = y" "y \<noteq> old" using Cons d by auto
    with f b ends nl show ?thesis by (simp add: list_relink_def list_for_item_def list_for_item_prev_def)
  qed
  moreover have "chain ?s2 xs = chain s xs"
  proof (rule chain_frame)
    have "last xs \<notin> set (butlast xs)" using d e distinct_append [of "butlast xs" "[last xs]"] by auto
    then show "\<forall>a\<in>set (butlast xs). li_next ?s2 a = li_next s a" by auto
    show "\<forall>b\<in>set (tl xs). li_prev ?s2 b = li_prev s b" using d Cons by auto
  qed
  then have "chain ?s2 xs" using c2(2) by blast
  then have "chain ?s2 (xs @ [new])"
  proof -
    have "chain ?s2 (butlast xs @ [last xs])" unfolding e by fact
    then have "chain ?s2 (butlast xs @ [last xs, new])" using chain_snoc [of ?s2 "butlast xs" "last xs" new] ends nl by simp
    moreover have "xs @ [new] = butlast xs @ [last xs, new]" using e by (metis append.assoc append_Cons append_Nil)
    ultimately show ?thesis by (simp only:)
  qed
  then have "chain ?s2 (new # xs @ [new])" using Cons ends nl by simp
  ultimately show ?thesis using d new by (auto simp: list_rep_def)
qed

section \<open>Claims\<close>

lemma rep_frame:
  assumes "list_rep s k ys" and "\<And>a. a \<in> set (k # ys) \<Longrightarrow> li_next s' a = li_next s a \<and> li_prev s' a = li_prev s a"
  shows "list_rep s' k ys"
  using assms chain_frame [of "k # ys @ [k]" s' s] by (auto simp: list_rep_def butlast_append)

lemma rep_ends:
  assumes "list_rep s l xs" and "x \<in> set (l # xs)"
  shows "li_next s x \<in> set (l # xs)" and "li_prev s x \<in> set (l # xs)"
proof -
  have c: "chain s (l # xs @ [l])" using assms by (simp add: list_rep_def)
  obtain ys zs where s: "l # xs = ys @ x # zs" using assms(2) by (meson split_list)
  then have "chain s (ys @ x # zs @ [l])" using c by (metis append_Cons append_assoc)
  then have "chain s (x # zs @ [l])" using chain_split by blast
  from chain_Cons_ends [OF this] show "li_next s x \<in> set (l # xs)" using s
    by (metis Un_iff append_Cons hd_append list.sel(1) list.set_intros(1) list.set_sel(1) set_append set_subset_Cons subsetD)
  have "\<exists>ys' zs'. xs @ [l] = ys' @ x # zs'" using assms(2) by (metis insert_iff list.set(2) rotate1.simps(2) set_rotate1 split_list)
  then obtain ys' zs' where s': "xs @ [l] = ys' @ x # zs'" by blast
  then have "chain s ((l # ys' @ [x]) @ zs')" using c by simp
  then have "chain s (l # ys' @ [x])" by (rule chain_prefix)
  from chain_Cons_ends [OF this] have "li_prev s x = last (l # ys')" by simp
  moreover have "set ys' \<subseteq> set (xs @ [l])" unfolding s' by auto
  ultimately show "li_prev s x \<in> set (l # xs)" by (cases ys' rule: rev_cases) auto
qed

text \<open>
  (C15) The linked lists are lists: on a list that represents \<open>xs\<close>, prepending, appending and deleting an
  item give lists that represent \<open>item # xs\<close>, \<open>xs @ [item]\<close> and \<open>xs\<close> without the item; a deleted item is
  left self-linked; the iteration macro visits exactly \<open>xs\<close> in order and ends; and a list that
  shares no item is untouched by all of them.
\<close>

theorem linked_list_refines:
  assumes "list_rep s l xs" and "item \<notin> set (l # xs)" and "x \<in> set xs"
    and "list_rep s k ys" and "set (k # ys) \<inter> set (item # l # xs) = {}"
  shows "list_rep (list_item_prepend item l s) l (item # xs) \<and>
    list_rep (list_item_append item l s) l (xs @ [item]) \<and>
    list_rep (list_item_del x s) l (remove1 x xs) \<and> list_is_empty x (list_item_del x s) \<and>
    list_for_item (\<lambda>i (t, acc). (t, acc @ [i])) fst l (s, []) = Some (s, xs) \<and>
    list_rep (list_item_prepend item l s) k ys \<and> list_rep (list_item_append item l s) k ys \<and> list_rep (list_item_del x s) k ys"
proof -
  obtain us vs where x: "xs = us @ x # vs" "x \<notin> set us" using split_list_first [OF assms(3)] by blast
  then have "remove1 x xs = us @ vs" by (simp add: remove1_append)
  moreover have "fold (\<lambda>i (t, acc). (t, acc @ [i])) zs (s, acc) = (s, acc @ zs)" for zs acc :: "nat list"
    by (induction zs arbitrary: acc) auto
  then have "list_for_item (\<lambda>i (t, acc). (t, acc @ [i])) fst l (s, []) = Some (s, xs)"
    using list_for_item_fold [of fst "\<lambda>i (t, acc). (t, acc @ [i])" "(s, [])" l xs] assms(1) by auto
  moreover have "list_rep s' k ys"
    if "s' \<in> {list_item_prepend item l s, list_item_append item l s, list_item_del x s}" for s'
  proof (rule rep_frame [OF assms(4)])
    fix a assume a: "a \<in> set (k # ys)"
    have "a \<notin> set (item # l # xs)" using a assms(5) by blast
    with rep_ends [OF assms(1), of l] rep_ends [OF assms(1), of x] assms(3) that
    show "li_next s' a = li_next s a \<and> li_prev s' a = li_prev s a"
      by (auto simp: list_item_prepend_def list_item_append_def list_item_del_def list_init_def Let_def)
  qed
  ultimately show ?thesis using prepend_rep [OF assms(1,2)] append_rep [OF assms(1,2)] del_rep [of s l us x vs] assms(1) x by auto
qed

definition demo_store :: list_store where
  "demo_store = list_item_append 300 100 (list_item_append 200 100 (list_init 900 (list_init 100 \<lparr>li_next = (\<lambda>_. 0), li_prev = (\<lambda>_. 0)\<rparr>)))"

theorem linked_list_refines_witness:
  "list_rep (list_item_prepend 400 100 demo_store) 100 [400, 200, 300] \<and>
    list_rep (list_item_append 400 100 demo_store) 100 ([200, 300] @ [400]) \<and>
    list_rep (list_item_del 200 demo_store) 100 (remove1 200 [200, 300]) \<and> list_is_empty 200 (list_item_del 200 demo_store) \<and>
    list_for_item (\<lambda>i (t, acc). (t, acc @ [i])) fst 100 (demo_store, []) = Some (demo_store, [200, 300]) \<and>
    list_rep (list_item_prepend 400 100 demo_store) 900 [] \<and> list_rep (list_item_append 400 100 demo_store) 900 [] \<and>
    list_rep (list_item_del 200 demo_store) 900 []"
  by (rule linked_list_refines)
    (simp_all add: demo_store_def list_rep_def list_item_append_def list_init_def set_defs Let_def)

text \<open>
  (C24) Deleting the current item inside \<^verbatim>\<open>list_for_item_safe\<close> is safe: the iteration ends and leaves
  the list of the items that were not deleted, in their order. Moving a list head with
  \<^verbatim>\<open>list_relink\<close>, after its two links were copied to the new head, ends and keeps the items.
\<close>

theorem list_iteration_safe:
  assumes "list_rep s l xs" and "li_next s new = li_next s l" and "li_prev s new = li_prev s l" and "new \<notin> set (l # xs)"
  shows "(\<exists>s'. list_for_item_safe (\<lambda>x s. if P x then list_item_del x s else s) (\<lambda>t. t) l s = Some s' \<and>
      list_rep s' l (filter (\<lambda>x. \<not> P x) xs)) \<and>
    (\<exists>s'. list_relink new l s = Some s' \<and> list_rep s' new xs)"
proof -
  have "li_next s l = hd (xs @ [l])" using chain_Cons_ends assms(1) by (auto simp: list_rep_def)
  then show ?thesis
    using for_item_safe_del [of s l "[]" xs P] relink_rep [OF assms] assms(1) by (simp add: list_for_item_safe_def)
qed

theorem list_iteration_safe_witness:
  "let s = set_prev 700 300 (set_next 700 200 demo_store) in
   (\<exists>s'. list_for_item_safe (\<lambda>x s. if x = 200 then list_item_del x s else s) (\<lambda>t. t) 100 s = Some s' \<and>
      list_rep s' 100 (filter (\<lambda>x. \<not> x = 200) [200, 300])) \<and>
    (\<exists>s'. list_relink 700 100 s = Some s' \<and> list_rep s' 700 [200, 300])"
  unfolding Let_def
  by (rule list_iteration_safe)
    (simp_all add: demo_store_def list_rep_def list_item_append_def list_init_def set_defs Let_def)

end
