(* ===== verification/Buffer.thy ===== *)
theory Buffer
  imports DpQueue_Props Notifier LinkedList MmApi
begin

text \<open>
  The buffer between two components, \<^verbatim>\<open>src/audio/buffer.c\<close> and
  \<^verbatim>\<open>src/include/sof/audio/buffer.h\<close>, and the sink and source operations of its stream,
  \<^verbatim>\<open>src/audio/audio_stream.c\<close>. Memory comes from the allocator of \<open>MmHeap\<close>, events go to the
  notifier, the links to components are items of \<open>LinkedList\<close>.
\<close>

definition SOF_MEM_CAPS_RAM :: nat where "SOF_MEM_CAPS_RAM = 1"
definition SOF_MEM_CAPS_DMA :: nat where "SOF_MEM_CAPS_DMA = 32"
definition SOF_BUF_OVERRUN_PERMITTED :: nat where "SOF_BUF_OVERRUN_PERMITTED = 1"
definition SOF_BUF_UNDERRUN_PERMITTED :: nat where "SOF_BUF_UNDERRUN_PERMITTED = 2"
definition PPL_DIR_DOWNSTREAM :: nat where "PPL_DIR_DOWNSTREAM = 0"
definition PPL_DIR_UPSTREAM :: nat where "PPL_DIR_UPSTREAM = 1"

section \<open>State\<close>

text \<open>
  \<open>cb_source\<close> and \<open>cb_sink\<close> are the connected components (0 for none), \<open>source_list\<close> and \<open>sink_list\<close> the
  addresses of the embedded list items. The interface handles of the stream keep their own fields.
\<close>

record comp_buffer =
  cb_stream :: audio_stream
  cb_source_api :: "unit sof_source"
  cb_sink_api :: "unit sof_sink"
  cb_caps :: nat
  cb_core :: nat
  is_shared :: bool
  cb_source :: nat
  cb_sink :: nat
  source_list :: nat
  sink_list :: nat
  cb_chmap :: "nat list"
  hw_params_configured :: bool
  walking :: bool

record buffer_cb_transact =
  tr_buffer :: nat
  transaction_amount :: nat
  transaction_begin_address :: nat

definition map_stream :: "(audio_stream \<Rightarrow> audio_stream) \<Rightarrow> comp_buffer \<Rightarrow> comp_buffer" where
  "map_stream f b = b\<lparr>cb_stream := f (cb_stream b)\<rparr>"

section \<open>Parameters\<close>

definition buffer_set_params :: "comp_buffer \<Rightarrow> sof_ipc_stream_params option \<Rightarrow> bool \<Rightarrow> comp_buffer \<times> int" where
  "buffer_set_params b params force_update =
     (case params of
        None \<Rightarrow> (b, - EINVAL)
      | Some p \<Rightarrow>
          if hw_params_configured b \<and> \<not> force_update then (b, 0)
          else case audio_stream_set_params (cb_stream b) params of
                 None \<Rightarrow> (b, - EINVAL)
               | Some s \<Rightarrow> (b\<lparr>cb_stream := audio_stream_set_buffer_fmt s (ipc_buffer_fmt p),
                              cb_chmap := ipc_chmap p, hw_params_configured := True\<rparr>, 0))"

definition BUFF_PARAMS_FRAME_FMT :: nat where "BUFF_PARAMS_FRAME_FMT = 1"
definition BUFF_PARAMS_BUFFER_FMT :: nat where "BUFF_PARAMS_BUFFER_FMT = 2"
definition BUFF_PARAMS_RATE :: nat where "BUFF_PARAMS_RATE = 4"
definition BUFF_PARAMS_CHANNELS :: nat where "BUFF_PARAMS_CHANNELS = 8"

definition buffer_params_match :: "comp_buffer \<Rightarrow> sof_ipc_stream_params option \<Rightarrow> nat \<Rightarrow> bool outcome" where
  "buffer_params_match b params flag =
     (case params of
        None \<Rightarrow> Panic
      | Some p \<Rightarrow>
          let sp = runtime_stream_params (cb_stream b)
          in Done (if flag AND BUFF_PARAMS_FRAME_FMT \<noteq> 0 \<and> frame_fmt sp \<noteq> ipc_frame_fmt p then False
                   else if flag AND BUFF_PARAMS_RATE \<noteq> 0 \<and> rate sp \<noteq> ipc_rate p then False
                   else if flag AND BUFF_PARAMS_CHANNELS \<noteq> 0 \<and> channels sp \<noteq> ipc_channels p then False
                   else True))"

definition buffer_reset_params :: "comp_buffer \<Rightarrow> comp_buffer" where
  "buffer_reset_params b = b\<lparr>hw_params_configured := False\<rparr>"

section \<open>Sink and source operations of the stream\<close>

definition buffer_stream_invalidate :: "comp_buffer \<Rightarrow> nat \<Rightarrow> (nat \<times> nat) list" where
  "buffer_stream_invalidate b bytes = (if is_shared b then audio_stream_invalidate (cb_stream b) bytes else [])"

definition buffer_stream_writeback :: "comp_buffer \<Rightarrow> nat \<Rightarrow> (nat \<times> nat) list" where
  "buffer_stream_writeback b bytes = (if is_shared b then audio_stream_writeback (cb_stream b) bytes else [])"

definition audio_stream_get_buffer :: "comp_buffer \<Rightarrow> nat \<Rightarrow> int + (nat \<times> nat \<times> nat)" where
  "audio_stream_get_buffer b req_size =
     (if audio_stream_get_free_bytes (cb_stream b) < req_size then Inl (- ENODATA)
      else Inr (w_ptr (cb_stream b), addr (cb_stream b), st_size (cb_stream b)))"

definition audio_stream_commit_buffer :: "comp_buffer \<Rightarrow> nat \<Rightarrow> (comp_buffer \<times> int) outcome" where
  "audio_stream_commit_buffer b commit_size =
     (if commit_size \<noteq> 0
      then obind (audio_stream_produce (cb_stream b) commit_size) (\<lambda>s. Done (b\<lparr>cb_stream := s\<rparr>, 0))
      else Done (b, 0))"

definition audio_stream_get_data :: "comp_buffer \<Rightarrow> nat \<Rightarrow> int + (nat \<times> nat \<times> nat)" where
  "audio_stream_get_data b req_size =
     (if audio_stream_get_avail_bytes (cb_stream b) < req_size then Inl (- ENODATA)
      else Inr (r_ptr (cb_stream b), addr (cb_stream b), st_size (cb_stream b)))"

definition audio_stream_release_data :: "comp_buffer \<Rightarrow> nat \<Rightarrow> (comp_buffer \<times> int) outcome" where
  "audio_stream_release_data b free_size =
     (if free_size \<noteq> 0
      then obind (audio_stream_consume (cb_stream b) free_size) (\<lambda>s. Done (b\<lparr>cb_stream := s\<rparr>, 0))
      else Done (b, 0))"

definition audio_stream_set_ipc_params :: "comp_buffer \<Rightarrow> sof_ipc_stream_params \<Rightarrow> bool \<Rightarrow> comp_buffer \<times> int" where
  "audio_stream_set_ipc_params b params force_update = buffer_set_params b (Some params) force_update"

definition audio_stream_set_alignment_constants :: "comp_buffer \<Rightarrow> nat \<Rightarrow> nat \<Rightarrow> comp_buffer \<times> int" where
  "audio_stream_set_alignment_constants b byte_align frame_align =
     (map_stream (audio_stream_set_align byte_align frame_align) b, 0)"

definition stream_format_set :: "comp_buffer \<Rightarrow> comp_buffer \<times> int" where
  "stream_format_set b = (map_stream audio_stream_recalc_align b, 0)"

definition audio_stream_source_ops :: "comp_buffer source_ops" where
  "audio_stream_source_ops = \<lparr>get_data_available = (\<lambda>b. audio_stream_get_avail_bytes (cb_stream b)),
     get_data = audio_stream_get_data, release_data = audio_stream_release_data,
     so_on_audio_format_set = Some stream_format_set, so_audio_set_ipc_params = Some audio_stream_set_ipc_params,
     so_set_alignment_constants = Some audio_stream_set_alignment_constants,
     so_params = (\<lambda>b. runtime_stream_params (cb_stream b)), so_update_params = (\<lambda>f. map_stream (set_sp f))\<rparr>"

definition audio_stream_sink_ops :: "comp_buffer sink_ops" where
  "audio_stream_sink_ops = \<lparr>get_free_size = (\<lambda>b. audio_stream_get_free_bytes (cb_stream b)),
     get_buffer = audio_stream_get_buffer, commit_buffer = audio_stream_commit_buffer,
     sk_on_audio_format_set = Some stream_format_set, sk_audio_set_ipc_params = Some audio_stream_set_ipc_params,
     sk_set_alignment_constants = Some audio_stream_set_alignment_constants,
     sk_params = (\<lambda>b. runtime_stream_params (cb_stream b)), sk_update_params = (\<lambda>f. map_stream (set_sp f))\<rparr>"

definition buffer_source :: "comp_buffer \<Rightarrow> comp_buffer sof_source" where
  "buffer_source b = \<lparr>so_impl = b, requested_read_frag_size = requested_read_frag_size (cb_source_api b),
     so_num_of_bytes_processed = so_num_of_bytes_processed (cb_source_api b), min_available = min_available (cb_source_api b)\<rparr>"

definition buffer_sink :: "comp_buffer \<Rightarrow> comp_buffer sof_sink" where
  "buffer_sink b = \<lparr>sk_impl = b, requested_write_frag_size = requested_write_frag_size (cb_sink_api b),
     sk_num_of_bytes_processed = sk_num_of_bytes_processed (cb_sink_api b), min_free_space = min_free_space (cb_sink_api b)\<rparr>"

definition put_source :: "comp_buffer sof_source \<Rightarrow> comp_buffer" where
  "put_source h = (so_impl h)\<lparr>cb_source_api := unit_source h\<rparr>"

definition put_sink :: "comp_buffer sof_sink \<Rightarrow> comp_buffer" where
  "put_sink h = (sk_impl h)\<lparr>cb_sink_api := unit_sink h\<rparr>"

section \<open>Allocation, resizing and release\<close>

definition buffer_init :: "comp_buffer \<Rightarrow> nat \<Rightarrow> nat \<Rightarrow> comp_buffer" where
  "buffer_init b sz cap =
     b\<lparr>cb_caps := cap, cb_stream := audio_stream_init (cb_stream b) (addr (cb_stream b)) sz,
       cb_source_api := source_init (cb_source_api b) (), cb_sink_api := sink_init (cb_sink_api b) ()\<rparr>"

text \<open>A buffer structure as \<^verbatim>\<open>rzalloc\<close> leaves it.\<close>

definition zero_params :: sof_audio_stream_params where
  "zero_params = \<lparr>sp_id = 0, sp_pipeline_id = 0, frame_fmt = SOF_IPC_FRAME_S16_LE, valid_sample_fmt = SOF_IPC_FRAME_S16_LE,
     rate = 0, channels = 0, align_frame_cnt = 0, align_shift_idx = 0, overrun_permitted = False,
     underrun_permitted = False, buffer_fmt = 0\<rparr>"

definition zero_buffer :: comp_buffer where
  "zero_buffer = \<lparr>cb_stream = \<lparr>st_size = 0, st_avail = 0, st_free = 0, w_ptr = 0, r_ptr = 0, addr = 0, end_addr = 0,
       byte_align_req = 0, frame_align_req = 0, runtime_stream_params = zero_params\<rparr>,
     cb_source_api = zero_source, cb_sink_api = zero_sink, cb_caps = 0, cb_core = 0, is_shared = False, cb_source = 0, cb_sink = 0,
     source_list = 0, sink_list = 0, cb_chmap = replicate 8 0, hw_params_configured = False, walking = False\<rparr>"

text \<open>
  \<open>buf_size\<close> is \<^verbatim>\<open>sizeof(struct comp_buffer)\<close>; \<open>src_off\<close> and \<open>snk_off\<close> are the offsets of its two list items. The result is
  \<open>None\<close> for \<^verbatim>\<open>NULL\<close>, or the address of the buffer and its value.
\<close>

definition buffer_alloc ::
    "platform \<Rightarrow> nat \<Rightarrow> nat \<Rightarrow> nat \<Rightarrow> nat \<Rightarrow> mm \<times> memory \<Rightarrow> list_store \<Rightarrow> nat \<Rightarrow> nat \<Rightarrow> nat \<Rightarrow> nat \<Rightarrow> bool
       \<Rightarrow> ((mm \<times> memory) \<times> list_store \<times> (nat \<times> comp_buffer) option) outcome" where
  "buffer_alloc p core buf_size src_off snk_off st links sz cap flags align shared =
     (if sz = 0 then Done (st, links, None)
      else obind (rzalloc p core (if shared then SOF_MEM_ZONE_RUNTIME_SHARED else SOF_MEM_ZONE_RUNTIME) st SOF_MEM_CAPS_RAM buf_size)
        (\<lambda>(st1, ptr).
           if ptr = 0 then Done (st1, links, None)
           else obind (rballoc_align p (fst st1) 0 cap sz align)
             (\<lambda>(mm2, stream_addr).
                if stream_addr = 0 then obind (rfree p core mm2 ptr) (\<lambda>mm3. Done ((mm3, snd st1), links, None))
                else
                  let b0 = zero_buffer\<lparr>is_shared := shared, source_list := ptr + src_off, sink_list := ptr + snk_off\<rparr>;
                      b1 = buffer_init (map_stream (\<lambda>s. audio_stream_set_addr s stream_addr) b0) sz cap;
                      b2 = map_stream (\<lambda>s. audio_stream_set_overrun
                             (audio_stream_set_underrun s (flags AND SOF_BUF_UNDERRUN_PERMITTED \<noteq> 0))
                             (flags AND SOF_BUF_OVERRUN_PERMITTED \<noteq> 0)) b1
                  in Done ((mm2, snd st1), list_init (sink_list b2) (list_init (source_list b2) links), Some (ptr, b2)))))"

definition buffer_zero :: "comp_buffer \<Rightarrow> memory \<Rightarrow> memory" where
  "buffer_zero b mem = bzero mem (addr (cb_stream b)) (st_size (cb_stream b))"

definition buffer_zero_writeback :: "comp_buffer \<Rightarrow> (nat \<times> nat) list" where
  "buffer_zero_writeback b =
     (if cb_caps b AND SOF_MEM_CAPS_DMA \<noteq> 0 then [(addr (cb_stream b), st_size (cb_stream b))] else [])"

definition buffer_reset_pos :: "comp_buffer \<Rightarrow> memory \<Rightarrow> comp_buffer \<times> memory" where
  "buffer_reset_pos b mem =
     (let b1 = map_stream audio_stream_reset b in (b1, buffer_zero b1 mem))"

definition buffer_set_size ::
    "platform \<Rightarrow> nat \<Rightarrow> mm \<times> memory \<Rightarrow> comp_buffer \<Rightarrow> nat \<Rightarrow> nat \<Rightarrow> ((mm \<times> memory) \<times> comp_buffer \<times> int) outcome" where
  "buffer_set_size p core st b sz alignment =
     (if sz = 0 then Done (st, b, - EINVAL)
      else if sz = st_size (cb_stream b) then Done (st, b, 0)
      else obind (rbrealloc_align p core st (addr (cb_stream b)) SOF_MEM_FLAG_NO_COPY (cb_caps b) sz (st_size (cb_stream b))
                    (if alignment = 0 then PLATFORM_DCACHE_ALIGN p else alignment))
        (\<lambda>(st1, new_ptr).
           if new_ptr = 0 \<and> st_size (cb_stream b) < sz then Done (st1, b, - ENOMEM)
           else
             let b1 = (if new_ptr \<noteq> 0 then map_stream (\<lambda>s. audio_stream_set_addr s new_ptr) b else b)
             in Done (st1, buffer_init b1 sz (cb_caps b1), 0)))"

section \<open>Shadow queues\<close>

text \<open>A buffer with the dp_queues that replace one of its interfaces.\<close>

record shadowed_buffer =
  sh_buffer :: comp_buffer
  dp_queue_sink :: "(nat \<times> dp_queue) option"
  dp_queue_source :: "(nat \<times> dp_queue) option"

definition buffer_create_shadow_dp_queue ::
    "platform \<Rightarrow> nat \<Rightarrow> nat \<Rightarrow> mm \<times> memory \<Rightarrow> shadowed_buffer \<Rightarrow> bool \<Rightarrow> ((mm \<times> memory) \<times> shadowed_buffer \<times> int) outcome" where
  "buffer_create_shadow_dp_queue p core dq_size st sb at_input =
     (if dp_queue_sink sb \<noteq> None \<or> dp_queue_source sb \<noteq> None then Done (st, sb, - EINVAL)
      else
        let b = sh_buffer sb; sp = runtime_stream_params (cb_stream b)
        in obind (dp_queue_create p core dq_size st (min_available (cb_source_api b)) (min_free_space (cb_sink_api b))
                    (if is_shared b then DP_QUEUE_MODE_SHARED else DP_QUEUE_MODE_LOCAL) (sp_id sp) sp)
             (\<lambda>(st1, q).
                if q = None then Done (st1, sb, - ENOMEM)
                else if at_input then Done (st1, sb\<lparr>dp_queue_sink := q\<rparr>, 0)
                else Done (st1, sb\<lparr>dp_queue_source := q\<rparr>, 0)))"

definition buffer_sync_shadow_dp_queue ::
    "shadowed_buffer \<Rightarrow> nat \<Rightarrow> memory \<Rightarrow> (shadowed_buffer \<times> memory \<times> int) outcome option" where
  "buffer_sync_shadow_dp_queue sb limit mem =
     (case dp_queue_sink sb of
        Some (ptr, q) \<Rightarrow>
          let data_src = dp_queue_get_source q; data_dst = buffer_sink (sh_buffer sb);
              to_copy = min (min (source_get_data_available dp_queue_source_ops data_src)
                                 (sink_get_free_size audio_stream_sink_ops data_dst)) limit
          in map_option (\<lambda>res. obind res (\<lambda>(src, dst, mem', err).
               Done (sb\<lparr>sh_buffer := put_sink dst, dp_queue_sink := Some (ptr, dp_queue_put_source src)\<rparr>, mem', err)))
               (source_to_sink_copy dp_queue_source_ops audio_stream_sink_ops data_src data_dst True to_copy mem)
      | None \<Rightarrow>
          (case dp_queue_source sb of
             Some (ptr, q) \<Rightarrow>
               let data_src = buffer_source (sh_buffer sb); data_dst = dp_queue_get_sink q;
                   to_copy = min (min (source_get_data_available audio_stream_source_ops data_src)
                                      (sink_get_free_size dp_queue_sink_ops data_dst)) limit
               in map_option (\<lambda>res. obind res (\<lambda>(src, dst, mem', err).
                    Done (sb\<lparr>sh_buffer := put_source src, dp_queue_source := Some (ptr, dp_queue_put_sink dst)\<rparr>, mem', err)))
                    (source_to_sink_copy audio_stream_source_ops dp_queue_sink_ops data_src data_dst True to_copy mem)
           | None \<Rightarrow> Some (Done (sb, mem, - EINVAL))))"

text \<open>\<^verbatim>\<open>buffer_free\<close> of the buffer at address \<open>ptr\<close> on core \<open>core\<close>: the deliveries of its event and the remaining state.\<close>

definition buffer_free ::
    "platform \<Rightarrow> nat \<Rightarrow> mm \<Rightarrow> notify \<Rightarrow> nat \<Rightarrow> nat \<Rightarrow> shadowed_buffer \<Rightarrow> (mm \<times> notify \<times> delivery list) outcome" where
  "buffer_free p core mm ns cb_addr ptr sb =
     (if ptr = 0 then Done (mm, ns, [])
      else
        let ds = notifier_notify ns ptr NOTIFIER_ID_BUFFER_FREE cb_addr
        in obind (notifier_unregister_all p core mm ns 0 ptr) (\<lambda>(mm1, ns1).
           obind (dp_queue_free p core mm1 (dp_queue_sink sb)) (\<lambda>mm2.
           obind (dp_queue_free p core mm2 (dp_queue_source sb)) (\<lambda>mm3.
           obind (rfree p core mm3 (addr (cb_stream (sh_buffer sb)))) (\<lambda>mm4.
           obind (rfree p core mm4 ptr) (\<lambda>mm5. Done (mm5, ns1, ds)))))))"

section \<open>Producing and consuming\<close>

text \<open>
  The transaction record, at address \<open>cb_addr\<close> of the caller's stack, and the deliveries of the event, when there is one. The
  event targets the calling core only, where it is \<open>notifier_notify\<close> (lemma \<open>notifier_event_local\<close>).
\<close>

definition comp_update_buffer_produce ::
    "notify \<Rightarrow> nat \<Rightarrow> nat \<Rightarrow> comp_buffer \<Rightarrow> nat \<Rightarrow> (comp_buffer \<times> (buffer_cb_transact \<times> delivery list) option) outcome" where
  "comp_update_buffer_produce ns cb_addr ptr b bytes =
     (if bytes = 0 then Done (b, None)
      else
        let cb_data = \<lparr>tr_buffer = ptr, transaction_amount = bytes, transaction_begin_address = w_ptr (cb_stream b)\<rparr>
        in obind (audio_stream_produce (cb_stream b) bytes) (\<lambda>s.
             Done (b\<lparr>cb_stream := s\<rparr>, Some (cb_data, notifier_notify ns ptr NOTIFIER_ID_BUFFER_PRODUCE cb_addr))))"

definition comp_update_buffer_consume ::
    "notify \<Rightarrow> nat \<Rightarrow> nat \<Rightarrow> comp_buffer \<Rightarrow> nat \<Rightarrow> (comp_buffer \<times> (buffer_cb_transact \<times> delivery list) option) outcome" where
  "comp_update_buffer_consume ns cb_addr ptr b bytes =
     (if bytes = 0 then Done (b, None)
      else
        let cb_data = \<lparr>tr_buffer = ptr, transaction_amount = bytes, transaction_begin_address = r_ptr (cb_stream b)\<rparr>
        in obind (audio_stream_consume (cb_stream b) bytes) (\<lambda>s.
             Done (b\<lparr>cb_stream := s\<rparr>, Some (cb_data, notifier_notify ns ptr NOTIFIER_ID_BUFFER_CONSUME cb_addr))))"

section \<open>Connections\<close>

definition buffer_comp_list :: "comp_buffer \<Rightarrow> nat \<Rightarrow> nat" where
  "buffer_comp_list b dir = (if dir = PPL_DIR_DOWNSTREAM then source_list b else sink_list b)"

definition buffer_attach :: "comp_buffer \<Rightarrow> nat \<Rightarrow> nat \<Rightarrow> list_store \<Rightarrow> list_store" where
  "buffer_attach b head dir links = list_item_prepend (buffer_comp_list b dir) head links"

definition buffer_detach :: "comp_buffer \<Rightarrow> nat \<Rightarrow> list_store \<Rightarrow> list_store" where
  "buffer_detach b dir links = list_item_del (buffer_comp_list b dir) links"

definition buffer_get_comp :: "comp_buffer \<Rightarrow> nat \<Rightarrow> nat" where
  "buffer_get_comp b dir = (if dir = PPL_DIR_DOWNSTREAM then cb_sink b else cb_source b)"

definition buffer_pipeline_id :: "comp_buffer \<Rightarrow> nat" where
  "buffer_pipeline_id b = sp_pipeline_id (runtime_stream_params (cb_stream b))"

end
