(* ===== verification/Buffer_Props.thy ===== *)
theory Buffer_Props
  imports Buffer MmDemo
begin

text \<open>
  Component buffers as sinks and sources: the contracts of the stream, copies between streams and
  dp_queues in all combinations, and the properties of \<^verbatim>\<open>src/audio/buffer.c\<close>.
\<close>

section \<open>The stream contracts\<close>

definition snk_ok :: "comp_buffer \<Rightarrow> bool" where
  "snk_ok b \<longleftrightarrow> stream_ok (cb_stream b) \<and> 0 < addr (cb_stream b) \<and> \<not> overrun_permitted (runtime_stream_params (cb_stream b))"

definition src_ok :: "comp_buffer \<Rightarrow> bool" where
  "src_ok b \<longleftrightarrow> stream_ok (cb_stream b) \<and> 0 < addr (cb_stream b) \<and> \<not> underrun_permitted (runtime_stream_params (cb_stream b))"

definition cb_ring :: "comp_buffer \<Rightarrow> nat \<times> nat" where
  "cb_ring b = (addr (cb_stream b), st_size (cb_stream b))"

definition cb_queue :: "memory \<Rightarrow> comp_buffer \<Rightarrow> nat list" where
  "cb_queue mem b = contents mem (cb_stream b)"

lemma stream_geometry:
  assumes "stream_ok s" and "0 < addr s"
  shows "ring_geometry (addr s, st_size s) (w_ptr s)" and "ring_geometry (addr s, st_size s) (r_ptr s)"
  using stream_okD [OF assms(1)] assms(2) by (auto simp: ring_geometry_def)

lemma moved_fields [simp]:
  "addr (moved s i l) = addr s" "st_size (moved s i l) = st_size s" "runtime_stream_params (moved s i l) = runtime_stream_params s"
  "st_avail (moved s i l) = l"
  by (simp_all add: moved_def)

interpretation cb_snk: sink_provider audio_stream_sink_ops snk_ok cb_ring "\<lambda>b. w_ptr (cb_stream b)" cb_queue
proof
  fix b
  assume "snk_ok b"
  then have ok: "stream_ok (cb_stream b)" "0 < addr (cb_stream b)" "\<not> overrun_permitted (runtime_stream_params (cb_stream b))"
    by (auto simp: snk_ok_def)
  have fr: "get_free_size audio_stream_sink_ops b = st_free (cb_stream b)"
    using ok(3) by (simp add: audio_stream_sink_ops_def audio_stream_get_free_bytes_def)
  show "ring_geometry (cb_ring b) (w_ptr (cb_stream b)) \<and> get_free_size audio_stream_sink_ops b \<le> snd (cb_ring b)"
    using stream_geometry(1) [OF ok(1,2)] stream_okD(7) [OF ok(1)] unfolding fr by (simp add: cb_ring_def)
  show "get_buffer audio_stream_sink_ops b n =
      (if get_free_size audio_stream_sink_ops b < n then Inl (- ENODATA) else Inr (w_ptr (cb_stream b), cb_ring b))" for n
    by (simp add: audio_stream_sink_ops_def audio_stream_get_buffer_def cb_ring_def)
  show "\<exists>b'. commit_buffer audio_stream_sink_ops b (length data) = Done (b', 0) \<and> snk_ok b' \<and> cb_ring b' = cb_ring b \<and>
      cb_queue mem' b' = cb_queue mem b @ data"
    if le: "length data \<le> get_free_size audio_stream_sink_ops b"
      and w: "ring_written (fst (cb_ring b)) (snd (cb_ring b)) (w_ptr (cb_stream b)) data mem mem'" for data mem mem'
  proof (cases "data = []")
    case True
    have "mem' = mem" using w by (auto simp: ring_written_def True)
    with True \<open>snk_ok b\<close> show ?thesis by (simp add: audio_stream_sink_ops_def audio_stream_commit_buffer_def)
  next
    case False
    let ?s = "moved (cb_stream b) 0 (st_avail (cb_stream b) + length data)"
    have le': "length data \<le> st_free (cb_stream b)" using le fr by simp
    have "audio_stream_produce (cb_stream b) (length data) = Done ?s"
      using produce_appends [OF ok(1) _ le'] False by simp
    moreover have "stream_ok ?s" using moved_ok [OF ok(1)] le' stream_okD(6,7) [OF ok(1)] by simp
    moreover have "contents mem' ?s = contents mem (cb_stream b) @ data"
      using contents_produce [OF ok(1) _ le'] w by (simp add: cb_ring_def)
    ultimately show ?thesis
      using False ok(2,3) by (simp add: audio_stream_sink_ops_def audio_stream_commit_buffer_def snk_ok_def cb_ring_def cb_queue_def)
  qed
qed

interpretation cb_src: source_provider audio_stream_source_ops src_ok cb_ring "\<lambda>b. r_ptr (cb_stream b)" cb_queue
proof
  fix b
  assume "src_ok b"
  then have ok: "stream_ok (cb_stream b)" "0 < addr (cb_stream b)" "\<not> underrun_permitted (runtime_stream_params (cb_stream b))"
    by (auto simp: src_ok_def)
  have av: "get_data_available audio_stream_source_ops b = st_avail (cb_stream b)"
    using ok(3) by (simp add: audio_stream_source_ops_def audio_stream_get_avail_bytes_def)
  show "ring_geometry (cb_ring b) (r_ptr (cb_stream b))"
    using stream_geometry(2) [OF ok(1,2)] by (simp add: cb_ring_def)
  show "get_data_available audio_stream_source_ops b = length (cb_queue mem b)" for mem
    unfolding av by (simp add: cb_queue_def)
  show "i < length (cb_queue mem b) \<Longrightarrow>
      cb_queue mem b ! i = mem (ring_at (fst (cb_ring b)) (snd (cb_ring b)) (r_ptr (cb_stream b)) i)" for i mem
    by (simp add: cb_queue_def cb_ring_def contents_def ring_bytes_nth)
  show "get_data audio_stream_source_ops b n =
      (if get_data_available audio_stream_source_ops b < n then Inl (- ENODATA) else Inr (r_ptr (cb_stream b), cb_ring b))" for n
    by (simp add: audio_stream_source_ops_def audio_stream_get_data_def cb_ring_def)
  show "\<exists>b'. release_data audio_stream_source_ops b n = Done (b', 0) \<and> src_ok b' \<and> cb_ring b' = cb_ring b \<and>
      (\<forall>mem. cb_queue mem b' = drop n (cb_queue mem b))"
    if le: "n \<le> get_data_available audio_stream_source_ops b" for n
  proof (cases "n = 0")
    case True
    with \<open>src_ok b\<close> show ?thesis by (simp add: audio_stream_source_ops_def audio_stream_release_data_def)
  next
    case False
    let ?s = "moved (cb_stream b) n (st_avail (cb_stream b) - n)"
    have "audio_stream_consume (cb_stream b) n = Done ?s" using consume_drops [OF ok(1)] False le av by simp
    moreover have "stream_ok ?s" using moved_ok [OF ok(1)] stream_okD(6) [OF ok(1)] by simp
    ultimately show ?thesis
      using False ok(2,3) contents_consume
      by (simp add: audio_stream_source_ops_def audio_stream_release_data_def src_ok_def cb_ring_def cb_queue_def)
  qed
qed

section \<open>Copies\<close>

interpretation q2b: transfer dp_queue_source_ops dq_ok dq_ring "\<lambda>q. dq_pos q (read_offset q)" dq_queue
  audio_stream_sink_ops snk_ok cb_ring "\<lambda>b. w_ptr (cb_stream b)" cb_queue
  by unfold_locales

interpretation b2q: transfer audio_stream_source_ops src_ok cb_ring "\<lambda>b. r_ptr (cb_stream b)" cb_queue
  dp_queue_sink_ops dq_ok dq_ring "\<lambda>q. dq_pos q (write_offset q)" dq_queue
  by unfold_locales

interpretation b2b: transfer audio_stream_source_ops src_ok cb_ring "\<lambda>b. r_ptr (cb_stream b)" cb_queue
  audio_stream_sink_ops snk_ok cb_ring "\<lambda>b. w_ptr (cb_stream b)" cb_queue
  by unfold_locales

interpretation q2q: transfer dp_queue_source_ops dq_ok dq_ring "\<lambda>q. dq_pos q (read_offset q)" dq_queue
  dp_queue_sink_ops dq_ok dq_ring "\<lambda>q. dq_pos q (write_offset q)" dq_queue
  by unfold_locales

section \<open>Handles\<close>

lemma handle_id [simp]:
  "put_sink (buffer_sink b) = b" "put_source (buffer_source b) = b"
  "dp_queue_put_source (dp_queue_get_source q) = q" "dp_queue_put_sink (dp_queue_get_sink q) = q"
  by (simp_all add: put_sink_def buffer_sink_def put_source_def buffer_source_def dp_queue_put_source_def dp_queue_get_source_def
      dp_queue_put_sink_def dp_queue_get_sink_def unit_source_def unit_sink_def)

lemma handle_state [simp]:
  "snk_ok (put_sink k) = snk_ok (sk_impl k)" "cb_queue mem (put_sink k) = cb_queue mem (sk_impl k)"
  "src_ok (put_source h) = src_ok (so_impl h)" "cb_queue mem (put_source h) = cb_queue mem (so_impl h)"
  "dq_ok (dp_queue_put_source g) = dq_ok (so_impl g)" "dq_queue mem (dp_queue_put_source g) = dq_queue mem (so_impl g)"
  "dq_ok (dp_queue_put_sink j) = dq_ok (sk_impl j)" "dq_queue mem (dp_queue_put_sink j) = dq_queue mem (sk_impl j)"
  by (simp_all add: put_sink_def put_source_def dp_queue_put_source_def dp_queue_put_sink_def snk_ok_def src_ok_def cb_queue_def
      dq_ok_def dq_queue_def dq_level_def dq_pos_def)

definition rings_apart :: "nat \<times> nat \<Rightarrow> nat \<times> nat \<Rightarrow> bool" where
  "rings_apart r s \<longleftrightarrow> fst r + snd r \<le> fst s \<or> fst s + snd s \<le> fst r"

section \<open>Claims\<close>

text \<open>
  (C2) Synchronising a buffer with the dp_queue at its input (\<^verbatim>\<open>buffer_sync_shadow_dp_queue\<close>) always
  returns success and moves as many bytes as the queue has, the buffer has room for and the limit
  permits: they leave the front of the queue and appear, in order, at the end of the buffer, and both keep
  their invariants.
\<close>

theorem shadow_sync_input:
  assumes "dp_queue_sink sb = Some (ptr, q)" and "dq_ok q" and "snk_ok (sh_buffer sb)" and "rings_apart (dq_ring q) (cb_ring (sh_buffer sb))"
    and "requested_read_frag_size (dq_source_api q) = 0" and "requested_write_frag_size (cb_sink_api (sh_buffer sb)) = 0"
    and "n = min (min (dq_level q) (st_free (cb_stream (sh_buffer sb)))) limit"
  shows "\<exists>sb' q' mem'. buffer_sync_shadow_dp_queue sb limit mem = Some (Done (sb', mem', 0)) \<and>
    dp_queue_sink sb' = Some (ptr, q') \<and> dq_ok q' \<and> snk_ok (sh_buffer sb') \<and>
    cb_queue mem' (sh_buffer sb') = cb_queue mem (sh_buffer sb) @ take n (dq_queue mem q) \<and>
    dq_queue mem' q' = drop n (dq_queue mem q)"
proof -
  let ?src = "dp_queue_get_source q" and ?snk = "buffer_sink (sh_buffer sb)"
  have av: "source_get_data_available dp_queue_source_ops ?src = dq_level q"
    by (simp add: source_get_data_available_def dp_queue_get_source_def dp_queue_source_ops_def data_available_level [OF assms(2)])
  have fr: "sink_get_free_size audio_stream_sink_ops ?snk = st_free (cb_stream (sh_buffer sb))"
    using assms(3) by (simp add: sink_get_free_size_def buffer_sink_def audio_stream_sink_ops_def audio_stream_get_free_bytes_def snk_ok_def)
  show ?thesis
  proof (cases "n = 0")
    case True
    then show ?thesis
      using assms(1-3) av fr assms(7) by (auto simp: buffer_sync_shadow_dp_queue_def Let_def source_to_sink_copy_def)
  next
    case False
    have impl: "so_impl ?src = q" "sk_impl ?snk = sh_buffer sb" by (simp_all add: dp_queue_get_source_def buffer_sink_def)
    have le: "n \<le> get_data_available dp_queue_source_ops q" "n \<le> get_free_size audio_stream_sink_ops (sh_buffer sb)"
      using av fr assms(7) impl by (simp_all add: source_get_data_available_def sink_get_free_size_def)
    have "n \<le> INT_MAX" using assms(7) dq_okD(3,7) [OF assms(2)] by (auto simp: INT_MAX_def)
    then have "\<exists>source' sink' mem'. source_to_sink_copy dp_queue_source_ops audio_stream_sink_ops ?src ?snk True n mem =
        Some (Done (source', sink', mem', 0)) \<and> dq_ok (so_impl source') \<and> snk_ok (sk_impl sink') \<and>
        requested_read_frag_size source' = 0 \<and> requested_write_frag_size sink' = 0 \<and>
        cb_queue mem' (sk_impl sink') = cb_queue mem (sk_impl ?snk) @ take n (dq_queue mem (so_impl ?src)) \<and>
        dq_queue mem' (so_impl source') = (if True then drop n (dq_queue mem (so_impl ?src)) else dq_queue mem (so_impl ?src))"
      using assms(2-6) le False impl
      by (intro q2b.copy_moves) (auto simp: dp_queue_get_source_def buffer_sink_def rings_apart_def)
    then show ?thesis
      using assms(1,7) av fr impl by (fastforce simp: buffer_sync_shadow_dp_queue_def Let_def)
  qed
qed

definition demo_queue :: "nat \<Rightarrow> dp_queue" where
  "demo_queue a = \<lparr>audio_stream_params = zero_params, data_buffer_size = 16, dq_source_api = zero_source, dq_sink_api = zero_sink,
     dq_flags = 0, data_buffer = a, write_offset = 3, read_offset = 25, dq_hw_params_configured = False\<rparr>"

definition demo_buffer :: "nat \<Rightarrow> comp_buffer" where
  "demo_buffer a = zero_buffer\<lparr>cb_stream := demo_stream a\<rparr>"

theorem shadow_sync_input_witness:
  "let sb = \<lparr>sh_buffer = demo_buffer 2000, dp_queue_sink = Some (500, demo_queue 1000), dp_queue_source = None\<rparr> in
   \<exists>sb' q' mem'. buffer_sync_shadow_dp_queue sb 6 (\<lambda>a. a mod 256) = Some (Done (sb', mem', 0)) \<and>
    dp_queue_sink sb' = Some (500, q') \<and> dq_ok q' \<and> snk_ok (sh_buffer sb') \<and>
    cb_queue mem' (sh_buffer sb') = cb_queue (\<lambda>a. a mod 256) (sh_buffer sb) @ take 6 (dq_queue (\<lambda>a. a mod 256) (demo_queue 1000)) \<and>
    dq_queue mem' q' = drop 6 (dq_queue (\<lambda>a. a mod 256) (demo_queue 1000))"
  unfolding Let_def
  by (rule shadow_sync_input)
    (simp_all add: demo_queue_def demo_buffer_def zero_buffer_def demo_stream_def dq_ok_def dq_level_def snk_ok_def stream_ok_def
      ring_at_def rings_apart_def cb_ring_def zero_source_def zero_sink_def)

text \<open>
  (C10) The same for the dp_queue at the output of a buffer: the bytes leave the front of the buffer and
  appear at the end of the queue.
\<close>

theorem shadow_sync_output:
  assumes "dp_queue_sink sb = None" and "dp_queue_source sb = Some (ptr, q)" and "dq_ok q" and "src_ok (sh_buffer sb)"
    and "rings_apart (cb_ring (sh_buffer sb)) (dq_ring q)"
    and "requested_write_frag_size (dq_sink_api q) = 0" and "requested_read_frag_size (cb_source_api (sh_buffer sb)) = 0"
    and "n = min (min (st_avail (cb_stream (sh_buffer sb))) (data_buffer_size q - dq_level q)) limit"
  shows "\<exists>sb' q' mem'. buffer_sync_shadow_dp_queue sb limit mem = Some (Done (sb', mem', 0)) \<and>
    dp_queue_source sb' = Some (ptr, q') \<and> dq_ok q' \<and> src_ok (sh_buffer sb') \<and>
    dq_queue mem' q' = dq_queue mem q @ take n (cb_queue mem (sh_buffer sb)) \<and>
    cb_queue mem' (sh_buffer sb') = drop n (cb_queue mem (sh_buffer sb))"
proof -
  let ?src = "buffer_source (sh_buffer sb)" and ?snk = "dp_queue_get_sink q"
  have av: "source_get_data_available audio_stream_source_ops ?src = st_avail (cb_stream (sh_buffer sb))"
    using assms(4) by (simp add: source_get_data_available_def buffer_source_def audio_stream_source_ops_def
        audio_stream_get_avail_bytes_def src_ok_def)
  have fr: "sink_get_free_size dp_queue_sink_ops ?snk = data_buffer_size q - dq_level q"
    by (simp add: sink_get_free_size_def dp_queue_get_sink_def dp_queue_sink_ops_def free_size_level [OF assms(3)])
  show ?thesis
  proof (cases "n = 0")
    case True
    then show ?thesis
      using assms(1-4) av fr assms(8) by (auto simp: buffer_sync_shadow_dp_queue_def Let_def source_to_sink_copy_def)
  next
    case False
    have impl: "so_impl ?src = sh_buffer sb" "sk_impl ?snk = q" by (simp_all add: dp_queue_get_sink_def buffer_source_def)
    have le: "n \<le> get_data_available audio_stream_source_ops (sh_buffer sb)" "n \<le> get_free_size dp_queue_sink_ops q"
      using av fr assms(8) impl by (simp_all add: source_get_data_available_def sink_get_free_size_def)
    have "n \<le> INT_MAX" using assms(8) dq_okD(3) [OF assms(3)] by (auto simp: INT_MAX_def)
    then have "\<exists>source' sink' mem'. source_to_sink_copy audio_stream_source_ops dp_queue_sink_ops ?src ?snk True n mem =
        Some (Done (source', sink', mem', 0)) \<and> src_ok (so_impl source') \<and> dq_ok (sk_impl sink') \<and>
        requested_read_frag_size source' = 0 \<and> requested_write_frag_size sink' = 0 \<and>
        dq_queue mem' (sk_impl sink') = dq_queue mem (sk_impl ?snk) @ take n (cb_queue mem (so_impl ?src)) \<and>
        cb_queue mem' (so_impl source') = (if True then drop n (cb_queue mem (so_impl ?src)) else cb_queue mem (so_impl ?src))"
      using assms(3-7) le False impl
      by (intro b2q.copy_moves) (auto simp: dp_queue_get_sink_def buffer_source_def rings_apart_def)
    then show ?thesis
      using assms(1,2,8) av fr impl by (fastforce simp: buffer_sync_shadow_dp_queue_def Let_def)
  qed
qed

theorem shadow_sync_output_witness:
  "let sb = \<lparr>sh_buffer = demo_buffer 2000, dp_queue_sink = None, dp_queue_source = Some (500, demo_queue 1000)\<rparr> in
   \<exists>sb' q' mem'. buffer_sync_shadow_dp_queue sb 100 (\<lambda>a. a mod 256) = Some (Done (sb', mem', 0)) \<and>
    dp_queue_source sb' = Some (500, q') \<and> dq_ok q' \<and> src_ok (sh_buffer sb') \<and>
    dq_queue mem' q' = dq_queue (\<lambda>a. a mod 256) (demo_queue 1000) @ take 6 (cb_queue (\<lambda>a. a mod 256) (sh_buffer sb)) \<and>
    cb_queue mem' (sh_buffer sb') = drop 6 (cb_queue (\<lambda>a. a mod 256) (sh_buffer sb))"
  unfolding Let_def
  by (rule shadow_sync_output)
    (simp_all add: demo_queue_def demo_buffer_def zero_buffer_def demo_stream_def dq_ok_def dq_level_def src_ok_def stream_ok_def
      ring_at_def rings_apart_def cb_ring_def zero_source_def zero_sink_def)

text \<open>
  (C26) A copy that cannot be done changes no data: with too few bytes in the source \<^verbatim>\<open>source_to_sink_copy\<close>
  returns \<^verbatim>\<open>-EFBIG\<close>, with too little room \<^verbatim>\<open>-ENOSPC\<close>, and when a write to the sink is already in progress
  \<^verbatim>\<open>-EBUSY\<close> after giving the source fragment back, so that the next reader is not blocked.
\<close>

theorem copy_refusals:
  assumes "src_ok (so_impl source)" and "requested_read_frag_size source = 0" and "0 < sz"
  shows "(get_data_available audio_stream_source_ops (so_impl source) < sz \<longrightarrow>
      source_to_sink_copy audio_stream_source_ops audio_stream_sink_ops source sink f sz mem = Some (Done (source, sink, mem, - EFBIG))) \<and>
    (sz \<le> get_data_available audio_stream_source_ops (so_impl source) \<and> get_free_size audio_stream_sink_ops (sk_impl sink) < sz \<longrightarrow>
      source_to_sink_copy audio_stream_source_ops audio_stream_sink_ops source sink f sz mem = Some (Done (source, sink, mem, - ENOSPC))) \<and>
    (sz \<le> get_data_available audio_stream_source_ops (so_impl source) \<and> sz \<le> get_free_size audio_stream_sink_ops (sk_impl sink) \<and>
       requested_write_frag_size sink \<noteq> 0 \<longrightarrow>
      (\<exists>source'. source_to_sink_copy audio_stream_source_ops audio_stream_sink_ops source sink f sz mem =
         Some (Done (source', sink, mem, - EBUSY)) \<and> requested_read_frag_size source' = 0 \<and> so_impl source' = so_impl source))"
  using assms
  by (auto simp: source_to_sink_copy_def source_get_data_available_def sink_get_free_size_def source_get_data_def sink_get_buffer_def
      source_release_data_def audio_stream_source_ops_def audio_stream_get_data_def audio_stream_release_data_def Let_def)

theorem copy_refusals_witness:
  "let source = buffer_source (demo_buffer 2000); sink = (buffer_sink (demo_buffer 3000))\<lparr>requested_write_frag_size := 4\<rparr> in
   (get_data_available audio_stream_source_ops (so_impl source) < 2 \<longrightarrow>
      source_to_sink_copy audio_stream_source_ops audio_stream_sink_ops source sink True 2 (\<lambda>_. 0) = Some (Done (source, sink, \<lambda>_. 0, - EFBIG))) \<and>
    (2 \<le> get_data_available audio_stream_source_ops (so_impl source) \<and> get_free_size audio_stream_sink_ops (sk_impl sink) < 2 \<longrightarrow>
      source_to_sink_copy audio_stream_source_ops audio_stream_sink_ops source sink True 2 (\<lambda>_. 0) = Some (Done (source, sink, \<lambda>_. 0, - ENOSPC))) \<and>
    (2 \<le> get_data_available audio_stream_source_ops (so_impl source) \<and> 2 \<le> get_free_size audio_stream_sink_ops (sk_impl sink) \<and>
       requested_write_frag_size sink \<noteq> 0 \<longrightarrow>
      (\<exists>source'. source_to_sink_copy audio_stream_source_ops audio_stream_sink_ops source sink True 2 (\<lambda>_. 0) =
         Some (Done (source', sink, \<lambda>_. 0, - EBUSY)) \<and> requested_read_frag_size source' = 0 \<and> so_impl source' = so_impl source))"
  unfolding Let_def
  by (rule copy_refusals)
    (simp_all add: buffer_source_def demo_buffer_def zero_buffer_def demo_stream_def src_ok_def stream_ok_def ring_at_def zero_source_def)

text \<open>
  (C27) Stream parameters are set once: \<^verbatim>\<open>buffer_set_params\<close> on a fresh buffer, or with a forced
  update, succeeds and afterwards \<^verbatim>\<open>buffer_params_match\<close> holds for every combination of its flags; a later unforced
  call succeeds and changes nothing until \<^verbatim>\<open>buffer_reset_params\<close>.
\<close>

theorem buffer_params_sticky:
  assumes "\<not> hw_params_configured b \<or> force"
  shows "\<exists>b'. buffer_set_params b (Some p) force = (b', 0) \<and> hw_params_configured b' \<and>
    (\<forall>flag. buffer_params_match b' (Some p) flag = Done True) \<and> cb_chmap b' = ipc_chmap p \<and>
    (\<forall>q. buffer_set_params b' (Some q) False = (b', 0)) \<and>
    (\<forall>q. \<exists>b''. buffer_set_params (buffer_reset_params b') (Some q) False = (b'', 0) \<and> buffer_params_match b'' (Some q) 15 = Done True)"
  using assms
  by (auto simp: buffer_set_params_def buffer_params_match_def buffer_reset_params_def audio_stream_set_params_def
      audio_stream_set_buffer_fmt_def set_sp_def audio_stream_recalc_align_def Let_def)

theorem buffer_params_sticky_witness:
  "let b = demo_buffer 2000; p = \<lparr>ipc_frame_fmt = SOF_IPC_FRAME_S32_LE, ipc_buffer_fmt = 1, ipc_rate = 16000, ipc_channels = 4, ipc_chmap = [0, 1, 2, 3, 0, 0, 0, 0], ipc_direction = 0\<rparr> in
   \<exists>b'. buffer_set_params b (Some p) False = (b', 0) \<and> hw_params_configured b' \<and>
    (\<forall>flag. buffer_params_match b' (Some p) flag = Done True) \<and> cb_chmap b' = ipc_chmap p \<and>
    (\<forall>q. buffer_set_params b' (Some q) False = (b', 0)) \<and>
    (\<forall>q. \<exists>b''. buffer_set_params (buffer_reset_params b') (Some q) False = (b'', 0) \<and> buffer_params_match b'' (Some q) 15 = Done True)"
  unfolding Let_def by (rule buffer_params_sticky) (simp add: demo_buffer_def zero_buffer_def)

lemma init_stream_ok:
  assumes "0 < sz" and "addr s + sz + sz < 2 ^ 32"
  shows "stream_ok (audio_stream_init s (addr s) sz)" and "st_size (audio_stream_init s (addr s) sz) = sz"
    and "st_avail (audio_stream_init s (addr s) sz) = 0" and "addr (audio_stream_init s (addr s) sz) = addr s"
  using assms
  by (simp_all add: audio_stream_init_def audio_stream_reset_def audio_stream_set_align_def audio_stream_recalc_align_def Let_def
      stream_ok_def u32_id)

lemma live_below:
  assumes "mm_ok core mm1" and "same_buffers mm mm1" and "\<forall>h\<in>set (buffer mm). heap h + heap_size h + sz < 2 ^ 32"
    and "y \<in> buffers_live mm1" and "{q..<q + n} \<subseteq> extent y" and "0 < n"
  shows "q + n + sz < 2 ^ 32"
proof -
  obtain k where k: "k < length (buffer mm1)" "y \<in> live (buffer mm1 ! k)"
    using assms(4) by (auto simp: buffers_live_def in_set_conv_nth)
  have "q + n - 1 \<in> heap_span (buffer mm1 ! k)"
    using live_in_span [OF mm_okD(3) [OF assms(1) k(1)] k(2)] assms(5,6) by (auto simp: subset_iff)
  moreover have "k < length (buffer mm)" "same_span (buffer mm ! k) (buffer mm1 ! k)"
    using assms(2) k(1) by (auto simp: same_buffers_def list_all2_conv_all_nth)
  moreover from this have "heap (buffer mm ! k) + heap_size (buffer mm ! k) + sz < 2 ^ 32" using assms(3) by simp
  ultimately show ?thesis using assms(6) by (auto simp: heap_span_def same_span_def)
qed



end
