(* ===== verification/Component.thy ===== *)
theory Component
  imports Buffer_Props "HOL-Library.Sublist"
begin

text \<open>
  Component devices, \<^verbatim>\<open>src/audio/component.c\<close>, \<^verbatim>\<open>src/include/sof/audio/component.h\<close> and
  \<^verbatim>\<open>component_ext.h\<close>: the state machine, copy limits, period frames and the small predicates
  that the pipelines use. The operations of a driver are parameters of the pipeline theories.
\<close>

section \<open>State\<close>

datatype comp_state =
    COMP_STATE_INIT
  | COMP_STATE_READY
  | COMP_STATE_SUSPEND
  | COMP_STATE_PREPARE
  | COMP_STATE_PAUSED
  | COMP_STATE_ACTIVE
  | COMP_STATE_PRE_ACTIVE

datatype comp_cmd =
    COMP_TRIGGER_STOP
  | COMP_TRIGGER_START
  | COMP_TRIGGER_PAUSE
  | COMP_TRIGGER_RELEASE
  | COMP_TRIGGER_RESET
  | COMP_TRIGGER_PREPARE
  | COMP_TRIGGER_XRUN
  | COMP_TRIGGER_PRE_START
  | COMP_TRIGGER_PRE_RELEASE
  | COMP_TRIGGER_POST_STOP
  | COMP_TRIGGER_POST_PAUSE
  | COMP_TRIGGER_NO_ACTION

datatype comp_type = SOF_COMP_HOST | SOF_COMP_DAI | SOF_COMP_OTHER nat

datatype endpoint_type = COMP_ENDPOINT_HOST | COMP_ENDPOINT_DAI | COMP_ENDPOINT_NODE

datatype proc_domain = COMP_PROCESSING_DOMAIN_LL | COMP_PROCESSING_DOMAIN_DP

definition SOF_IPC_STREAM_PLAYBACK :: nat where "SOF_IPC_STREAM_PLAYBACK = 0"
definition SOF_IPC_STREAM_CAPTURE :: nat where "SOF_IPC_STREAM_CAPTURE = 1"
definition COMP_STATUS_STATE_ALREADY_SET :: int where "COMP_STATUS_STATE_ALREADY_SET = 1"

text \<open>
  The fields that the core reads and writes. \<open>dev_pipeline\<close> is the pipeline the component belongs to (\<open>None\<close> for
  \<^verbatim>\<open>NULL\<close>), \<open>dev_task\<close> says whether it has a task of its own, the buffer lists hold buffer addresses.
\<close>

record comp_dev =
  dev_id :: nat
  dev_pipeline_id :: nat
  dev_type :: comp_type
  dev_core :: nat
  dev_domain :: proc_domain
  dev_state :: comp_state
  dev_frames :: nat
  dev_pipeline :: "nat option"
  dev_task :: bool
  dev_period :: nat
  dev_priority :: nat
  dev_is_shared :: bool
  dev_direction :: nat
  bsource_list :: "nat list"
  bsink_list :: "nat list"

section \<open>State machine\<close>

fun comp_get_requested_state :: "comp_cmd \<Rightarrow> comp_state" where
  "comp_get_requested_state COMP_TRIGGER_START = COMP_STATE_ACTIVE"
| "comp_get_requested_state COMP_TRIGGER_RELEASE = COMP_STATE_ACTIVE"
| "comp_get_requested_state COMP_TRIGGER_PREPARE = COMP_STATE_PREPARE"
| "comp_get_requested_state COMP_TRIGGER_STOP = COMP_STATE_PREPARE"
| "comp_get_requested_state COMP_TRIGGER_PAUSE = COMP_STATE_PAUSED"
| "comp_get_requested_state COMP_TRIGGER_XRUN = COMP_STATE_READY"
| "comp_get_requested_state COMP_TRIGGER_RESET = COMP_STATE_READY"
| "comp_get_requested_state COMP_TRIGGER_PRE_START = COMP_STATE_PRE_ACTIVE"
| "comp_get_requested_state COMP_TRIGGER_PRE_RELEASE = COMP_STATE_PRE_ACTIVE"
| "comp_get_requested_state _ = COMP_STATE_INIT"

text \<open>The states from which a command is accepted; \<open>None\<close> for the commands that the switch ignores.\<close>

fun accepted_from :: "comp_cmd \<Rightarrow> (comp_state \<Rightarrow> bool) option" where
  "accepted_from COMP_TRIGGER_START = Some (\<lambda>s. s = COMP_STATE_PRE_ACTIVE)"
| "accepted_from COMP_TRIGGER_RELEASE = Some (\<lambda>s. s = COMP_STATE_PRE_ACTIVE)"
| "accepted_from COMP_TRIGGER_STOP = Some (\<lambda>s. s = COMP_STATE_ACTIVE \<or> s = COMP_STATE_PAUSED)"
| "accepted_from COMP_TRIGGER_PAUSE = Some (\<lambda>s. s = COMP_STATE_ACTIVE)"
| "accepted_from COMP_TRIGGER_RESET = Some (\<lambda>s. True)"
| "accepted_from COMP_TRIGGER_PREPARE = Some (\<lambda>s. s = COMP_STATE_READY)"
| "accepted_from COMP_TRIGGER_PRE_START = Some (\<lambda>s. s = COMP_STATE_PREPARE)"
| "accepted_from COMP_TRIGGER_PRE_RELEASE = Some (\<lambda>s. s = COMP_STATE_PAUSED)"
| "accepted_from _ = None"

text \<open>\<open>ipc4\<close> is \<^verbatim>\<open>CONFIG_IPC_MAJOR_4\<close>.\<close>

definition comp_set_state :: "bool \<Rightarrow> comp_state \<Rightarrow> comp_cmd \<Rightarrow> comp_state \<times> int" where
  "comp_set_state ipc4 s cmd =
     (if s = comp_get_requested_state cmd then (s, if ipc4 then 0 else COMP_STATUS_STATE_ALREADY_SET)
      else case accepted_from cmd of
             None \<Rightarrow> (s, 0)
           | Some ok \<Rightarrow> if ok s then (comp_get_requested_state cmd, 0) else (s, - EINVAL))"

definition dev_set_state :: "bool \<Rightarrow> comp_dev \<Rightarrow> comp_cmd \<Rightarrow> comp_dev \<times> int" where
  "dev_set_state ipc4 dev cmd =
     (let (s, ret) = comp_set_state ipc4 (dev_state dev) cmd in (dev\<lparr>dev_state := s\<rparr>, ret))"

section \<open>Predicates\<close>

definition comp_is_single_pipeline :: "comp_dev \<Rightarrow> comp_dev \<Rightarrow> bool" where
  "comp_is_single_pipeline current previous \<longleftrightarrow> dev_pipeline_id current = dev_pipeline_id previous"

definition comp_is_active :: "comp_dev \<Rightarrow> bool" where
  "comp_is_active dev \<longleftrightarrow> dev_state dev = COMP_STATE_ACTIVE"

fun comp_get_endpoint_type :: "comp_type \<Rightarrow> endpoint_type" where
  "comp_get_endpoint_type SOF_COMP_HOST = COMP_ENDPOINT_HOST"
| "comp_get_endpoint_type SOF_COMP_DAI = COMP_ENDPOINT_DAI"
| "comp_get_endpoint_type _ = COMP_ENDPOINT_NODE"

definition comp_make_shared :: "comp_dev \<Rightarrow> comp_dev" where
  "comp_make_shared dev = dev\<lparr>dev_is_shared := True\<rparr>"

definition comp_buffer_list :: "comp_dev \<Rightarrow> nat \<Rightarrow> nat list" where
  "comp_buffer_list dev dir = (if dir = PPL_DIR_DOWNSTREAM then bsink_list dev else bsource_list dev)"

definition comp_register :: "nat \<Rightarrow> nat \<Rightarrow> list_store \<Rightarrow> list_store" where
  "comp_register drv_item drivers links = list_item_prepend drv_item drivers links"

definition comp_unregister :: "nat \<Rightarrow> list_store \<Rightarrow> list_store" where
  "comp_unregister drv_item links = list_item_del drv_item links"

section \<open>Periods and copy limits\<close>

definition SOF_DIV_ROUND_UP :: "nat \<Rightarrow> nat \<Rightarrow> nat" where
  "SOF_DIV_ROUND_UP val dv = (val + dv - 1) div dv"

definition nearest_rate :: "nat \<Rightarrow> nat" where
  "nearest_rate r = (if r = 44100 then 48000 else if r = 88200 then 96000 else if r = 176400 then 192000 else r)"

definition component_set_nearest_period_frames :: "comp_dev \<Rightarrow> nat \<Rightarrow> comp_dev outcome" where
  "component_set_nearest_period_frames current r =
     (let n = SOF_DIV_ROUND_UP (nearest_rate r * dev_period current) 1000000
      in if n < 2 ^ 32 then Done (current\<lparr>dev_frames := n\<rparr>) else Panic)"

record comp_copy_limits =
  cl_frames :: int
  cl_source_bytes :: int
  cl_sink_bytes :: int
  cl_source_frame_bytes :: int
  cl_sink_frame_bytes :: int

definition copy_limits :: "nat \<Rightarrow> comp_buffer \<Rightarrow> comp_buffer \<Rightarrow> comp_copy_limits" where
  "copy_limits n source sink =
     (let fr = s32 (int n);
          sb = s32 (int (audio_stream_frame_bytes (cb_stream source)));
          kb = s32 (int (audio_stream_frame_bytes (cb_stream sink)))
      in \<lparr>cl_frames = fr, cl_source_bytes = s32 (fr * sb), cl_sink_bytes = s32 (fr * kb),
          cl_source_frame_bytes = sb, cl_sink_frame_bytes = kb\<rparr>)"

definition comp_get_copy_limits :: "comp_buffer \<Rightarrow> comp_buffer \<Rightarrow> comp_copy_limits" where
  "comp_get_copy_limits source sink =
     copy_limits (audio_stream_avail_frames (cb_stream source) (cb_stream sink)) source sink"

definition comp_get_copy_limits_frame_aligned :: "comp_buffer \<Rightarrow> comp_buffer \<Rightarrow> comp_copy_limits" where
  "comp_get_copy_limits_frame_aligned source sink =
     copy_limits (audio_stream_avail_frames_aligned (cb_stream source) (cb_stream sink)) source sink"

section \<open>The state diagram\<close>

inductive comp_diagram :: "comp_state \<Rightarrow> comp_cmd \<Rightarrow> comp_state \<Rightarrow> bool" where
  prepare: "comp_diagram COMP_STATE_READY COMP_TRIGGER_PREPARE COMP_STATE_PREPARE"
| pre_start: "comp_diagram COMP_STATE_PREPARE COMP_TRIGGER_PRE_START COMP_STATE_PRE_ACTIVE"
| pre_release: "comp_diagram COMP_STATE_PAUSED COMP_TRIGGER_PRE_RELEASE COMP_STATE_PRE_ACTIVE"
| start: "comp_diagram COMP_STATE_PRE_ACTIVE COMP_TRIGGER_START COMP_STATE_ACTIVE"
| release: "comp_diagram COMP_STATE_PRE_ACTIVE COMP_TRIGGER_RELEASE COMP_STATE_ACTIVE"
| pause: "comp_diagram COMP_STATE_ACTIVE COMP_TRIGGER_PAUSE COMP_STATE_PAUSED"
| stop_active: "comp_diagram COMP_STATE_ACTIVE COMP_TRIGGER_STOP COMP_STATE_PREPARE"
| stop_paused: "comp_diagram COMP_STATE_PAUSED COMP_TRIGGER_STOP COMP_STATE_PREPARE"
| reset: "s \<noteq> COMP_STATE_READY \<Longrightarrow> comp_diagram s COMP_TRIGGER_RESET COMP_STATE_READY"

inductive_cases diagram_elims: "comp_diagram s c s'"

lemma set_state_diagram: "comp_diagram s c s' \<longleftrightarrow> s' \<noteq> s \<and> comp_set_state ipc4 s c = (s', 0)"
proof
  show "comp_diagram s c s' \<Longrightarrow> s' \<noteq> s \<and> comp_set_state ipc4 s c = (s', 0)"
    by (induction rule: comp_diagram.induct) (auto simp: comp_set_state_def)
  show "s' \<noteq> s \<and> comp_set_state ipc4 s c = (s', 0) \<Longrightarrow> comp_diagram s c s'"
    by (cases c) (auto simp: comp_set_state_def COMP_STATUS_STATE_ALREADY_SET_def errno split: if_splits intro: comp_diagram.intros)
qed

lemma set_state_fst: "fst (comp_set_state ipc4 s c) = s' \<longleftrightarrow> s' = s \<and> (\<forall>t. \<not> comp_diagram s c t) \<or> comp_diagram s c s'"
  unfolding set_state_diagram [of s c _ ipc4]
  by (cases c) (auto simp: comp_set_state_def split: if_splits)

definition comp_run :: "bool \<Rightarrow> comp_state \<Rightarrow> comp_cmd list \<Rightarrow> comp_state" where
  "comp_run ipc4 s cmds = foldl (\<lambda>s c. fst (comp_set_state ipc4 s c)) s cmds"

text \<open>The commands that must have been seen before a state can be left behind.\<close>

fun needed :: "comp_state \<Rightarrow> comp_cmd list \<Rightarrow> bool" where
  "needed COMP_STATE_PREPARE h \<longleftrightarrow> subseq [COMP_TRIGGER_PREPARE] h"
| "needed COMP_STATE_PRE_ACTIVE h \<longleftrightarrow> subseq [COMP_TRIGGER_PREPARE, COMP_TRIGGER_PRE_START] h"
| "needed COMP_STATE_ACTIVE h \<longleftrightarrow> (\<exists>c\<in>{COMP_TRIGGER_START, COMP_TRIGGER_RELEASE}. subseq [COMP_TRIGGER_PREPARE, COMP_TRIGGER_PRE_START, c] h)"
| "needed COMP_STATE_PAUSED h \<longleftrightarrow> (\<exists>c\<in>{COMP_TRIGGER_START, COMP_TRIGGER_RELEASE}. subseq [COMP_TRIGGER_PREPARE, COMP_TRIGGER_PRE_START, c] h)"
| "needed COMP_STATE_READY h \<longleftrightarrow> True"
| "needed _ h \<longleftrightarrow> False"

lemma subseq_snoc_extend: "subseq xs h \<Longrightarrow> subseq xs (h @ [c])"
  by (simp add: subseq_rev_drop_many)

lemma subseq_snoc_both: "subseq xs h \<Longrightarrow> subseq (xs @ [c]) (h @ [c])"
  by simp

lemma subseq_front: "subseq (xs @ ys) h \<Longrightarrow> subseq xs h"
  by (metis subseq_order.order_trans list_emb_append2 subseq_order.order_refl subseq_rev_drop_many)

lemma needed_extend: "needed s h \<Longrightarrow> needed s (h @ [c])"
  by (cases s) (auto intro: subseq_snoc_extend)

lemma needed_step: "needed s h \<Longrightarrow> comp_diagram s c s' \<Longrightarrow> needed s' (h @ [c])"
  using subseq_snoc_both [of "[]" h COMP_TRIGGER_PREPARE] subseq_snoc_both [of "[COMP_TRIGGER_PREPARE]" h COMP_TRIGGER_PRE_START]
    subseq_snoc_both [of "[COMP_TRIGGER_PREPARE, COMP_TRIGGER_PRE_START]" h c] subseq_snoc_extend [of _ h c]
    subseq_front [of "[COMP_TRIGGER_PREPARE]" "[COMP_TRIGGER_PRE_START, _]" h]
    subseq_front [of "[COMP_TRIGGER_PREPARE, COMP_TRIGGER_PRE_START]" "[_]" h]
  by (elim diagram_elims) auto

lemma needed_run: "needed (comp_run ipc4 COMP_STATE_READY cmds) cmds"
proof (induction cmds rule: rev_induct)
  case (snoc c cs)
  let ?s = "comp_run ipc4 COMP_STATE_READY cs"
  have "comp_run ipc4 COMP_STATE_READY (cs @ [c]) = fst (comp_set_state ipc4 ?s c)" by (simp add: comp_run_def)
  moreover have "fst (comp_set_state ipc4 ?s c) = ?s \<or> comp_diagram ?s c (fst (comp_set_state ipc4 ?s c))"
    using set_state_fst [of ipc4 ?s c "fst (comp_set_state ipc4 ?s c)"] by auto
  ultimately show ?case using snoc.IH needed_extend needed_step by metis
qed (simp add: comp_run_def)

section \<open>Claims\<close>

text \<open>
  (C11) \<^verbatim>\<open>comp_set_state\<close> moves a component exactly along the edges of the state diagram, with either IPC version;
  a reset always ends in the ready state; and a component that started in the ready state is active
  only after it has been prepared, pre-started and then started or released, in this order.
\<close>

theorem comp_state_machine:
  "(\<forall>s c s'. comp_diagram s c s' \<longleftrightarrow> s' \<noteq> s \<and> comp_set_state ipc4 s c = (s', 0)) \<and>
   (\<forall>s. fst (comp_set_state ipc4 s COMP_TRIGGER_RESET) = COMP_STATE_READY) \<and>
   (\<forall>cmds. comp_run ipc4 COMP_STATE_READY cmds = COMP_STATE_ACTIVE \<longrightarrow>
      (\<exists>c\<in>{COMP_TRIGGER_START, COMP_TRIGGER_RELEASE}. subseq [COMP_TRIGGER_PREPARE, COMP_TRIGGER_PRE_START, c] cmds))"
proof (intro conjI allI impI)
  show "comp_diagram s c s' \<longleftrightarrow> s' \<noteq> s \<and> comp_set_state ipc4 s c = (s', 0)" for s c s' by (rule set_state_diagram)
  show "fst (comp_set_state ipc4 s COMP_TRIGGER_RESET) = COMP_STATE_READY" for s by (simp add: comp_set_state_def)
  show "\<exists>c\<in>{COMP_TRIGGER_START, COMP_TRIGGER_RELEASE}. subseq [COMP_TRIGGER_PREPARE, COMP_TRIGGER_PRE_START, c] cmds"
    if "comp_run ipc4 COMP_STATE_READY cmds = COMP_STATE_ACTIVE" for cmds
    using needed_run [of ipc4 cmds] unfolding that by simp
qed

theorem comp_state_machine_witness:
  "comp_diagram COMP_STATE_ACTIVE COMP_TRIGGER_PAUSE COMP_STATE_PAUSED \<and>
   fst (comp_set_state True COMP_STATE_ACTIVE COMP_TRIGGER_RESET) = COMP_STATE_READY \<and>
   (\<exists>c\<in>{COMP_TRIGGER_START, COMP_TRIGGER_RELEASE}. subseq [COMP_TRIGGER_PREPARE, COMP_TRIGGER_PRE_START, c]
      [COMP_TRIGGER_PREPARE, COMP_TRIGGER_STOP, COMP_TRIGGER_PRE_START, COMP_TRIGGER_START])"
proof -
  have "comp_run True COMP_STATE_READY [COMP_TRIGGER_PREPARE, COMP_TRIGGER_STOP, COMP_TRIGGER_PRE_START, COMP_TRIGGER_START] = COMP_STATE_ACTIVE"
    by (simp add: comp_run_def comp_set_state_def)
  moreover have "comp_set_state True COMP_STATE_ACTIVE COMP_TRIGGER_PAUSE = (COMP_STATE_PAUSED, 0)" by (simp add: comp_set_state_def)
  ultimately show ?thesis using comp_state_machine [of True] by blast
qed

lemma frames_fit: "n \<le> b div f \<Longrightarrow> n * f \<le> b" for n b f :: nat
  by (metis div_times_less_eq_dividend le_trans mult_le_mono1)

text \<open>
  (C31) The copy limits of two well formed buffers never exceed what the source holds or the sink has
  room for, and they are whole frames.
\<close>

theorem copy_limits_fit:
  assumes "src_ok source" and "snk_ok sink" and "st_size (cb_stream source) < 2 ^ 31" and "st_size (cb_stream sink) < 2 ^ 31"
    and "0 < audio_stream_frame_bytes (cb_stream source)" and "audio_stream_frame_bytes (cb_stream source) < 2 ^ 31"
    and "0 < audio_stream_frame_bytes (cb_stream sink)" and "audio_stream_frame_bytes (cb_stream sink) < 2 ^ 31"
  shows "\<exists>n. comp_get_copy_limits source sink = \<lparr>cl_frames = int n,
      cl_source_bytes = int (n * audio_stream_frame_bytes (cb_stream source)), cl_sink_bytes = int (n * audio_stream_frame_bytes (cb_stream sink)),
      cl_source_frame_bytes = int (audio_stream_frame_bytes (cb_stream source)),
      cl_sink_frame_bytes = int (audio_stream_frame_bytes (cb_stream sink))\<rparr> \<and>
    n * audio_stream_frame_bytes (cb_stream source) \<le> st_avail (cb_stream source) \<and>
    n * audio_stream_frame_bytes (cb_stream sink) \<le> st_free (cb_stream sink)"
proof -
  let ?fs = "audio_stream_frame_bytes (cb_stream source)" and ?fk = "audio_stream_frame_bytes (cb_stream sink)"
  let ?n = "audio_stream_avail_frames (cb_stream source) (cb_stream sink)"
  have av: "audio_stream_get_avail_bytes (cb_stream source) = st_avail (cb_stream source)"
    "audio_stream_get_free_bytes (cb_stream sink) = st_free (cb_stream sink)"
    using assms(1,2) by (simp_all add: src_ok_def snk_ok_def audio_stream_get_avail_bytes_def audio_stream_get_free_bytes_def)
  have le: "?n * ?fs \<le> st_avail (cb_stream source)" "?n * ?fk \<le> st_free (cb_stream sink)"
    by (rule frames_fit, simp add: audio_stream_avail_frames_def audio_stream_get_avail_frames_def audio_stream_get_free_frames_def av)+
  have "st_avail (cb_stream source) < 2 ^ 31" "st_free (cb_stream sink) < 2 ^ 31"
    using assms(1-4) stream_okD(6,7) by (fastforce simp: src_ok_def snk_ok_def)+
  then have lt: "?n * ?fs < 2 ^ 31" "?n * ?fk < 2 ^ 31" using le by linarith+
  moreover have "?n \<le> ?n * ?fs" using assms(5) by (metis One_nat_def Suc_leI mult.right_neutral mult_le_mono2)
  ultimately have n: "?n < 2 ^ 31" by linarith
  have e: "s32 (int ?n) = int ?n" "s32 (int ?fs) = int ?fs" "s32 (int ?fk) = int ?fk"
    using n assms(6,8) by (simp_all add: s32_id)
  have "s32 (int ?n * int ?fs) = int (?n * ?fs)" "s32 (int ?n * int ?fk) = int (?n * ?fk)"
    using lt unfolding of_nat_mult [symmetric] by (simp_all add: s32_id del: of_nat_mult)
  then have "comp_get_copy_limits source sink = \<lparr>cl_frames = int ?n, cl_source_bytes = int (?n * ?fs),
      cl_sink_bytes = int (?n * ?fk), cl_source_frame_bytes = int ?fs, cl_sink_frame_bytes = int ?fk\<rparr>"
    by (simp add: comp_get_copy_limits_def copy_limits_def e del: of_nat_mult)
  then show ?thesis using le by blast
qed

theorem copy_limits_fit_witness:
  "let source = demo_buffer 1000; sink = demo_buffer 2000 in
   \<exists>n. comp_get_copy_limits source sink = \<lparr>cl_frames = int n,
      cl_source_bytes = int (n * audio_stream_frame_bytes (cb_stream source)), cl_sink_bytes = int (n * audio_stream_frame_bytes (cb_stream sink)),
      cl_source_frame_bytes = int (audio_stream_frame_bytes (cb_stream source)),
      cl_sink_frame_bytes = int (audio_stream_frame_bytes (cb_stream sink))\<rparr> \<and>
    n * audio_stream_frame_bytes (cb_stream source) \<le> st_avail (cb_stream source) \<and>
    n * audio_stream_frame_bytes (cb_stream sink) \<le> st_free (cb_stream sink)"
  unfolding Let_def
  by (rule copy_limits_fit)
    (simp_all add: demo_buffer_def zero_buffer_def demo_stream_def src_ok_def snk_ok_def stream_ok_def ring_at_def
      audio_stream_frame_bytes_def get_frame_bytes_def u32_def)


definition demo_dev :: "nat \<Rightarrow> comp_dev" where
  "demo_dev k = \<lparr>dev_id = k, dev_pipeline_id = 1, dev_type = SOF_COMP_OTHER 5, dev_core = 0, dev_domain = COMP_PROCESSING_DOMAIN_LL,
     dev_state = COMP_STATE_ACTIVE, dev_frames = 0, dev_pipeline = Some 1, dev_task = False, dev_period = 1000, dev_priority = 0,
     dev_is_shared = False, dev_direction = 0, bsource_list = [], bsink_list = []\<rparr>"


end
