(* ===== verification/PipelineWalk.thy ===== *)
theory PipelineWalk
  imports Component
begin

text \<open>
  Walking the graph of components and buffers: \<^verbatim>\<open>pipeline_for_each_comp\<close> of
  \<^verbatim>\<open>src/audio/pipeline/pipeline-graph.c\<close>. All pipeline operations are walks that differ in
  what they do when they enter and leave a component.
\<close>

section \<open>The graph\<close>

record pipeline =
  ppl_comp_id :: nat
  ppl_pipeline_id :: nat
  ppl_sched_id :: nat
  ppl_core :: nat
  ppl_period :: nat
  ppl_priority :: nat
  ppl_period_mips :: nat
  ppl_frames_per_sched :: nat
  xrun_limit_usecs :: nat
  time_domain_timer :: bool
  xrun_bytes :: int
  ppl_status :: comp_state
  pipe_task :: "nat option"
  sched_next :: "nat option"
  sched_prev :: "nat option"
  sched_comp :: nat
  source_comp :: nat
  sink_comp :: nat
  posn_offset :: nat
  ppl_msg :: nat
  trig_cmd :: comp_cmd
  trig_host :: nat
  trig_delay :: nat
  trig_aborted :: bool
  trig_pending :: bool

record graph =
  g_comp :: "nat \<Rightarrow> comp_dev"
  g_buf :: "nat \<Rightarrow> comp_buffer"
  g_ppl :: "nat \<Rightarrow> pipeline"
  g_mem :: memory

definition upd_comp :: "nat \<Rightarrow> (comp_dev \<Rightarrow> comp_dev) \<Rightarrow> graph \<Rightarrow> graph" where
  "upd_comp c f g = g\<lparr>g_comp := (g_comp g)(c := f (g_comp g c))\<rparr>"

definition upd_buf :: "nat \<Rightarrow> (comp_buffer \<Rightarrow> comp_buffer) \<Rightarrow> graph \<Rightarrow> graph" where
  "upd_buf b f g = g\<lparr>g_buf := (g_buf g)(b := f (g_buf g b))\<rparr>"

definition upd_ppl :: "nat \<Rightarrow> (pipeline \<Rightarrow> pipeline) \<Rightarrow> graph \<Rightarrow> graph" where
  "upd_ppl p f g = g\<lparr>g_ppl := (g_ppl g)(p := f (g_ppl g p))\<rparr>"

section \<open>Walks\<close>

text \<open>
  A walk context: \<open>enter\<close> is the part of \<^verbatim>\<open>comp_func\<close> before its call of \<^verbatim>\<open>pipeline_for_each_comp\<close>, with \<open>Some\<close> for an
  early return, \<open>leave\<close> the part after it, given its result. The second part of the state is the data of the context.
\<close>

record 'x walker =
  enter :: "nat \<Rightarrow> nat option \<Rightarrow> nat \<Rightarrow> graph \<times> 'x \<Rightarrow> (graph \<times> 'x) \<times> int option"
  leave :: "nat \<Rightarrow> nat option \<Rightarrow> nat \<Rightarrow> int \<Rightarrow> graph \<times> 'x \<Rightarrow> (graph \<times> 'x) \<times> int"
  buff_func :: "nat \<Rightarrow> graph \<times> 'x \<Rightarrow> graph \<times> 'x"
  incoming :: "nat option"
  skip_incomplete :: bool

definition PPL_STATUS_PATH_STOP :: int where "PPL_STATUS_PATH_STOP = 1"
definition PPL_STATUS_PATH_TERMINATE :: int where "PPL_STATUS_PATH_TERMINATE = 2"

definition set_walking :: "nat \<Rightarrow> bool \<Rightarrow> graph \<times> 'x \<Rightarrow> graph \<times> 'x" where
  "set_walking b v s = (upd_buf b (\<lambda>x. x\<lparr>walking := v\<rparr>) (fst s), snd s)"

definition path_ends :: "int \<Rightarrow> bool" where
  "path_ends err \<longleftrightarrow> err < 0 \<or> err = PPL_STATUS_PATH_STOP"

text \<open>
  \<^verbatim>\<open>walk_bufs\<close> is the loop of \<^verbatim>\<open>pipeline_for_each_comp\<close> and \<^verbatim>\<open>walk_comp\<close> a call of \<^verbatim>\<open>comp_func\<close>. The first number bounds the depth
  of the recursion; the lemma \<open>walk_returns\<close> shows that one more than the number of buffers is always enough.
\<close>

function walk_comp :: "'x walker \<Rightarrow> nat \<Rightarrow> nat \<Rightarrow> nat option \<Rightarrow> nat \<Rightarrow> graph \<times> 'x \<Rightarrow> ((graph \<times> 'x) \<times> int) option"
  and walk_bufs :: "'x walker \<Rightarrow> nat \<Rightarrow> nat list \<Rightarrow> nat \<Rightarrow> graph \<times> 'x \<Rightarrow> ((graph \<times> 'x) \<times> int) option" where
  "walk_comp w 0 cur cb dir s = None"
| "walk_comp w (Suc n) cur cb dir s =
     (case enter w cur cb dir s of
        (s1, Some e) \<Rightarrow> Some (s1, e)
      | (s1, None) \<Rightarrow>
          (case walk_bufs w n (comp_buffer_list (g_comp (fst s1) cur) dir) dir s1 of
             None \<Rightarrow> None
           | Some (s2, e) \<Rightarrow> Some (leave w cur cb dir e s2)))"
| "walk_bufs w n [] dir s = Some (s, 0)"
| "walk_bufs w n (b # bs) dir s =
     (if incoming w = Some b \<or> walking (g_buf (fst s) b) then walk_bufs w n bs dir s
      else
        let buffer_comp = buffer_get_comp (g_buf (fst s) b) dir;
            s1 = buff_func w b s
        in case (if buffer_comp \<noteq> 0 \<and> (skip_incomplete w \<longrightarrow> dev_pipeline (g_comp (fst s1) buffer_comp) \<noteq> None)
                 then map_option (\<lambda>(s2, e). (set_walking b False s2, e))
                        (walk_comp w n buffer_comp (Some b) dir (set_walking b True s1))
                 else Some (s1, 0)) of
             None \<Rightarrow> None
           | Some (s3, err) \<Rightarrow> if path_ends err then Some (s3, err) else walk_bufs w n bs dir s3)"
  by pat_completeness auto
termination
  by (relation "measures [\<lambda>x. case x of Inl (w, n, _) \<Rightarrow> n | Inr (w, n, _) \<Rightarrow> n,
                          \<lambda>x. case x of Inl _ \<Rightarrow> 0 | Inr (w, n, bs, _) \<Rightarrow> Suc (length bs)]") auto

declare walk_comp.simps [simp del] walk_bufs.simps(2) [simp del]

section \<open>Topology\<close>

text \<open>What a walk reads to find its way: the buffer lists, the ends of the buffers and the walking flags; and the periods of the
  pipelines, which no walk changes.\<close>

definition topo :: "graph \<Rightarrow> (nat \<Rightarrow> nat list \<times> nat list) \<times> (nat \<Rightarrow> nat \<times> nat) \<times> (nat \<Rightarrow> bool) \<times> (nat \<Rightarrow> nat)" where
  "topo g = (\<lambda>c. (bsource_list (g_comp g c), bsink_list (g_comp g c)), \<lambda>b. (cb_source (g_buf g b), cb_sink (g_buf g b)),
     \<lambda>b. walking (g_buf g b), \<lambda>p. ppl_period (g_ppl g p))"

lemma topo_eqD:
  assumes "topo g = topo g'"
  shows "comp_buffer_list (g_comp g c) dir = comp_buffer_list (g_comp g' c) dir"
    and "buffer_get_comp (g_buf g b) dir = buffer_get_comp (g_buf g' b) dir"
    and "walking (g_buf g b) = walking (g_buf g' b)"
    and "ppl_period (g_ppl g p) = ppl_period (g_ppl g' p)"
  using assms by (auto simp: topo_def comp_buffer_list_def buffer_get_comp_def dest: fun_cong [of _ _ c] fun_cong [of _ _ b] fun_cong [of _ _ p])

lemma topo_upd_ppl [simp]: "ppl_period (f (g_ppl g p)) = ppl_period (g_ppl g p) \<Longrightarrow> topo (upd_ppl p f g) = topo g"
  by (auto simp: topo_def upd_ppl_def fun_eq_iff)

lemma topo_upd_comp:
  "(\<And>d. bsource_list (f d) = bsource_list d) \<Longrightarrow> (\<And>d. bsink_list (f d) = bsink_list d) \<Longrightarrow> topo (upd_comp c f g) = topo g"
  by (auto simp: topo_def upd_comp_def)

lemma topo_upd_buf:
  "(\<And>d. cb_source (f d) = cb_source d) \<Longrightarrow> (\<And>d. cb_sink (f d) = cb_sink d) \<Longrightarrow> (\<And>d. walking (f d) = walking d) \<Longrightarrow>
    topo (upd_buf b f g) = topo g"
  by (auto simp: topo_def upd_buf_def)

lemma walking_set [simp]: "walking (g_buf (fst (set_walking b v s)) x) = (if x = b then v else walking (g_buf (fst s) x))"
  by (simp add: set_walking_def upd_buf_def)

lemma topo_set_walking: "topo (fst s) = topo (fst s') \<Longrightarrow> topo (fst (set_walking b v s)) = topo (fst (set_walking b v s'))"
  by (auto simp: topo_def set_walking_def upd_buf_def fun_eq_iff)

lemma topo_set_walking_back: "\<not> walking (g_buf (fst s) b) \<Longrightarrow> topo (fst (set_walking b False (set_walking b True s))) = topo (fst s)"
  by (auto simp: topo_def set_walking_def upd_buf_def fun_eq_iff)

definition all_buffers :: "graph \<Rightarrow> nat set" where
  "all_buffers g = (\<Union>c. set (bsource_list (g_comp g c)) \<union> set (bsink_list (g_comp g c)))"

definition idle_buffers :: "graph \<Rightarrow> nat set" where
  "idle_buffers g = {b \<in> all_buffers g. \<not> walking (g_buf g b)}"

lemma topo_buffers: "topo g = topo g' \<Longrightarrow> all_buffers g = all_buffers g' \<and> idle_buffers g = idle_buffers g'"
  by (auto simp: topo_def all_buffers_def idle_buffers_def fun_eq_iff)

lemma comp_buffer_list_all: "set (comp_buffer_list (g_comp g c) dir) \<subseteq> all_buffers g"
  by (auto simp: all_buffers_def comp_buffer_list_def)

lemma idle_set_walking: "idle_buffers (fst (set_walking b True s)) = idle_buffers (fst s) - {b}"
  by (auto simp: idle_buffers_def all_buffers_def set_walking_def upd_buf_def)

lemma idle_step:
  assumes "topo (fst s1) = topo (fst s)" and "finite (all_buffers (fst s))" and "card (idle_buffers (fst s)) \<le> n"
    and "b \<in> all_buffers (fst s)" and "\<not> walking (g_buf (fst s) b)"
  shows "card (idle_buffers (fst (set_walking b True s1))) < n" and "finite (all_buffers (fst (set_walking b True s1)))"
proof -
  have "b \<in> idle_buffers (fst s)" "finite (idle_buffers (fst s))" using assms by (auto simp: idle_buffers_def)
  then show "card (idle_buffers (fst (set_walking b True s1))) < n"
    using assms topo_buffers [OF assms(1)] card_Diff1_less [of "idle_buffers (fst s)" b] by (simp add: idle_set_walking)
  have "all_buffers (fst (set_walking b True s1)) = all_buffers (fst s1)" by (simp add: all_buffers_def set_walking_def upd_buf_def)
  then show "finite (all_buffers (fst (set_walking b True s1)))" using assms topo_buffers [OF assms(1)] by simp
qed

section \<open>One turn of the loop\<close>

text \<open>A buffer is skipped, or its other end is visited, or there is no component to visit.\<close>

definition skips :: "'x walker \<Rightarrow> nat \<Rightarrow> graph \<times> 'x \<Rightarrow> bool" where
  "skips w b s \<longleftrightarrow> incoming w = Some b \<or> walking (g_buf (fst s) b)"

definition follows :: "'x walker \<Rightarrow> nat \<Rightarrow> nat \<Rightarrow> graph \<times> 'x \<Rightarrow> bool" where
  "follows w b dir s \<longleftrightarrow> buffer_get_comp (g_buf (fst s) b) dir \<noteq> 0 \<and>
     (skip_incomplete w \<longrightarrow> dev_pipeline (g_comp (fst (buff_func w b s)) (buffer_get_comp (g_buf (fst s) b) dir)) \<noteq> None)"

lemma walk_bufs_skip: "skips w b s \<Longrightarrow> walk_bufs w n (b # bs) dir s = walk_bufs w n bs dir s"
  by (simp add: walk_bufs.simps(2) skips_def)

lemma walk_bufs_call:
  "\<not> skips w b s \<Longrightarrow> follows w b dir s \<Longrightarrow>
    walk_comp w n (buffer_get_comp (g_buf (fst s) b) dir) (Some b) dir (set_walking b True (buff_func w b s)) = Some (s3, e) \<Longrightarrow>
    walk_bufs w n (b # bs) dir s =
      (if path_ends e then Some (set_walking b False s3, e) else walk_bufs w n bs dir (set_walking b False s3))"
  by (simp add: walk_bufs.simps(2) Let_def skips_def follows_def)

lemma walk_bufs_nocall:
  assumes "\<not> skips w b s" and "\<not> follows w b dir s"
  shows "walk_bufs w n (b # bs) dir s = walk_bufs w n bs dir (buff_func w b s)"
  using assms unfolding walk_bufs.simps(2) skips_def Let_def follows_def
  by (simp only: if_False) (simp add: path_ends_def PPL_STATUS_PATH_STOP_def)

section \<open>Every walk returns\<close>

locale topo_walker =
  fixes w :: "'x walker"
  assumes enter_topo: "topo (fst (fst (enter w c cb dir s))) = topo (fst s)"
    and leave_topo: "topo (fst (fst (leave w c cb dir e s))) = topo (fst s)"
    and buff_topo: "topo (fst (buff_func w b s)) = topo (fst s)"
begin

lemma topo_around:
  assumes "\<not> walking (g_buf (fst s) b)" and "topo (fst s3) = topo (fst (set_walking b True (buff_func w b s)))"
  shows "topo (fst (set_walking b False s3)) = topo (fst s)"
  using topo_set_walking [OF assms(2)] topo_set_walking_back [of "buff_func w b s" b] topo_eqD(3) [OF buff_topo] assms(1) buff_topo
  by metis

lemma walk_bufs_returns:
  assumes comp: "\<And>cur cb s. finite (all_buffers (fst s)) \<Longrightarrow> card (idle_buffers (fst s)) < n \<Longrightarrow>
      \<exists>s' e. walk_comp w n cur cb dir s = Some (s', e) \<and> topo (fst s') = topo (fst s)"
    and "finite (all_buffers (fst s))" and "card (idle_buffers (fst s)) \<le> n" and "set bs \<subseteq> all_buffers (fst s)"
  shows "\<exists>s' e. walk_bufs w n bs dir s = Some (s', e) \<and> topo (fst s') = topo (fst s)"
  using assms(2-)
proof (induction bs arbitrary: s)
  case (Cons b bs)
  have rest: "\<exists>s' e. walk_bufs w n bs dir t = Some (s', e) \<and> topo (fst s') = topo (fst s)" if t: "topo (fst t) = topo (fst s)" for t
    using Cons.IH [of t] Cons.prems topo_buffers [OF t] t by auto
  consider "skips w b s" | "\<not> skips w b s" "follows w b dir s" | "\<not> skips w b s" "\<not> follows w b dir s" by blast
  then show ?case
  proof cases
    case 1
    then show ?thesis using rest [of s] by (simp add: walk_bufs_skip)
  next
    case 2
    have nw: "\<not> walking (g_buf (fst s) b)" using 2 by (simp add: skips_def)
    obtain s3 e where s3: "walk_comp w n (buffer_get_comp (g_buf (fst s) b) dir) (Some b) dir (set_walking b True (buff_func w b s)) = Some (s3, e)"
        "topo (fst s3) = topo (fst (set_walking b True (buff_func w b s)))"
      using comp idle_step [OF buff_topo] Cons.prems nw by (metis list.set_intros(1) subsetD)
    show ?thesis using walk_bufs_call [OF 2 s3(1)] topo_around [OF nw s3(2)] rest by (cases "path_ends e") simp_all
  next
    case 3
    then show ?thesis using rest [OF buff_topo] by (simp add: walk_bufs_nocall)
  qed
qed simp

lemma walk_returns:
  "finite (all_buffers (fst s)) \<Longrightarrow> card (idle_buffers (fst s)) < n \<Longrightarrow>
    \<exists>s' e. walk_comp w n cur cb dir s = Some (s', e) \<and> topo (fst s') = topo (fst s)"
proof (induction n arbitrary: cur cb s)
  case (Suc n)
  obtain s1 r where r: "enter w cur cb dir s = (s1, r)" by (metis surj_pair)
  have t1: "topo (fst s1) = topo (fst s)" using enter_topo [of cur cb dir s] r by simp
  show ?case
  proof (cases r)
    case (Some e)
    then show ?thesis using r t1 by (simp add: walk_comp.simps(2))
  next
    case None
    have "finite (all_buffers (fst s1))" "card (idle_buffers (fst s1)) \<le> n"
      using Suc.prems topo_buffers [OF t1] by auto
    then obtain s2 e where s2: "walk_bufs w n (comp_buffer_list (g_comp (fst s1) cur) dir) dir s1 = Some (s2, e)"
      "topo (fst s2) = topo (fst s1)"
      using walk_bufs_returns [OF Suc.IH _ _ comp_buffer_list_all] by blast
    have "topo (fst (fst (leave w cur cb dir e s2))) = topo (fst s)" using leave_topo s2(2) t1 by metis
    then show ?thesis using r None s2(1) by (cases "leave w cur cb dir e s2") (simp add: walk_comp.simps(2))
  qed
qed simp

end

section \<open>Reachability\<close>

text \<open>Paths from a component through its buffers, within a set of components, by the list of buffers passed.\<close>

fun ppl_path :: "graph \<Rightarrow> (nat \<Rightarrow> bool) \<Rightarrow> nat \<Rightarrow> nat \<Rightarrow> nat list \<Rightarrow> nat \<Rightarrow> bool" where
  "ppl_path g M dir c [] x \<longleftrightarrow> c = x \<and> M c"
| "ppl_path g M dir c (b # bs) x \<longleftrightarrow> M c \<and> b \<in> set (comp_buffer_list (g_comp g c) dir) \<and>
     buffer_get_comp (g_buf g b) dir \<noteq> 0 \<and> ppl_path g M dir (buffer_get_comp (g_buf g b) dir) bs x"

lemma ppl_path_append:
  "ppl_path g M dir c (xs @ b # ys) x \<longleftrightarrow>
    (\<exists>d. ppl_path g M dir c xs d \<and> ppl_path g M dir d (b # ys) x)"
  by (induction xs arbitrary: c) auto

lemma ppl_path_after: "ppl_path g M dir c (b # ys) x \<Longrightarrow> ppl_path g M dir (buffer_get_comp (g_buf g b) dir) ys x"
  by simp

text \<open>A path can be cut short where it passes a buffer twice.\<close>

lemma ppl_path_distinct:
  assumes "ppl_path g M dir c bs x"
  shows "\<exists>bs'. ppl_path g M dir c bs' x \<and> distinct bs'"
  using assms
proof (induction bs rule: length_induct)
  case (1 bs)
  show ?case
  proof (cases "distinct bs")
    case False
    then obtain xs ys zs b where e: "bs = xs @ [b] @ ys @ [b] @ zs" using not_distinct_decomp by blast
    have p: "ppl_path g M dir c (xs @ b # (ys @ b # zs)) x" using 1(2) by (simp add: e)
    from p obtain d where d: "ppl_path g M dir c xs d" "ppl_path g M dir d (b # ys @ b # zs) x"
      unfolding ppl_path_append by blast
    have "ppl_path g M dir (buffer_get_comp (g_buf g b) dir) zs x"
      using d(2) ppl_path_append [of g M dir "buffer_get_comp (g_buf g b) dir" ys b zs x] by auto
    then have "ppl_path g M dir c (xs @ b # zs) x" using d unfolding ppl_path_append by auto
    moreover have "length (xs @ b # zs) < length bs" by (simp add: e)
    ultimately show ?thesis using 1(1) by blast
  qed (use 1 in blast)
qed

lemma ppl_path_topo:
  assumes "\<And>c. comp_buffer_list (g_comp g c) dir = comp_buffer_list (g_comp g' c) dir"
    and "\<And>b. buffer_get_comp (g_buf g b) dir = buffer_get_comp (g_buf g' b) dir"
  shows "ppl_path g M dir c bs x = ppl_path g' M dir c bs x"
  using assms by (induction bs arbitrary: c) auto

lemma set_walking_shape [simp]:
  "comp_buffer_list (g_comp (fst (set_walking b v s)) c) dir = comp_buffer_list (g_comp (fst s) c) dir"
  "buffer_get_comp (g_buf (fst (set_walking b v s)) d) dir = buffer_get_comp (g_buf (fst s) d) dir"
  by (simp_all add: set_walking_def upd_buf_def buffer_get_comp_def)

lemmas ppl_path_walking = ppl_path_topo [of "fst (set_walking b v s)" dir "fst s", OF set_walking_shape] for b v s dir

lemma ppl_path_same: "topo g = topo g' \<Longrightarrow> ppl_path g M dir c bs x = ppl_path g' M dir c bs x"
  by (intro ppl_path_topo topo_eqD)

section \<open>What a walk visits\<close>

text \<open>
  Walks that succeed on every component: \<open>M\<close> are the components the walk passes through, \<open>V\<close> those it has
  dealt with, \<open>I\<close> an invariant of its state, and \<open>R\<close> contains every component that the walk can enter.
\<close>

locale visiting_walker = topo_walker w for w :: "'x walker" +
  fixes I :: "graph \<times> 'x \<Rightarrow> bool" and M :: "nat \<Rightarrow> bool" and V :: "graph \<times> 'x \<Rightarrow> nat \<Rightarrow> bool" and dir :: nat
    and R :: "nat \<Rightarrow> bool"
  assumes enter_member: "I s \<Longrightarrow> R c \<Longrightarrow> M c \<Longrightarrow> \<exists>s'. enter w c cb dir s = (s', None) \<and> I s' \<and> (\<forall>x. V s x \<longrightarrow> V s' x) \<and> V s' c"
    and enter_other: "I s \<Longrightarrow> R c \<Longrightarrow> \<not> M c \<Longrightarrow> \<exists>s'. enter w c cb dir s = (s', Some 0) \<and> I s' \<and> (\<forall>x. V s x \<longrightarrow> V s' x)"
    and leave_member: "I s \<Longrightarrow> R c \<Longrightarrow> M c \<Longrightarrow> \<exists>s'. leave w c cb dir 0 s = (s', 0) \<and> I s' \<and> (\<forall>x. V s x \<longrightarrow> V s' x)"
    and buff_keeps: "I s \<Longrightarrow> I (buff_func w b s) \<and> (\<forall>x. V s x \<longrightarrow> V (buff_func w b s) x)"
    and walking_keeps: "I (set_walking b v s) = I s" "V (set_walking b v s) = V s"
    and connected: "skip_incomplete w \<Longrightarrow> I s \<Longrightarrow> M c \<Longrightarrow> dev_pipeline (g_comp (fst s) c) \<noteq> None"
    and closed: "I s \<Longrightarrow> R c \<Longrightarrow> M c \<Longrightarrow> b \<in> set (comp_buffer_list (g_comp (fst s) c) dir) \<Longrightarrow>
      buffer_get_comp (g_buf (fst s) b) dir \<noteq> 0 \<Longrightarrow> R (buffer_get_comp (g_buf (fst s) b) dir)"
begin

definition open_path :: "graph \<times> 'x \<Rightarrow> nat \<Rightarrow> nat list \<Rightarrow> nat \<Rightarrow> bool" where
  "open_path s c bs x \<longleftrightarrow> ppl_path (fst s) M dir c bs x \<and> distinct bs \<and> (\<forall>b\<in>set bs. \<not> skips w b s)"

definition hop :: "graph \<times> 'x \<Rightarrow> nat \<Rightarrow> nat list \<Rightarrow> nat \<Rightarrow> bool" where
  "hop s b ps x \<longleftrightarrow> buffer_get_comp (g_buf (fst s) b) dir \<noteq> 0 \<and> b \<notin> set ps \<and> \<not> skips w b s \<and>
     open_path s (buffer_get_comp (g_buf (fst s) b) dir) ps x"

definition advances :: "graph \<times> 'x \<Rightarrow> graph \<times> 'x \<Rightarrow> bool" where
  "advances s s' \<longleftrightarrow> topo (fst s') = topo (fst s) \<and> I s' \<and> (\<forall>x. V s x \<longrightarrow> V s' x)"

lemma advances_trans: "advances s t \<Longrightarrow> advances t u \<Longrightarrow> advances s u"
  by (simp add: advances_def)

lemma open_path_topo: "topo (fst t) = topo (fst s) \<Longrightarrow> open_path t c bs x = open_path s c bs x"
  using ppl_path_same [of "fst t" "fst s"] topo_eqD(3) [of "fst t" "fst s"] by (auto simp: open_path_def skips_def)

lemma hop_topo: "topo (fst t) = topo (fst s) \<Longrightarrow> hop t b ps x = hop s b ps x"
  using topo_eqD(2,3) [of "fst t" "fst s"] open_path_topo [of t s] by (simp add: hop_def skips_def)

lemma open_path_walking: "b \<notin> set ps \<Longrightarrow> open_path (set_walking b v s) c ps x = open_path s c ps x"
  by (auto simp: open_path_def skips_def ppl_path_walking)

lemma bufs_visit:
  assumes comp: "\<And>cur cb s. finite (all_buffers (fst s)) \<Longrightarrow> card (idle_buffers (fst s)) < n \<Longrightarrow> I s \<Longrightarrow> R cur \<Longrightarrow>
      \<exists>s'. walk_comp w n cur cb dir s = Some (s', 0) \<and> advances s s' \<and> (\<forall>bs x. open_path s cur bs x \<longrightarrow> V s' x)"
    and "finite (all_buffers (fst s))" and "card (idle_buffers (fst s)) \<le> n" and "set bs \<subseteq> all_buffers (fst s)" and "I s"
    and "\<forall>b\<in>set bs. buffer_get_comp (g_buf (fst s) b) dir \<noteq> 0 \<longrightarrow> R (buffer_get_comp (g_buf (fst s) b) dir)"
  shows "\<exists>s'. walk_bufs w n bs dir s = Some (s', 0) \<and> advances s s' \<and> (\<forall>b\<in>set bs. \<forall>ps x. hop s b ps x \<longrightarrow> V s' x)"
  using assms(2-)
proof (induction bs arbitrary: s)
  case Nil
  then show ?case by (simp add: advances_def)
next
  case (Cons b bs)
  let ?c = "buffer_get_comp (g_buf (fst s) b) dir" and ?s1 = "buff_func w b s"
  have rest: "\<exists>s'. walk_bufs w n bs dir t = Some (s', 0) \<and> advances s s' \<and> (\<forall>d\<in>set (b # bs). \<forall>ps x. hop s d ps x \<longrightarrow> V s' x)"
    if t: "advances s t" "\<And>ps x. hop s b ps x \<Longrightarrow> V t x" for t
  proof -
    have tt: "topo (fst t) = topo (fst s)" using t by (simp add: advances_def)
    obtain s' where s': "walk_bufs w n bs dir t = Some (s', 0)" "advances t s'" "\<forall>b\<in>set bs. \<forall>ps x. hop t b ps x \<longrightarrow> V s' x"
      using Cons.IH [of t] Cons.prems topo_buffers [OF tt] topo_eqD(2) [OF tt] t(1) by (auto simp: advances_def)
    have "V s' x" if "hop s b ps x" for ps x using t(2) [OF that] s'(2) by (simp add: advances_def)
    then show ?thesis using s' advances_trans [OF t(1) s'(2)] hop_topo [OF tt] by auto
  qed
  have a1: "advances s ?s1" using buff_keeps Cons.prems(4) buff_topo by (simp add: advances_def)
  consider "skips w b s" | "\<not> skips w b s" "follows w b dir s" | "\<not> skips w b s" "\<not> follows w b dir s" by blast
  then show ?case
  proof cases
    case 1
    then show ?thesis using rest [of s] Cons.prems by (simp add: walk_bufs_skip hop_def advances_def)
  next
    case 2
    have nw: "\<not> walking (g_buf (fst s) b)" using 2 by (simp add: skips_def)
    obtain s3 where s3: "walk_comp w n ?c (Some b) dir (set_walking b True ?s1) = Some (s3, 0)"
        "advances (set_walking b True ?s1) s3" "\<forall>bs x. open_path (set_walking b True ?s1) ?c bs x \<longrightarrow> V s3 x"
      using comp [of "set_walking b True ?s1" ?c "Some b"] idle_step [OF buff_topo] Cons.prems nw a1 walking_keeps(1) 2(2)
      by (auto simp: advances_def follows_def)
    have "advances s (set_walking b False s3)"
      using topo_around [OF nw, of s3] s3(2) a1 by (auto simp: advances_def walking_keeps)
    moreover have "V (set_walking b False s3) x" if "hop s b ps x" for ps x
      using that s3(3) open_path_walking [of b ps True ?s1] open_path_topo [OF buff_topo] by (auto simp: hop_def walking_keeps)
    ultimately show ?thesis
      using rest [of "set_walking b False s3"] walk_bufs_call [OF 2 s3(1)] by (simp add: path_ends_def PPL_STATUS_PATH_STOP_def)
  next
    case 3
    have "\<not> hop s b ps x" for ps x
      using 3 connected [of ?s1 ?c] a1 by (cases ps) (auto simp: open_path_def hop_def follows_def advances_def)
    then show ?thesis using rest [OF a1] 3 by (simp add: walk_bufs_nocall)
  qed
qed

lemma walk_visits:
  assumes "finite (all_buffers (fst s))" and "card (idle_buffers (fst s)) < n" and "I s" and "R c"
  shows "\<exists>s'. walk_comp w n c cb dir s = Some (s', 0) \<and> advances s s' \<and> (\<forall>bs x. open_path s c bs x \<longrightarrow> V s' x)"
  using assms
proof (induction n arbitrary: c cb s)
  case (Suc n)
  show ?case
  proof (cases "M c")
    case True
    then obtain s1 where s1: "enter w c cb dir s = (s1, None)" "I s1" "\<forall>x. V s x \<longrightarrow> V s1 x" "V s1 c" using enter_member Suc.prems(3,4) by blast
    have t1: "topo (fst s1) = topo (fst s)" using enter_topo [of c cb dir s] s1(1) by simp
    have a1: "advances s s1" using s1 t1 by (simp add: advances_def)
    obtain s2 where s2: "walk_bufs w n (comp_buffer_list (g_comp (fst s1) c) dir) dir s1 = Some (s2, 0)" "advances s1 s2"
        "\<forall>b\<in>set (comp_buffer_list (g_comp (fst s1) c) dir). \<forall>ps x. hop s1 b ps x \<longrightarrow> V s2 x"
      using bufs_visit [OF Suc.IH _ _ comp_buffer_list_all [of _ c dir] s1(2)] Suc.prems topo_buffers [OF t1]
        closed [OF s1(2) Suc.prems(4) True] by auto
    obtain s3 where s3: "leave w c cb dir 0 s2 = (s3, 0)" "I s3" "\<forall>x. V s2 x \<longrightarrow> V s3 x"
      using leave_member [OF _ Suc.prems(4) True] s2(2) by (meson advances_def)
    have "advances s2 s3" using s3 leave_topo [of c cb dir 0 s2] by (simp add: advances_def)
    then have "advances s s3" using a1 s2(2) advances_trans by blast
    moreover have "V s3 x" if "open_path s1 c bs x" for bs x
      using that s3(3) s2(2,3) s1(4) by (cases bs) (auto simp: open_path_def hop_def advances_def)
    ultimately show ?thesis using s1(1) s2(1) s3(1) open_path_topo [OF t1] by (auto simp: walk_comp.simps(2))
  next
    case False
    then obtain s1 where s1: "enter w c cb dir s = (s1, Some 0)" "I s1" "\<forall>x. V s x \<longrightarrow> V s1 x" using enter_other Suc.prems(3,4) by blast
    have "\<not> open_path s c bs x" for bs x using False by (cases bs) (auto simp: open_path_def)
    then show ?thesis using s1 enter_topo [of c cb dir s] by (simp add: walk_comp.simps(2) advances_def)
  qed
qed simp

text \<open>With no buffer being walked and none excluded, the walk reaches everything a path leads to.\<close>

lemma walk_reaches:
  assumes "finite (all_buffers (fst s))" and "card (all_buffers (fst s)) < n" and "I s" and "R c"
    and "\<And>b. \<not> walking (g_buf (fst s) b)" and "incoming w = None"
  shows "\<exists>s'. walk_comp w n c cb dir s = Some (s', 0) \<and> topo (fst s') = topo (fst s) \<and> I s' \<and>
    (\<forall>bs x. ppl_path (fst s) M dir c bs x \<longrightarrow> V s' x)"
proof -
  have "idle_buffers (fst s) = all_buffers (fst s)" using assms(5) by (simp add: idle_buffers_def)
  then obtain s' where s': "walk_comp w n c cb dir s = Some (s', 0)" "advances s s'" "\<forall>bs x. open_path s c bs x \<longrightarrow> V s' x"
    using walk_visits [of s n c cb] assms by auto
  have "V s' x" if "ppl_path (fst s) M dir c bs x" for bs x
    using ppl_path_distinct [OF that] s'(3) assms(5,6) by (auto simp: open_path_def skips_def)
  then show ?thesis using s' by (auto simp: advances_def)
qed

end

end
