(* ===== verification/IpcMsg.thy ===== *)
theory IpcMsg
  imports Buffer
begin

text \<open>
  Messages to the host: \<^verbatim>\<open>src/include/sof/ipc/msg.h\<close> and the message queue of
  \<^verbatim>\<open>src/ipc/ipc-common.c\<close>. The platform's doorbell, \<^verbatim>\<open>ipc_platform_send_msg\<close>, is a parameter.
\<close>

section \<open>Messages\<close>

record ipc_msg =
  msg_header :: nat
  msg_extension :: nat
  tx_size :: nat
  tx_data :: nat

text \<open>\<open>msg_size\<close> is \<^verbatim>\<open>sizeof(struct ipc_msg)\<close>. The result is the address and the value of the message, \<open>None\<close> for \<^verbatim>\<open>NULL\<close>.\<close>

definition ipc_msg_w_ext_init ::
    "platform \<Rightarrow> nat \<Rightarrow> nat \<Rightarrow> mm \<times> memory \<Rightarrow> nat \<Rightarrow> nat \<Rightarrow> nat \<Rightarrow> ((mm \<times> memory) \<times> (nat \<times> ipc_msg) option) outcome" where
  "ipc_msg_w_ext_init p core msg_size st header extension sz =
     obind (rzalloc p core SOF_MEM_ZONE_RUNTIME_SHARED st SOF_MEM_CAPS_RAM msg_size) (\<lambda>(st1, msg).
       if msg = 0 then Done (st1, None)
       else if sz \<noteq> 0
       then obind (rzalloc p core SOF_MEM_ZONE_RUNTIME_SHARED st1 SOF_MEM_CAPS_RAM sz) (\<lambda>(st2, data).
              if data = 0 then obind (rfree p core (fst st2) msg) (\<lambda>mm3. Done ((mm3, snd st2), None))
              else Done (st2, Some (msg, \<lparr>msg_header = header, msg_extension = extension, tx_size = sz, tx_data = data\<rparr>)))
       else Done (st1, Some (msg, \<lparr>msg_header = header, msg_extension = extension, tx_size = 0, tx_data = 0\<rparr>)))"

definition ipc_msg_init ::
    "platform \<Rightarrow> nat \<Rightarrow> nat \<Rightarrow> mm \<times> memory \<Rightarrow> nat \<Rightarrow> nat \<Rightarrow> ((mm \<times> memory) \<times> (nat \<times> ipc_msg) option) outcome" where
  "ipc_msg_init p core msg_size st header sz = ipc_msg_w_ext_init p core msg_size st header 0 sz"

section \<open>The queue\<close>

text \<open>
  \<open>msgs\<close> are the message structures by address, \<open>msg_list\<close> the addresses of the queued ones, \<open>worker\<close> says that the work
  item is armed (Zephyr builds). \<open>sent\<close> collects what the platform took: header, extension and payload. A message is
  linked in at most one list, so that its item is empty exactly when it is not queued.
\<close>

type_synonym wire = "nat \<times> nat \<times> nat list"

record ipc =
  msgs :: "nat \<Rightarrow> ipc_msg"
  msg_list :: "nat list"
  pm_prepare_D3 :: bool
  worker :: bool
  ipc_mem :: memory
  sent :: "wire list"

definition wire_of :: "ipc \<Rightarrow> nat \<Rightarrow> wire" where
  "wire_of ipc m = (msg_header (msgs ipc m), msg_extension (msgs ipc m),
     map (\<lambda>i. ipc_mem ipc (tx_data (msgs ipc m) + i)) [0..<tx_size (msgs ipc m)])"

definition SOF_IPC_MSG_MAX_SIZE :: "bool \<Rightarrow> nat" where
  "SOF_IPC_MSG_MAX_SIZE ipc4 = (if ipc4 then 4096 else 384)"

text \<open>\<open>ready\<close> is the answer of the platform: whether the doorbell was free and the message went out.\<close>

definition ipc_platform_send_msg :: "bool \<Rightarrow> nat \<Rightarrow> ipc \<Rightarrow> ipc \<times> int" where
  "ipc_platform_send_msg ready m ipc = (if ready then (ipc\<lparr>sent := sent ipc @ [wire_of ipc m]\<rparr>, 0) else (ipc, - EBUSY))"

definition ipc_send_queued_msg :: "bool \<Rightarrow> ipc \<Rightarrow> ipc" where
  "ipc_send_queued_msg ready ipc =
     (if pm_prepare_D3 ipc then ipc
      else case msg_list ipc of
             [] \<Rightarrow> ipc
           | m # ms \<Rightarrow>
               (case ipc_platform_send_msg ready m ipc of
                  (ipc1, ret) \<Rightarrow> if ret = 0 then ipc1\<lparr>msg_list := ms\<rparr> else ipc1))"

definition schedule_ipc_worker :: "bool \<Rightarrow> ipc \<Rightarrow> ipc" where
  "schedule_ipc_worker zephyr ipc = (if zephyr then ipc\<lparr>worker := True\<rparr> else ipc)"

definition copy_payload :: "bool \<Rightarrow> nat \<Rightarrow> nat \<Rightarrow> ipc \<Rightarrow> ipc outcome" where
  "copy_payload ipc4 m data ipc =
     (let msg = msgs ipc m
      in if 0 < tx_size msg \<and> tx_size msg \<le> SOF_IPC_MSG_MAX_SIZE ipc4 \<and> tx_data msg \<noteq> data
         then case memcpy_s (ipc_mem ipc) (tx_data msg) (tx_size msg) data (tx_size msg) of
                (mem, ret) \<Rightarrow> if ret = 0 then Done (ipc\<lparr>ipc_mem := mem\<rparr>) else Panic
         else Done ipc)"

definition ipc_msg_send_direct :: "bool \<Rightarrow> nat \<Rightarrow> nat \<Rightarrow> ipc \<Rightarrow> ipc outcome" where
  "ipc_msg_send_direct ipc4 m data ipc =
     obind (copy_payload ipc4 m data ipc) (\<lambda>ipc1. Done (ipc1\<lparr>sent := sent ipc1 @ [wire_of ipc1 m]\<rparr>))"

definition ipc_msg_send :: "bool \<Rightarrow> bool \<Rightarrow> bool \<Rightarrow> nat \<Rightarrow> nat \<Rightarrow> bool \<Rightarrow> ipc \<Rightarrow> ipc outcome" where
  "ipc_msg_send zephyr ipc4 ready m data high_priority ipc =
     obind (copy_payload ipc4 m data ipc) (\<lambda>ipc1.
       let (ipc2, ret) = (if \<not> zephyr \<and> high_priority then ipc_platform_send_msg ready m ipc1 else (ipc1, - EBUSY))
       in if ret = 0 then Done ipc2
          else
            let ipc3 = (if m \<in> set (msg_list ipc2) then ipc2
                        else if high_priority then ipc2\<lparr>msg_list := m # msg_list ipc2\<rparr>
                        else ipc2\<lparr>msg_list := msg_list ipc2 @ [m]\<rparr>)
            in Done (schedule_ipc_worker zephyr ipc3))"

definition ipc_work_handler :: "bool \<Rightarrow> ipc \<Rightarrow> ipc" where
  "ipc_work_handler ready ipc =
     (let ipc1 = ipc_send_queued_msg ready (ipc\<lparr>worker := False\<rparr>)
      in if msg_list ipc1 \<noteq> [] \<and> \<not> pm_prepare_D3 ipc1 then schedule_ipc_worker True ipc1 else ipc1)"

definition ipc_msg_free :: "platform \<Rightarrow> nat \<Rightarrow> nat \<Rightarrow> ipc \<Rightarrow> mm \<Rightarrow> (ipc \<times> mm) outcome" where
  "ipc_msg_free p core m ipc mm =
     (if m = 0 then Done (ipc, mm)
      else obind (rfree p core mm (tx_data (msgs ipc m))) (\<lambda>mm1.
           obind (rfree p core mm1 m) (\<lambda>mm2. Done (ipc\<lparr>msg_list := remove1 m (msg_list ipc)\<rparr>, mm2))))"

section \<open>Draining\<close>

text \<open>The kernel runs the handler while it is armed; \<open>ready k\<close> is the answer of the platform to the attempt \<open>k\<close>.\<close>

fun worker_run :: "(nat \<Rightarrow> bool) \<Rightarrow> nat \<Rightarrow> ipc \<Rightarrow> ipc" where
  "worker_run ready 0 ipc = ipc"
| "worker_run ready (Suc n) ipc =
     (let ipc1 = worker_run ready n ipc in if worker ipc1 then ipc_work_handler (ready n) ipc1 else ipc1)"

definition draining :: "ipc \<Rightarrow> ipc \<Rightarrow> bool" where
  "draining ipc0 ipc \<longleftrightarrow> \<not> pm_prepare_D3 ipc \<and> msgs ipc = msgs ipc0 \<and> ipc_mem ipc = ipc_mem ipc0 \<and>
     (msg_list ipc \<noteq> [] \<longrightarrow> worker ipc) \<and>
     sent ipc @ map (wire_of ipc) (msg_list ipc) = sent ipc0 @ map (wire_of ipc0) (msg_list ipc0)"

lemma wire_of_update [simp]:
  "wire_of (ipc\<lparr>sent := x\<rparr>) = wire_of ipc" "wire_of (ipc\<lparr>msg_list := y\<rparr>) = wire_of ipc" "wire_of (ipc\<lparr>worker := v\<rparr>) = wire_of ipc"
  by (simp_all add: wire_of_def fun_eq_iff)

lemma wire_of_same: "draining ipc0 ipc \<Longrightarrow> wire_of ipc = wire_of ipc0"
  by (simp add: draining_def wire_of_def fun_eq_iff)

lemmas queue_defs = ipc_work_handler_def ipc_send_queued_msg_def ipc_platform_send_msg_def schedule_ipc_worker_def Let_def

lemma handler_draining: "draining ipc0 ipc \<Longrightarrow> draining ipc0 (ipc_work_handler r ipc)"
  by (auto simp: draining_def queue_defs errno split: list.splits)

lemma handler_shrinks:
  "draining ipc0 ipc \<Longrightarrow> msg_list (ipc_work_handler r ipc) = (if r then tl (msg_list ipc) else msg_list ipc)"
  by (auto simp: draining_def queue_defs errno split: list.splits)

lemma run_draining: "draining ipc0 ipc0 \<Longrightarrow> draining ipc0 (worker_run ready n ipc0)"
  by (induction n) (auto simp: Let_def handler_draining)

lemma run_shrinks:
  assumes "draining ipc0 ipc0"
  shows "msg_list (worker_run ready (Suc n) ipc0) =
    (if ready n then tl (msg_list (worker_run ready n ipc0)) else msg_list (worker_run ready n ipc0))"
proof -
  note d = run_draining [OF assms, of ready n]
  show ?thesis
  proof (cases "worker (worker_run ready n ipc0)")
    case True
    then show ?thesis using handler_shrinks [OF d] by (simp add: Let_def)
  next
    case False
    then show ?thesis using d by (auto simp: draining_def Let_def)
  qed
qed

lemma run_length:
  assumes "draining ipc0 ipc0"
  shows "length (msg_list (worker_run ready n ipc0)) = length (msg_list ipc0) - card {k. k < n \<and> ready k}"
proof (induction n)
  case (Suc n)
  have "{k. k < Suc n \<and> ready k} = (if ready n then insert n {k. k < n \<and> ready k} else {k. k < n \<and> ready k})"
    by (auto simp: less_Suc_eq)
  then show ?case using Suc run_shrinks [OF assms, of ready n] by simp
qed simp

lemma ready_often:
  assumes "\<And>k::nat. \<exists>j\<ge>k. ready j"
  shows "\<exists>n. m \<le> card {k. k < n \<and> ready k}"
proof (induction m)
  case (Suc m)
  then obtain n where n: "m \<le> card {k. k < n \<and> ready k}" by blast
  obtain j where j: "n \<le> j" "ready j" using assms by blast
  have "insert j {k. k < n \<and> ready k} \<subseteq> {k. k < Suc j \<and> ready k}" using j by auto
  then have "card (insert j {k. k < n \<and> ready k}) \<le> card {k. k < Suc j \<and> ready k}" by (intro card_mono) auto
  moreover have "card (insert j {k. k < n \<and> ready k}) = Suc (card {k. k < n \<and> ready k})" using j by (subst card_insert_disjoint) auto
  ultimately show ?case using n by (intro exI [of _ "Suc j"]) linarith
qed simp

section \<open>Claims\<close>

text \<open>
  (C9) Every queued message reaches the host. Once \<^verbatim>\<open>ipc_msg_send\<close> has queued a message on a running system, the
  worker stays armed while anything is queued; if the platform accepts a message again and again, the queue becomes empty,
  and the host has then received exactly the queued messages, in the order of the queue.
\<close>

theorem ipc_queue_drains:
  assumes "ipc_msg_send True ipc4 r m data high_priority ipc = Done ipc'" and "\<not> pm_prepare_D3 ipc"
    and "\<And>k. \<exists>j\<ge>k. ready j"
  shows "\<exists>n. msg_list (worker_run ready n ipc') = [] \<and>
    sent (worker_run ready n ipc') = sent ipc @ map (wire_of ipc') (msg_list ipc') \<and>
    set (msg_list ipc') = insert m (set (msg_list ipc))"
proof -
  have "draining ipc' ipc' \<and> sent ipc' = sent ipc \<and> set (msg_list ipc') = insert m (set (msg_list ipc))"
    using assms(1,2) by (auto simp: ipc_msg_send_def copy_payload_def schedule_ipc_worker_def draining_def Let_def errno
        split: if_splits prod.splits)
  moreover obtain n where "length (msg_list ipc') \<le> card {k. k < n \<and> ready k}" using ready_often [OF assms(3)] by blast
  ultimately have "draining ipc' (worker_run ready n ipc')" "msg_list (worker_run ready n ipc') = []"
    using run_draining run_length [of ipc' ready n] by auto
  then show ?thesis using \<open>draining ipc' ipc' \<and> _\<close> by (intro exI [of _ n]) (auto simp: draining_def)
qed

definition demo_ipc :: ipc where
  "demo_ipc = \<lparr>msgs = (\<lambda>m. \<lparr>msg_header = m, msg_extension = 0, tx_size = 4, tx_data = 16 * m\<rparr>), msg_list = [3, 5],
     pm_prepare_D3 = False, worker = True, ipc_mem = (\<lambda>a. a mod 256), sent = []\<rparr>"

theorem ipc_queue_drains_witness:
  "\<exists>ipc' n. ipc_msg_send True False True 4 200 True demo_ipc = Done ipc' \<and> msg_list (worker_run even n ipc') = [] \<and>
    sent (worker_run even n ipc') = sent demo_ipc @ map (wire_of ipc') (msg_list ipc') \<and>
    set (msg_list ipc') = insert 4 (set (msg_list demo_ipc))"
proof -
  obtain ipc' where s: "ipc_msg_send True False True 4 200 True demo_ipc = Done ipc'"
    by (simp add: ipc_msg_send_def copy_payload_def demo_ipc_def memcpy_s_def SOF_IPC_MSG_MAX_SIZE_def errno schedule_ipc_worker_def)
  have "\<exists>j\<ge>k. even j" for k :: nat by (rule exI [of _ "2 * k"]) simp
  then show ?thesis using s ipc_queue_drains [OF s, of even] by (auto simp: demo_ipc_def)
qed

end
