(* ===== verification/Pipeline.thy ===== *)
theory Pipeline
  imports PipelineWalk IpcMsg
begin

text \<open>
  Building, configuring and preparing pipelines: \<^verbatim>\<open>src/audio/pipeline/pipeline-graph.c\<close> and
  \<^verbatim>\<open>pipeline-params.c\<close>. Everything outside the pipeline code, the drivers of the components, the
  scheduler and the host interface, is reached through the record \<open>ppl_env\<close>.
\<close>

section \<open>The environment\<close>

text \<open>
  The operations that the pipeline code calls through function pointers or other services, on the graph and the state \<open>'e\<close>
  of the rest of the firmware. Tasks and pipelines are named by their addresses.
\<close>

record 'e ppl_env =
  comp_trigger :: "nat \<Rightarrow> comp_cmd \<Rightarrow> graph \<times> 'e \<Rightarrow> (graph \<times> 'e) \<times> int"
  comp_reset :: "nat \<Rightarrow> graph \<times> 'e \<Rightarrow> (graph \<times> 'e) \<times> int"
  comp_prepare :: "nat \<Rightarrow> graph \<times> 'e \<Rightarrow> (graph \<times> 'e) \<times> int"
  comp_copy :: "nat \<Rightarrow> graph \<times> 'e \<Rightarrow> (graph \<times> 'e) \<times> int"
  comp_params :: "nat \<Rightarrow> sof_ipc_stream_params \<Rightarrow> graph \<times> 'e \<Rightarrow> ((graph \<times> 'e) \<times> sof_ipc_stream_params) \<times> int"
  comp_dai_get_hw_params :: "nat \<Rightarrow> nat \<Rightarrow> sof_ipc_stream_params \<Rightarrow> graph \<times> 'e \<Rightarrow> ((graph \<times> 'e) \<times> sof_ipc_stream_params) \<times> int"
  dai_get_init_delay_ms :: "nat \<Rightarrow> nat"
  task_init_ll :: "nat \<Rightarrow> bool \<Rightarrow> 'e \<Rightarrow> 'e \<times> nat option"
  task_active :: "nat option \<Rightarrow> 'e \<Rightarrow> bool"
  schedule_task :: "nat option \<Rightarrow> nat \<Rightarrow> nat \<Rightarrow> 'e \<Rightarrow> 'e"
  schedule_task_before :: "nat option \<Rightarrow> nat \<Rightarrow> nat \<Rightarrow> nat option \<Rightarrow> 'e \<Rightarrow> 'e"
  schedule_task_after :: "nat option \<Rightarrow> nat \<Rightarrow> nat \<Rightarrow> nat option \<Rightarrow> 'e \<Rightarrow> 'e"
  schedule_task_free :: "nat option \<Rightarrow> 'e \<Rightarrow> 'e"
  schedule_task_cancel :: "nat option \<Rightarrow> 'e \<Rightarrow> 'e"
  sa_set_panic_on_delay :: "bool \<Rightarrow> 'e \<Rightarrow> 'e"
  ipc_msg_reply :: "int \<Rightarrow> 'e \<Rightarrow> 'e"
  xrun_report :: "nat \<Rightarrow> nat \<Rightarrow> int \<Rightarrow> nat \<Rightarrow> 'e \<Rightarrow> 'e"
  k_msleep :: "nat \<Rightarrow> 'e \<Rightarrow> 'e"

text \<open>The data of a walk, \<^verbatim>\<open>struct pipeline_data\<close>, with the collected pipelines and the environment.\<close>

record 'e pipeline_data =
  pd_env :: 'e
  pd_p :: nat
  pd_start :: nat
  pd_cmd :: comp_cmd
  pd_delay_ms :: nat
  pd_params :: sof_ipc_stream_params
  pd_pipelines :: "nat list"

type_synonym 'e walk_state = "graph \<times> 'e pipeline_data"

definition zero_ipc_params :: sof_ipc_stream_params where
  "zero_ipc_params = \<lparr>ipc_frame_fmt = SOF_IPC_FRAME_S16_LE, ipc_buffer_fmt = 0, ipc_rate = 0, ipc_channels = 0,
     ipc_chmap = [], ipc_direction = 0\<rparr>"

definition walk_data :: "'e \<Rightarrow> nat \<Rightarrow> nat \<Rightarrow> comp_cmd \<Rightarrow> sof_ipc_stream_params \<Rightarrow> 'e pipeline_data" where
  "walk_data e p start cmd params = \<lparr>pd_env = e, pd_p = p, pd_start = start, pd_cmd = cmd, pd_delay_ms = 0,
     pd_params = params, pd_pipelines = []\<rparr>"

lemma walk_data_sel [simp]:
  "pd_env (walk_data e p start cmd ps) = e" "pd_p (walk_data e p start cmd ps) = p" "pd_start (walk_data e p start cmd ps) = start"
  "pd_cmd (walk_data e p start cmd ps) = cmd" "pd_params (walk_data e p start cmd ps) = ps"
  by (simp_all add: walk_data_def)

text \<open>A call of the environment from a walk.\<close>

definition in_walk :: "(graph \<times> 'e \<Rightarrow> (graph \<times> 'e) \<times> 'r) \<Rightarrow> 'e walk_state \<Rightarrow> 'e walk_state \<times> 'r" where
  "in_walk f s = (case f (fst s, pd_env (snd s)) of ((g, e), r) \<Rightarrow> ((g, (snd s)\<lparr>pd_env := e\<rparr>), r))"

text \<open>The outcome of a walk for its caller.\<close>

definition walk_result :: "('e walk_state \<times> int) option \<Rightarrow> ((graph \<times> 'e) \<times> int) option" where
  "walk_result r = map_option (\<lambda>(s, err). ((fst s, pd_env (snd s)), err)) r"

section \<open>Small predicates\<close>

text \<open>The pipeline of a component; a read through a \<^verbatim>\<open>NULL\<close> pipeline pointer reads the entry 0.\<close>

definition pipeline_of :: "graph \<Rightarrow> nat \<Rightarrow> nat" where
  "pipeline_of g c = (case dev_pipeline (g_comp g c) of None \<Rightarrow> 0 | Some p \<Rightarrow> p)"

definition pipeline_is_same_sched_comp :: "pipeline \<Rightarrow> pipeline \<Rightarrow> bool" where
  "pipeline_is_same_sched_comp current previous \<longleftrightarrow> sched_comp current = sched_comp previous"

definition pipeline_is_timer_driven :: "pipeline \<Rightarrow> bool" where
  "pipeline_is_timer_driven p \<longleftrightarrow> time_domain_timer p"

definition comp_same_dir :: "graph \<Rightarrow> nat \<Rightarrow> nat \<Rightarrow> bool" where
  "comp_same_dir g c dir =
     (let end_type = comp_get_endpoint_type (dev_type (g_comp g (sink_comp (g_ppl g (pipeline_of g c)))))
      in if dir = SOF_IPC_STREAM_PLAYBACK \<and> end_type \<noteq> COMP_ENDPOINT_DAI then False
         else if dir = SOF_IPC_STREAM_CAPTURE \<and> end_type \<noteq> COMP_ENDPOINT_HOST then False
         else True)"

definition IPC4_MOD_ID :: "bool \<Rightarrow> nat \<Rightarrow> nat" where
  "IPC4_MOD_ID ipc4 x = (if ipc4 then x mod 2 ^ 16 else 0)"

definition single_ppl :: "graph \<Rightarrow> nat \<Rightarrow> nat \<Rightarrow> bool" where
  "single_ppl g c d \<longleftrightarrow> comp_is_single_pipeline (g_comp g c) (g_comp g d)"

definition opposite :: "nat \<Rightarrow> nat" where
  "opposite dir = (if dir = 0 then 1 else 0)"

section \<open>Position offsets and pipeline objects\<close>

text \<open>The table of position slots in the mailbox. \<open>psz\<close> is \<^verbatim>\<open>sizeof(struct sof_ipc_stream_posn)\<close>.\<close>

type_synonym posn_table = "bool list"

definition pipeline_posn_offset_get :: "nat \<Rightarrow> posn_table \<Rightarrow> posn_table \<times> nat option" where
  "pipeline_posn_offset_get psz t =
     (case find (\<lambda>i. \<not> t ! i) [0..<length t] of
        None \<Rightarrow> (t, None)
      | Some i \<Rightarrow> (t[i := True], Some (i * psz)))"

definition pipeline_posn_offset_put :: "nat \<Rightarrow> nat \<Rightarrow> posn_table \<Rightarrow> posn_table outcome" where
  "pipeline_posn_offset_put psz ofs t =
     (if ofs div psz < length t then Done (t[ofs div psz := False]) else OutOfBounds)"

definition zero_pipeline :: pipeline where
  "zero_pipeline = \<lparr>ppl_comp_id = 0, ppl_pipeline_id = 0, ppl_sched_id = 0, ppl_core = 0, ppl_period = 0, ppl_priority = 0,
     ppl_period_mips = 0, ppl_frames_per_sched = 0, xrun_limit_usecs = 0, time_domain_timer = False, xrun_bytes = 0,
     ppl_status = COMP_STATE_INIT, pipe_task = None, sched_next = None, sched_prev = None, sched_comp = 0,
     source_comp = 0, sink_comp = 0, posn_offset = 0, ppl_msg = 0, trig_cmd = COMP_TRIGGER_STOP, trig_host = 0, trig_delay = 0,
     trig_aborted = False, trig_pending = False\<rparr>"

text \<open>
  \<open>ppl_size\<close> and \<open>msg_size\<close> are the sizes of the two structures, \<open>posn_size\<close> and \<open>posn_cmd\<close> what
  \<^verbatim>\<open>ipc_build_stream_posn\<close> puts into the message header; with IPC4 the size is 0 and there is no message.
\<close>

definition pipeline_new ::
    "platform \<Rightarrow> nat \<Rightarrow> nat \<Rightarrow> nat \<Rightarrow> nat \<Rightarrow> nat \<Rightarrow> nat \<Rightarrow> mm \<times> memory \<Rightarrow> nat \<Rightarrow> nat \<Rightarrow> nat \<Rightarrow> posn_table
       \<Rightarrow> ((mm \<times> memory) \<times> posn_table \<times> (nat \<times> pipeline) option) outcome" where
  "pipeline_new pf core ppl_size msg_size psz posn_cmd posn_size st pipeline_id priority comp_id t =
     obind (rzalloc pf core SOF_MEM_ZONE_RUNTIME st SOF_MEM_CAPS_RAM ppl_size) (\<lambda>(st1, ptr).
       if ptr = 0 then Done (st1, t, None)
       else
         let p = zero_pipeline\<lparr>ppl_comp_id := comp_id, ppl_priority := priority, ppl_pipeline_id := pipeline_id,
                   ppl_status := COMP_STATE_INIT, trig_cmd := COMP_TRIGGER_NO_ACTION\<rparr>
         in case pipeline_posn_offset_get psz t of
              (t1, None) \<Rightarrow> obind (rfree pf core (fst st1) ptr) (\<lambda>mm2. Done ((mm2, snd st1), t1, None))
            | (t1, Some ofs) \<Rightarrow>
                if posn_size \<noteq> 0
                then obind (ipc_msg_init pf core msg_size st1 posn_cmd posn_size) (\<lambda>(st2, msg).
                       case msg of
                         None \<Rightarrow> obind (rfree pf core (fst st2) ptr) (\<lambda>mm3. Done ((mm3, snd st2), t1, None))
                       | Some (m, _) \<Rightarrow> Done (st2, t1, Some (ptr, p\<lparr>posn_offset := ofs, ppl_msg := m\<rparr>)))
                else Done (st1, t1, Some (ptr, p\<lparr>posn_offset := ofs\<rparr>)))"

definition pipeline_free ::
    "platform \<Rightarrow> nat \<Rightarrow> nat \<Rightarrow> 'e ppl_env \<Rightarrow> 'e \<Rightarrow> nat \<Rightarrow> pipeline \<Rightarrow> ipc \<Rightarrow> mm \<Rightarrow> posn_table \<Rightarrow> ('e \<times> ipc \<times> mm \<times> posn_table) outcome" where
  "pipeline_free pf core psz env e ptr p ipc mm t =
     (let e1 = (if pipe_task p \<noteq> None then schedule_task_free env (pipe_task p) e else e)
      in obind (case pipe_task p of None \<Rightarrow> Done mm | Some task \<Rightarrow> rfree pf core mm task) (\<lambda>mm1.
         obind (ipc_msg_free pf core (ppl_msg p) ipc mm1) (\<lambda>(ipc1, mm2).
         obind (pipeline_posn_offset_put psz (posn_offset p) t) (\<lambda>t1.
         obind (rfree pf core mm2 ptr) (\<lambda>mm3. Done (e1, ipc1, mm3, t1))))))"

section \<open>Connecting\<close>

definition PPL_CONN_DIR_COMP_TO_BUFFER :: nat where "PPL_CONN_DIR_COMP_TO_BUFFER = 0"
definition PPL_CONN_DIR_BUFFER_TO_COMP :: nat where "PPL_CONN_DIR_BUFFER_TO_COMP = 1"

definition buffer_set_comp :: "comp_buffer \<Rightarrow> nat \<Rightarrow> nat \<Rightarrow> comp_buffer" where
  "buffer_set_comp b c dir = (if dir = PPL_CONN_DIR_COMP_TO_BUFFER then b\<lparr>cb_source := c\<rparr> else b\<lparr>cb_sink := c\<rparr>)"

definition set_buffer_list :: "nat \<Rightarrow> (nat list \<Rightarrow> nat list) \<Rightarrow> comp_dev \<Rightarrow> comp_dev" where
  "set_buffer_list dir f dev =
     (if dir = PPL_DIR_DOWNSTREAM then dev\<lparr>bsink_list := f (bsink_list dev)\<rparr> else dev\<lparr>bsource_list := f (bsource_list dev)\<rparr>)"

definition pipeline_connect :: "nat \<Rightarrow> nat \<Rightarrow> nat \<Rightarrow> graph \<Rightarrow> graph" where
  "pipeline_connect c b dir g =
     upd_buf b (\<lambda>x. buffer_set_comp x c dir) (upd_comp c (set_buffer_list dir (\<lambda>xs. b # xs)) g)"

definition pipeline_disconnect :: "nat \<Rightarrow> nat \<Rightarrow> nat \<Rightarrow> graph \<Rightarrow> graph" where
  "pipeline_disconnect c b dir g =
     upd_buf b (\<lambda>x. buffer_set_comp x 0 dir) (upd_comp c (set_buffer_list dir (remove1 b)) g)"

section \<open>Completion and reset\<close>

definition complete_comp :: "pipeline \<Rightarrow> nat \<Rightarrow> comp_dev \<Rightarrow> comp_dev" where
  "complete_comp ppl p dev =
     (let dev1 = dev\<lparr>dev_pipeline := Some p\<rparr>;
          dev2 = (if dev_domain dev1 = COMP_PROCESSING_DOMAIN_LL then dev1\<lparr>dev_period := ppl_period ppl\<rparr> else dev1)
      in dev2\<lparr>dev_priority := ppl_priority ppl\<rparr>)"

definition pipeline_comp_complete :: "'e pipeline_data walker" where
  "pipeline_comp_complete =
     \<lparr>enter = (\<lambda>c cb dir (g, d).
        if \<not> single_ppl g c (pd_start d) then ((g, d), Some 0)
        else ((upd_comp c (complete_comp (g_ppl g (pd_p d)) (pd_p d)) g, d), None)),
      leave = (\<lambda>c cb dir err s. (s, err)),
      buff_func = (\<lambda>b s. s), incoming = None, skip_incomplete = False\<rparr>"

text \<open>The first argument bounds the depth of the walk.\<close>

definition pipeline_complete :: "nat \<Rightarrow> nat \<Rightarrow> nat \<Rightarrow> nat \<Rightarrow> graph \<times> 'e \<Rightarrow> ((graph \<times> 'e) \<times> int) option" where
  "pipeline_complete n p source sink s =
     (if ppl_status (g_ppl (fst s) p) \<noteq> COMP_STATE_INIT then Some (s, - EINVAL)
      else map_option (\<lambda>((g, e), ret).
               ((upd_ppl p (\<lambda>x. x\<lparr>source_comp := source, sink_comp := sink, ppl_status := COMP_STATE_READY\<rparr>) g, e), ret))
             (walk_result (walk_comp pipeline_comp_complete n source None PPL_DIR_DOWNSTREAM
                (fst s, walk_data (snd s) p source COMP_TRIGGER_NO_ACTION zero_ipc_params))))"

definition pipeline_comp_reset :: "bool \<Rightarrow> 'e ppl_env \<Rightarrow> 'e pipeline_data walker" where
  "pipeline_comp_reset ipc4 env =
     \<lparr>enter = (\<lambda>c cb dir s.
        let g = fst s; p = pd_p (snd s); p_current = pipeline_of g c;
            is_single_ppl = single_ppl g c (source_comp (g_ppl g p));
            is_same_sched = pipeline_is_same_sched_comp (g_ppl g p_current) (g_ppl g p)
        in if \<not> is_single_ppl \<and> IPC4_MOD_ID ipc4 (dev_id (g_comp g c)) \<noteq> 0 then (s, Some 0)
           else if \<not> is_single_ppl \<and> \<not> is_same_sched \<and> \<not> comp_same_dir g c dir then (s, Some 0)
           else
             let s1 = (if dev_state (g_comp g c) = COMP_STATE_ACTIVE then fst (in_walk (comp_trigger env c COMP_TRIGGER_STOP) s) else s);
                 (s2, err) = in_walk (comp_reset env c) s1
             in (s2, if path_ends err then Some err else None)),
      leave = (\<lambda>c cb dir err s. (s, err)),
      buff_func = (\<lambda>b s. (upd_buf b buffer_reset_params (fst s), snd s)), incoming = None, skip_incomplete = True\<rparr>"

definition pipeline_reset :: "bool \<Rightarrow> 'e ppl_env \<Rightarrow> nat \<Rightarrow> nat \<Rightarrow> nat \<Rightarrow> graph \<times> 'e \<Rightarrow> ((graph \<times> 'e) \<times> int) option" where
  "pipeline_reset ipc4 env n p host s =
     map_option (\<lambda>((g, e), ret). ((if ret < 0 then g else upd_ppl p (\<lambda>x. x\<lparr>ppl_status := COMP_STATE_READY\<rparr>) g, e), ret))
       (walk_result (walk_comp (pipeline_comp_reset ipc4 env) n host None (dev_direction (g_comp (fst s) host))
          (fst s, walk_data (snd s) p host COMP_TRIGGER_NO_ACTION zero_ipc_params)))"

section \<open>Parameters\<close>

definition pipeline_comp_params_neg :: "nat option \<Rightarrow> 'e pipeline_data walker" where
  "pipeline_comp_params_neg calling_buf =
     \<lparr>enter = (\<lambda>c cb dir (g, d).
        case cb of
          None \<Rightarrow> ((g, d), Some 0)
        | Some b \<Rightarrow>
            (case dev_state (g_comp g c) of
               COMP_STATE_INIT \<Rightarrow> ((upd_buf b (\<lambda>x. fst (buffer_set_params x (Some (pd_params d)) True)) g, d),
                                   Some (snd (buffer_set_params (g_buf g b) (Some (pd_params d)) True)))
             | COMP_STATE_READY \<Rightarrow> ((upd_buf b (\<lambda>x. fst (buffer_set_params x (Some (pd_params d)) True)) g, d),
                                   Some (snd (buffer_set_params (g_buf g b) (Some (pd_params d)) True)))
             | _ \<Rightarrow> ((g, d), Some (if buffer_params_match (g_buf g b) (Some (pd_params d)) (BUFF_PARAMS_FRAME_FMT OR BUFF_PARAMS_RATE)
                                       = Done True then 0 else - EINVAL)))),
      leave = (\<lambda>c cb dir err s. (s, err)),
      buff_func = (\<lambda>b s. s), incoming = calling_buf, skip_incomplete = True\<rparr>"

text \<open>The negotiation does not recurse, so depth 1 is enough for it (lemma \<open>params_neg_returns\<close>).\<close>

definition negotiate :: "nat \<Rightarrow> nat option \<Rightarrow> nat \<Rightarrow> 'e walk_state \<Rightarrow> 'e walk_state \<times> int" where
  "negotiate c calling_buf dir s =
     (case walk_bufs (pipeline_comp_params_neg calling_buf) 1 (comp_buffer_list (g_comp (fst s) c) dir) dir s of
        Some r \<Rightarrow> r
      | None \<Rightarrow> (s, 0))"

text \<open>Save the parameters of a buffer, as a component may have changed them.\<close>

definition pipeline_update_buffer_pcm_params :: "comp_buffer \<Rightarrow> sof_ipc_stream_params \<Rightarrow> sof_ipc_stream_params" where
  "pipeline_update_buffer_pcm_params b params =
     (let sp = runtime_stream_params (cb_stream b)
      in params\<lparr>ipc_buffer_fmt := buffer_fmt sp, ipc_frame_fmt := frame_fmt sp, ipc_rate := rate sp, ipc_channels := channels sp,
           ipc_chmap := cb_chmap b\<rparr>)"

definition pipeline_comp_params :: "'e ppl_env \<Rightarrow> 'e pipeline_data walker" where
  "pipeline_comp_params env =
     \<lparr>enter = (\<lambda>c cb dir s.
        let g = fst s; stream_direction = ipc_direction (pd_params (snd s))
        in if \<not> single_ppl g c (pd_start (snd s)) \<and> \<not> comp_same_dir g c stream_direction then (s, Some 0)
           else if dev_state (g_comp g c) = COMP_STATE_ACTIVE then (s, Some 0)
           else
             let (s1, err) = negotiate c cb (opposite dir) s
             in if path_ends err then (s1, Some err)
                else
                  let s2 = (upd_comp c (\<lambda>x. x\<lparr>dev_direction := ipc_direction (pd_params (snd s1))\<rparr>) (fst s1), snd s1);
                      ((ge, params), err) = comp_params env c (pd_params (snd s2)) (fst s2, pd_env (snd s2))
                  in ((fst ge, (snd s2)\<lparr>pd_env := snd ge, pd_params := params\<rparr>), if path_ends err then Some err else None)),
      leave = (\<lambda>c cb dir err s. (s, err)),
      buff_func = (\<lambda>b s. (fst s, (snd s)\<lparr>pd_params := pipeline_update_buffer_pcm_params (g_buf (fst s) b) (pd_params (snd s))\<rparr>)),
      incoming = None, skip_incomplete = True\<rparr>"

definition pipeline_comp_hw_params :: "'e ppl_env \<Rightarrow> 'e pipeline_data walker" where
  "pipeline_comp_hw_params env =
     \<lparr>enter = (\<lambda>c cb dir s. (s, None)),
      leave = (\<lambda>c cb dir ret s.
        if ret < 0 then (s, ret)
        else if dev_type (g_comp (fst s) c) = SOF_COMP_DAI
        then let ((ge, params), err) = comp_dai_get_hw_params env c dir (pd_params (snd s)) (fst s, pd_env (snd s))
             in ((fst ge, (snd s)\<lparr>pd_env := snd ge, pd_params := params\<rparr>), err)
        else (s, ret)),
      buff_func = (\<lambda>b s. s), incoming = None, skip_incomplete = True\<rparr>"

definition pipeline_comp_hw_params_buf :: "'e pipeline_data walker" where
  "pipeline_comp_hw_params_buf =
     \<lparr>enter = (\<lambda>c cb dir s. (s, None)),
      leave = (\<lambda>c cb dir ret s.
        if ret < 0 then (s, ret)
        else case cb of
               None \<Rightarrow> (s, ret)
             | Some b \<Rightarrow>
                 let (x, err) = buffer_set_params (g_buf (fst s) b) (Some (pd_params (snd s))) False
                 in ((upd_buf b (\<lambda>_. x) (fst s), snd s), err)),
      buff_func = (\<lambda>b s. s), incoming = None, skip_incomplete = True\<rparr>"

text \<open>
  \<open>hw0\<close> is the content of the local variable \<^verbatim>\<open>hw_params\<close> before a DAI has written it; the source leaves it
  uninitialised. The second result are the parameters as the walk left them.
\<close>

definition pipeline_params ::
    "'e ppl_env \<Rightarrow> nat \<Rightarrow> sof_ipc_stream_params \<Rightarrow> nat \<Rightarrow> nat \<Rightarrow> sof_ipc_stream_params \<Rightarrow> graph \<times> 'e
       \<Rightarrow> ((graph \<times> 'e) \<times> sof_ipc_stream_params \<times> int) option" where
  "pipeline_params env n hw0 p host params s =
     (let dir = ipc_direction params
      in case walk_comp (pipeline_comp_hw_params env) n host None dir (fst s, walk_data (snd s) p host COMP_TRIGGER_NO_ACTION hw0) of
           None \<Rightarrow> None
         | Some (s1, ret1) \<Rightarrow>
             if ret1 < 0 then Some ((fst s1, pd_env (snd s1)), params, ret1)
             else case walk_comp pipeline_comp_hw_params_buf n host None dir s1 of
                    None \<Rightarrow> None
                  | Some (s2, ret2) \<Rightarrow>
                      if ret2 < 0 then Some ((fst s2, pd_env (snd s2)), params, ret2)
                      else map_option (\<lambda>(s3, ret3). ((fst s3, pd_env (snd s3)), pd_params (snd s3), ret3))
                             (walk_comp (pipeline_comp_params env) n host None dir
                                (fst s2, (snd s2)\<lparr>pd_params := params, pd_start := host\<rparr>)))"

section \<open>Preparation\<close>

definition pipeline_comp_ll_task_init :: "'e ppl_env \<Rightarrow> nat \<Rightarrow> graph \<times> 'e \<Rightarrow> (graph \<times> 'e) \<times> int" where
  "pipeline_comp_ll_task_init env p s =
     (case s of (g, e) \<Rightarrow>
        if pipe_task (g_ppl g p) \<noteq> None then (s, 0)
        else case task_init_ll env p (pipeline_is_timer_driven (g_ppl g p)) e of
               (e1, task) \<Rightarrow> ((upd_ppl p (\<lambda>x. x\<lparr>pipe_task := task\<rparr>) g, e1), if task = None then - ENOMEM else 0))"

definition pipeline_comp_prepare :: "bool \<Rightarrow> 'e ppl_env \<Rightarrow> 'e pipeline_data walker" where
  "pipeline_comp_prepare ipc4 env =
     \<lparr>enter = (\<lambda>c cb dir s.
        let g = fst s
        in if \<not> single_ppl g c (pd_start (snd s)) \<and> (IPC4_MOD_ID ipc4 (dev_id (g_comp g c)) \<noteq> 0 \<or> \<not> comp_same_dir g c dir)
           then (s, Some 0)
           else
             let (s1, err) = (if dev_domain (g_comp g c) = COMP_PROCESSING_DOMAIN_LL
                              then in_walk (pipeline_comp_ll_task_init env (pipeline_of g c)) s else (s, 0))
             in if err < 0 then (s1, Some err)
                else
                  let (s2, err) = in_walk (comp_prepare env c) s1
                  in (s2, if path_ends err then Some err else None)),
      leave = (\<lambda>c cb dir err s. (s, err)),
      buff_func = (\<lambda>b s. case buffer_reset_pos (g_buf (fst s) b) (g_mem (fst s)) of
                        (x, mem) \<Rightarrow> ((upd_buf b (\<lambda>_. x) (fst s))\<lparr>g_mem := mem\<rparr>, snd s)),
      incoming = None, skip_incomplete = True\<rparr>"

definition pipeline_prepare :: "bool \<Rightarrow> 'e ppl_env \<Rightarrow> nat \<Rightarrow> nat \<Rightarrow> nat \<Rightarrow> graph \<times> 'e \<Rightarrow> ((graph \<times> 'e) \<times> int) option" where
  "pipeline_prepare ipc4 env n p dev s =
     map_option (\<lambda>((g, e), ret). ((if ret < 0 then g else upd_ppl p (\<lambda>x. x\<lparr>ppl_status := COMP_STATE_PREPARE\<rparr>) g, e), ret))
       (walk_result (walk_comp (pipeline_comp_prepare ipc4 env) n dev None (dev_direction (g_comp (fst s) dev))
          (fst s, walk_data (snd s) p dev COMP_TRIGGER_NO_ACTION zero_ipc_params)))"

end
