(* ===== verification/PipelineStream.thy ===== *)
theory PipelineStream
  imports Pipeline
begin

text \<open>
  Running pipelines: copying, triggering, the pipeline task and xruns, \<^verbatim>\<open>pipeline-stream.c\<close>,
  \<^verbatim>\<open>pipeline-schedule.c\<close> and \<^verbatim>\<open>pipeline-xrun.c\<close>. Firmware-side xrun recovery is off
  (\<^verbatim>\<open>NO_XRUN_RECOVERY\<close>), as in the source; the dynamic clock control option is not modelled.
\<close>

datatype task_state =
    SOF_TASK_STATE_INIT
  | SOF_TASK_STATE_QUEUED
  | SOF_TASK_STATE_PENDING
  | SOF_TASK_STATE_RUNNING
  | SOF_TASK_STATE_PREEMPTED
  | SOF_TASK_STATE_COMPLETED
  | SOF_TASK_STATE_FREE
  | SOF_TASK_STATE_CANCEL
  | SOF_TASK_STATE_RESCHEDULE

definition PPL_STATUS_SCHEDULED :: int where "PPL_STATUS_SCHEDULED = 2"

section \<open>Copying\<close>

definition pipeline_comp_copy :: "'e ppl_env \<Rightarrow> 'e pipeline_data walker" where
  "pipeline_comp_copy env =
     \<lparr>enter = (\<lambda>c cb dir s.
        if \<not> single_ppl (fst s) c (pd_start (snd s)) then (s, Some 0)
        else if \<not> comp_is_active (g_comp (fst s) c) then (s, Some 0)
        else if dir = PPL_DIR_DOWNSTREAM
        then let (s1, err) = in_walk (comp_copy env c) s in (s1, if path_ends err then Some err else None)
        else (s, None)),
      leave = (\<lambda>c cb dir err s.
        if path_ends err then (s, err)
        else if dir = PPL_DIR_UPSTREAM then in_walk (comp_copy env c) s
        else (s, err)),
      buff_func = (\<lambda>b s. s), incoming = None, skip_incomplete = True\<rparr>"

definition pipeline_copy :: "'e ppl_env \<Rightarrow> nat \<Rightarrow> nat \<Rightarrow> graph \<times> 'e \<Rightarrow> ((graph \<times> 'e) \<times> int) option" where
  "pipeline_copy env n p s =
     (let g = fst s;
          playback = dev_direction (g_comp g (source_comp (g_ppl g p))) = SOF_IPC_STREAM_PLAYBACK;
          dir = (if playback then PPL_DIR_UPSTREAM else PPL_DIR_DOWNSTREAM);
          start = (if playback then sink_comp (g_ppl g p) else source_comp (g_ppl g p))
      in walk_result (walk_comp (pipeline_comp_copy env) n start None dir
           (g, walk_data (snd s) p start COMP_TRIGGER_NO_ACTION zero_ipc_params)))"

section \<open>Collecting pipelines\<close>

text \<open>
  \<^verbatim>\<open>list_item_append\<close> of the item embedded in a pipeline. Appending an item that is already linked makes it the
  last one and cuts off what followed it: the forward iteration then sees the items up to it.
\<close>

definition append_pipeline :: "nat \<Rightarrow> nat list \<Rightarrow> nat list" where
  "append_pipeline p ps = takeWhile (\<lambda>q. q \<noteq> p) ps @ [p]"

definition pipeline_comp_trigger_sched_comp :: "nat \<Rightarrow> nat \<Rightarrow> 'e walk_state \<Rightarrow> 'e walk_state" where
  "pipeline_comp_trigger_sched_comp p c s =
     (let g = fst s; ppl = g_ppl g p; sc = sched_comp ppl
      in if dev_id (g_comp g sc) \<noteq> dev_id (g_comp g c) \<and>
            (ppl_pipeline_id ppl = ppl_pipeline_id (g_ppl g (pipeline_of g sc)) \<or> dev_id (g_comp g (sink_comp ppl)) \<noteq> dev_id (g_comp g c))
         then s
         else (g, (snd s)\<lparr>pd_pipelines := append_pipeline p (pd_pipelines (snd s))\<rparr>))"

definition pipeline_comp_list :: "bool \<Rightarrow> 'e pipeline_data walker" where
  "pipeline_comp_list ipc4 =
     \<lparr>enter = (\<lambda>c cb dir s.
        let g = fst s; p = pipeline_of g c;
            is_single_ppl = single_ppl g c (pd_start (snd s));
            is_same_sched = pipeline_is_same_sched_comp (g_ppl g p) (g_ppl g (pipeline_of g (pd_start (snd s))))
        in if \<not> is_single_ppl \<and> (\<not> is_same_sched \<or> IPC4_MOD_ID ipc4 (dev_id (g_comp g c)) \<noteq> 0) then (s, Some 0)
           else (pipeline_comp_trigger_sched_comp p c s, None)),
      leave = (\<lambda>c cb dir err s. (s, err)),
      buff_func = (\<lambda>b s. s), incoming = None, skip_incomplete = True\<rparr>"

section \<open>Scheduling\<close>

definition pipeline_schedule_config :: "nat \<Rightarrow> nat \<Rightarrow> nat \<Rightarrow> nat \<Rightarrow> nat \<Rightarrow> bool \<Rightarrow> pipeline \<Rightarrow> pipeline" where
  "pipeline_schedule_config sched_id core period period_mips frames_per_sched timer p =
     p\<lparr>ppl_sched_id := sched_id, ppl_core := core, ppl_period := period, ppl_period_mips := period_mips,
       ppl_frames_per_sched := frames_per_sched, time_domain_timer := timer\<rparr>"

definition pipeline_schedule_cancel :: "'e ppl_env \<Rightarrow> pipeline \<Rightarrow> 'e \<Rightarrow> 'e" where
  "pipeline_schedule_cancel env p e = sa_set_panic_on_delay env True (schedule_task_cancel env (pipe_task p) e)"

definition pipeline_schedule_copy :: "'e ppl_env \<Rightarrow> nat \<Rightarrow> nat \<Rightarrow> graph \<Rightarrow> 'e \<Rightarrow> 'e" where
  "pipeline_schedule_copy env p start g e =
     (let ppl = g_ppl g p;
          e1 = (if pipeline_is_timer_driven ppl then e else sa_set_panic_on_delay env False e);
          active = (\<lambda>q. case q of None \<Rightarrow> False | Some x \<Rightarrow> task_active env (pipe_task (g_ppl g x)) e1);
          task_of = (\<lambda>q. case q of None \<Rightarrow> None | Some x \<Rightarrow> pipe_task (g_ppl g x))
      in if task_active env (pipe_task ppl) e1 then e1
         else if active (sched_next ppl)
         then schedule_task_before env (pipe_task ppl) start (ppl_period ppl) (task_of (sched_next ppl)) e1
         else if active (sched_prev ppl)
         then schedule_task_after env (pipe_task ppl) start (ppl_period ppl) (task_of (sched_prev ppl)) e1
         else schedule_task env (pipe_task ppl) start (ppl_period ppl) e1)"

text \<open>The body of the loops; the third component is \<^verbatim>\<open>ppl_data->start\<close>, 0 once a pipeline has taken it.\<close>

definition hand_over :: "comp_cmd \<Rightarrow> nat \<Rightarrow> nat \<Rightarrow> graph \<Rightarrow> graph" where
  "hand_over cmd start p g = upd_ppl p (\<lambda>x. x\<lparr>trig_cmd := cmd, trig_pending := True, trig_host := start\<rparr>) g"

definition trigger_one :: "'e ppl_env \<Rightarrow> comp_cmd \<Rightarrow> nat \<Rightarrow> (graph \<times> 'e) \<times> nat \<Rightarrow> (graph \<times> 'e) \<times> nat" where
  "trigger_one env cmd p st =
     (case st of ((g, e), start) \<Rightarrow>
        if cmd = COMP_TRIGGER_PAUSE \<or> cmd = COMP_TRIGGER_STOP
        then if pipeline_is_timer_driven (g_ppl g p) \<and> ppl_status (g_ppl g p) \<noteq> COMP_STATE_PAUSED
             then ((hand_over cmd start p g, e), 0)
             else ((upd_ppl p (\<lambda>x. x\<lparr>ppl_status := COMP_STATE_PAUSED\<rparr>) g, pipeline_schedule_cancel env (g_ppl g p) e), start)
        else if cmd = COMP_TRIGGER_PRE_RELEASE \<or> cmd = COMP_TRIGGER_PRE_START
        then let g1 = upd_ppl p (\<lambda>x. x\<lparr>xrun_bytes := 0\<rparr>) g;
                 (g2, start2) = (if pipeline_is_timer_driven (g_ppl g1 p) then (hand_over cmd start p g1, 0)
                                 else (upd_ppl p (\<lambda>x. x\<lparr>ppl_status := COMP_STATE_ACTIVE\<rparr>) g1, start))
             in ((g2, pipeline_schedule_copy env p 0 g2 e), start2)
        else if cmd = COMP_TRIGGER_XRUN
        then ((upd_ppl p (\<lambda>x. if xrun_bytes x = 0 then x\<lparr>xrun_bytes := 1\<rparr> else x) g, e), start)
        else st)"

definition pipeline_schedule_triggered :: "'e ppl_env \<Rightarrow> comp_cmd \<Rightarrow> 'e walk_state \<Rightarrow> graph \<times> 'e" where
  "pipeline_schedule_triggered env cmd s =
     fst (fold (trigger_one env cmd) (pd_pipelines (snd s)) ((fst s, pd_env (snd s)), pd_start (snd s)))"

text \<open>Linking the collected pipelines in the order of their priority.\<close>

definition link_sched :: "nat \<Rightarrow> graph \<times> nat option \<Rightarrow> graph \<times> nat option" where
  "link_sched p st =
     (case st of (g, upstream) \<Rightarrow>
        (if dev_direction (g_comp g (sched_comp (g_ppl g p))) = SOF_IPC_STREAM_PLAYBACK
         then case upstream of
                None \<Rightarrow> upd_ppl p (\<lambda>x. x\<lparr>sched_prev := None\<rparr>) g
              | Some u \<Rightarrow> upd_ppl u (\<lambda>x. x\<lparr>sched_next := Some p\<rparr>) (upd_ppl p (\<lambda>x. x\<lparr>sched_prev := Some u\<rparr>) g)
         else case upstream of
                None \<Rightarrow> upd_ppl p (\<lambda>x. x\<lparr>sched_next := None\<rparr>) g
              | Some u \<Rightarrow> upd_ppl u (\<lambda>x. x\<lparr>sched_prev := Some p\<rparr>) (upd_ppl p (\<lambda>x. x\<lparr>sched_next := Some u\<rparr>) g),
         Some p))"

definition pipeline_trigger_list :: "bool \<Rightarrow> 'e ppl_env \<Rightarrow> nat \<Rightarrow> nat \<Rightarrow> nat \<Rightarrow> comp_cmd \<Rightarrow> graph \<times> 'e \<Rightarrow> ((graph \<times> 'e) \<times> int) option" where
  "pipeline_trigger_list ipc4 env n p host cmd s =
     map_option (\<lambda>(s1, ret).
         if ret < 0 then ((fst s1, pd_env (snd s1)), ret)
         else
           let g = (if cmd = COMP_TRIGGER_PRE_START then fst (fold link_sched (pd_pipelines (snd s1)) (fst s1, None)) else fst s1)
           in (pipeline_schedule_triggered env cmd (g, snd s1), ret))
       (walk_comp (pipeline_comp_list ipc4) n host None (dev_direction (g_comp (fst s) host))
          (fst s, walk_data (snd s) p host cmd zero_ipc_params))"

section \<open>Triggering\<close>

text \<open>
  \<^verbatim>\<open>pipeline_trigger_xrun\<close>: the host component of an xrun, looked for through the connected pipelines. The loop need not end
  in a graph with cycles, so that \<open>None\<close> is a run that does not end.
\<close>

partial_function (option) pipeline_trigger_xrun :: "graph \<Rightarrow> nat \<Rightarrow> nat option" where
  "pipeline_trigger_xrun g host =
     (let dir = (if dev_direction (g_comp g host) = PPL_DIR_DOWNSTREAM then PPL_DIR_UPSTREAM else PPL_DIR_DOWNSTREAM);
          ppl = (\<lambda>b. g_ppl g (pipeline_of g (buffer_get_comp (g_buf g b) dir)))
      in case find (\<lambda>b. ppl_status (ppl b) = COMP_STATE_ACTIVE \<or> ppl_status (ppl b) = COMP_STATE_PREPARE)
                (comp_buffer_list (g_comp g host) dir) of
           None \<Rightarrow> Some host
         | Some b \<Rightarrow> pipeline_trigger_xrun g
             (if dev_direction (g_comp g host) = PPL_DIR_DOWNSTREAM then source_comp (ppl b) else sink_comp (ppl b)))"

definition pipeline_should_report_enodata_on_trigger :: "bool \<Rightarrow> nat \<Rightarrow> 'e walk_state \<Rightarrow> nat \<Rightarrow> bool" where
  "pipeline_should_report_enodata_on_trigger ipc4 rsrc s dir =
     (let g = fst s; start = pd_start (snd s); pipe_source = source_comp (g_ppl g (pipeline_of g start))
      in if ipc4 then False
         else if dir \<noteq> SOF_IPC_STREAM_CAPTURE then False
         else if pd_cmd (snd s) \<noteq> COMP_TRIGGER_START \<and> pd_cmd (snd s) \<noteq> COMP_TRIGGER_RELEASE then False
         else if pipe_source \<noteq> 0 \<and> dev_type (g_comp g pipe_source) = SOF_COMP_DAI then False
         else if ppl_priority (g_ppl g (pipeline_of g rsrc)) \<le> ppl_priority (g_ppl g (pipeline_of g start)) then False
         else dev_state (g_comp g rsrc) \<noteq> COMP_STATE_ACTIVE)"

definition trigger_cmd_ok :: "comp_cmd \<Rightarrow> bool" where
  "trigger_cmd_ok cmd \<longleftrightarrow> cmd \<in> {COMP_TRIGGER_PRE_RELEASE, COMP_TRIGGER_PRE_START, COMP_TRIGGER_PAUSE, COMP_TRIGGER_STOP,
     COMP_TRIGGER_RELEASE, COMP_TRIGGER_START}"

definition note_delay :: "'e ppl_env \<Rightarrow> nat \<Rightarrow> 'e walk_state \<Rightarrow> 'e walk_state" where
  "note_delay env c s =
     (if (pd_cmd (snd s) = COMP_TRIGGER_PRE_RELEASE \<or> pd_cmd (snd s) = COMP_TRIGGER_PRE_START) \<and>
         comp_get_endpoint_type (dev_type (g_comp (fst s) c)) = COMP_ENDPOINT_DAI
      then (fst s, (snd s)\<lparr>pd_delay_ms := dai_get_init_delay_ms env c\<rparr>) else s)"

definition pipeline_comp_trigger :: "bool \<Rightarrow> 'e ppl_env \<Rightarrow> 'e pipeline_data walker" where
  "pipeline_comp_trigger ipc4 env =
     \<lparr>enter = (\<lambda>c cb dir s0.
        if \<not> trigger_cmd_ok (pd_cmd (snd s0)) then (s0, Some (- EINVAL))
        else
          let s = note_delay env c s0; g = fst s; cmd = pd_cmd (snd s); p = pipeline_of g c;
              is_single_ppl = single_ppl g c (pd_start (snd s));
              is_same_sched = pipeline_is_same_sched_comp (g_ppl g p) (g_ppl g (pipeline_of g (pd_start (snd s))))
          in if \<not> is_single_ppl \<and> (\<not> is_same_sched \<or> ipc4)
             then (s, Some (if pipeline_should_report_enodata_on_trigger ipc4 c s dir then - ENODATA else 0))
             else
               let s1 = (upd_ppl p (\<lambda>x. x\<lparr>trig_pending := False\<rparr>) g, snd s);
                   (s2, err) = in_walk (comp_trigger env c cmd) s1
               in if err = PPL_STATUS_PATH_STOP
                  then ((upd_ppl p (\<lambda>x. x\<lparr>trig_aborted := True\<rparr>) (fst s2), snd s2), Some PPL_STATUS_PATH_STOP)
                  else if err = PPL_STATUS_PATH_TERMINATE then (s2, Some PPL_STATUS_PATH_STOP)
                  else if err \<noteq> 0 then (s2, Some err)
                  else
                    let timer = pipeline_is_timer_driven (g_ppl (fst s2) p);
                        s3 = (if (cmd = COMP_TRIGGER_PAUSE \<or> cmd = COMP_TRIGGER_STOP) \<and> timer
                              then (upd_ppl p (\<lambda>x. x\<lparr>ppl_status := COMP_STATE_PAUSED\<rparr>) (fst s2), snd s2) else s2);
                        s4 = (if timer then s3 else pipeline_comp_trigger_sched_comp p c s3)
                    in (s4, None)),
      leave = (\<lambda>c cb dir err s. (s, err)),
      buff_func = (\<lambda>b s. s), incoming = None, skip_incomplete = True\<rparr>"

section \<open>Xruns\<close>

definition pipeline_xrun_recover :: "bool \<Rightarrow> 'e ppl_env \<Rightarrow> nat \<Rightarrow> nat \<Rightarrow> graph \<times> 'e \<Rightarrow> ((graph \<times> 'e) \<times> int) option" where
  "pipeline_xrun_recover ipc4 env n p s =
     map_option (\<lambda>(s1, _). (s1, - EINVAL)) (pipeline_reset ipc4 env n p (source_comp (g_ppl (fst s) p)) s)"

definition pipeline_xrun_set_limit :: "nat \<Rightarrow> pipeline \<Rightarrow> pipeline" where
  "pipeline_xrun_set_limit usecs p = p\<lparr>xrun_limit_usecs := usecs\<rparr>"

definition pipeline_xrun_handle_trigger :: "bool \<Rightarrow> 'e ppl_env \<Rightarrow> nat \<Rightarrow> nat \<Rightarrow> comp_cmd \<Rightarrow> graph \<times> 'e \<Rightarrow> ((graph \<times> 'e) \<times> int) option" where
  "pipeline_xrun_handle_trigger ipc4 env n p cmd s =
     (if xrun_bytes (g_ppl (fst s) p) = 0 \<or> ppl_status (g_ppl (fst s) p) \<noteq> COMP_STATE_PAUSED then Some (s, 0)
      else if cmd = COMP_TRIGGER_START
      then map_option (\<lambda>((g, e), ret). if ret < 0 then ((g, e), ret) else ((upd_ppl p (\<lambda>x. x\<lparr>xrun_bytes := 0\<rparr>) g, e), ret))
             (pipeline_prepare ipc4 env n p (source_comp (g_ppl (fst s) p)) s)
      else if cmd = COMP_TRIGGER_STOP then Some (s, PPL_STATUS_PATH_STOP)
      else Some (s, 0))"

definition pipeline_comp_xrun :: "'e ppl_env \<Rightarrow> int \<Rightarrow> nat \<Rightarrow> 'e pipeline_data walker" where
  "pipeline_comp_xrun env bytes comp_id =
     \<lparr>enter = (\<lambda>c cb dir s.
        (if dev_type (g_comp (fst s) c) = SOF_COMP_HOST
         then (fst s, (snd s)\<lparr>pd_env := xrun_report env (posn_offset (g_ppl (fst s) (pd_p (snd s)))) c bytes comp_id (pd_env (snd s))\<rparr>)
         else s, None)),
      leave = (\<lambda>c cb dir err s. (s, err)),
      buff_func = (\<lambda>b s. s), incoming = None, skip_incomplete = True\<rparr>"

section \<open>Running a trigger\<close>

definition final_cmd :: "comp_cmd \<Rightarrow> comp_cmd" where
  "final_cmd cmd = (if cmd = COMP_TRIGGER_PRE_START then COMP_TRIGGER_START
                    else if cmd = COMP_TRIGGER_PRE_RELEASE then COMP_TRIGGER_RELEASE else cmd)"

text \<open>
  The periods to wait, in 32-bit arithmetic. The division traps if the period is zero: then the trigger does not return.
\<close>

definition trigger_delay :: "nat \<Rightarrow> nat \<Rightarrow> nat" where
  "trigger_delay delay_ms period = u32_sub (u32 (delay_ms * 1000 + period)) 1 div period"

text \<open>From the walk over the components on; \<open>s\<close> is the state after the global checks.\<close>

definition trigger_walks :: "bool \<Rightarrow> 'e ppl_env \<Rightarrow> nat \<Rightarrow> nat \<Rightarrow> nat \<Rightarrow> comp_cmd \<Rightarrow> graph \<times> 'e \<Rightarrow> ((graph \<times> 'e) \<times> int) option" where
  "trigger_walks ipc4 env n p host cmd s =
     (case walk_comp (pipeline_comp_trigger ipc4 env) n host None (dev_direction (g_comp (fst s) host))
             (fst s, walk_data (snd s) p host cmd zero_ipc_params) of
        None \<Rightarrow> None
      | Some (s1, ret) \<Rightarrow>
          if ret < 0 then Some (pipeline_schedule_triggered env cmd s1, ret)
          else if final_cmd cmd = cmd then Some (pipeline_schedule_triggered env cmd s1, ret)
          else if pd_delay_ms (snd s1) \<noteq> 0 \<and> pipeline_is_timer_driven (g_ppl (fst s1) p)
          then if ppl_period (g_ppl (fst s1) p) = 0 then None
               else Some ((upd_ppl p (\<lambda>x. x\<lparr>trig_delay := trigger_delay (pd_delay_ms (snd s1)) (ppl_period x),
                                           trig_cmd := final_cmd cmd\<rparr>) (fst s1), pd_env (snd s1)), 0)
          else
            let d = (snd s1)\<lparr>pd_cmd := final_cmd cmd, pd_pipelines := [],
                      pd_env := (if pd_delay_ms (snd s1) \<noteq> 0 then k_msleep env (pd_delay_ms (snd s1)) (pd_env (snd s1)) else pd_env (snd s1))\<rparr>
            in map_option (\<lambda>(s2, ret2).
                   let ret3 = (if ret2 = PPL_STATUS_PATH_STOP then 0 else ret2)
                   in if pipeline_is_timer_driven (g_ppl (fst s2) p) then ((fst s2, pd_env (snd s2)), ret3)
                      else (pipeline_schedule_triggered env cmd s2, ret3))
                 (walk_comp (pipeline_comp_trigger ipc4 env) n host None (dev_direction (g_comp (fst s1) host)) (fst s1, d)))"

definition pipeline_trigger_run :: "bool \<Rightarrow> 'e ppl_env \<Rightarrow> nat \<Rightarrow> nat \<Rightarrow> nat \<Rightarrow> comp_cmd \<Rightarrow> graph \<times> 'e \<Rightarrow> ((graph \<times> 'e) \<times> int) option" where
  "pipeline_trigger_run ipc4 env n p host cmd s =
     (let s1 = (upd_ppl p (\<lambda>x. x\<lparr>trig_aborted := False\<rparr>) (fst s), snd s)
      in if xrun_bytes (g_ppl (fst s1) p) \<noteq> 0
         then case pipeline_xrun_handle_trigger ipc4 env n p cmd s1 of
                None \<Rightarrow> None
              | Some (s2, ret) \<Rightarrow>
                  if ret < 0 then Some (s2, ret)
                  else if ret = PPL_STATUS_PATH_STOP
                  then Some (s2, if pipeline_is_timer_driven (g_ppl (fst s2) p) then 1 else 0)
                  else trigger_walks ipc4 env n p host cmd s2
         else trigger_walks ipc4 env n p host cmd s1)"

definition pipeline_trigger :: "bool \<Rightarrow> 'e ppl_env \<Rightarrow> nat \<Rightarrow> nat \<Rightarrow> nat \<Rightarrow> comp_cmd \<Rightarrow> graph \<times> 'e \<Rightarrow> ((graph \<times> 'e) \<times> int) option" where
  "pipeline_trigger ipc4 env n p host cmd s =
     (let s1 = (upd_ppl p (\<lambda>x. x\<lparr>trig_aborted := False\<rparr>) (fst s), snd s); ppl = g_ppl (fst s1) p;
          listed = (\<lambda>h. map_option (\<lambda>(s2, ret). (s2, if ret < 0 then ret else PPL_STATUS_SCHEDULED))
                          (pipeline_trigger_list ipc4 env n p h cmd s1))
      in if (cmd = COMP_TRIGGER_PAUSE \<or> cmd = COMP_TRIGGER_STOP) \<and> (ppl_status ppl = COMP_STATE_PAUSED \<or> xrun_bytes ppl \<noteq> 0)
         then map_option (\<lambda>(s2, ret). (s2, if ret < 0 then ret else 0)) (pipeline_trigger_run ipc4 env n p host cmd s1)
         else if cmd = COMP_TRIGGER_XRUN then Option.bind (pipeline_trigger_xrun (fst s1) host) listed
         else if cmd \<in> {COMP_TRIGGER_PAUSE, COMP_TRIGGER_STOP, COMP_TRIGGER_PRE_RELEASE, COMP_TRIGGER_PRE_START} then listed host
         else Some (s1, 0))"

definition pipeline_xrun :: "bool \<Rightarrow> 'e ppl_env \<Rightarrow> nat \<Rightarrow> nat \<Rightarrow> nat \<Rightarrow> int \<Rightarrow> graph \<times> 'e \<Rightarrow> (graph \<times> 'e) option" where
  "pipeline_xrun ipc4 env n p dev bytes s =
     (if xrun_bytes (g_ppl (fst s) p) \<noteq> 0 then Some s
      else if dev_state (g_comp (fst s) dev) \<noteq> COMP_STATE_ACTIVE then Some s
      else
        case pipeline_trigger ipc4 env n p (source_comp (g_ppl (fst s) p)) COMP_TRIGGER_XRUN s of
          None \<Rightarrow> None
        | Some ((g, e), _) \<Rightarrow>
            let g1 = upd_ppl p (\<lambda>x. x\<lparr>xrun_bytes := bytes\<rparr>) g
            in map_option fst (walk_result (walk_comp (pipeline_comp_xrun env bytes (dev_id (g_comp g1 dev))) n dev None
                 (dev_direction (g_comp g1 dev)) (g1, walk_data e p dev COMP_TRIGGER_NO_ACTION zero_ipc_params))))"

section \<open>The pipeline task\<close>

definition task_cmd_status :: "comp_cmd \<Rightarrow> pipeline \<Rightarrow> pipeline" where
  "task_cmd_status cmd p =
     (if cmd = COMP_TRIGGER_START \<or> cmd = COMP_TRIGGER_RELEASE then p\<lparr>ppl_status := COMP_STATE_ACTIVE\<rparr>
      else if cmd = COMP_TRIGGER_PRE_START \<or> cmd = COMP_TRIGGER_PRE_RELEASE then p\<lparr>ppl_status := COMP_STATE_PRE_ACTIVE\<rparr>
      else if cmd = COMP_TRIGGER_STOP \<or> cmd = COMP_TRIGGER_PAUSE then p\<lparr>ppl_status := COMP_STATE_PAUSED\<rparr>
      else p)"

text \<open>The command of a pipeline that does not trigger the components itself.\<close>

definition task_cmd_no_host :: "pipeline \<Rightarrow> pipeline \<times> task_state" where
  "task_cmd_no_host p0 =
     (let cmd = trig_cmd p0; p = p0\<lparr>trig_cmd := COMP_TRIGGER_NO_ACTION\<rparr>;
          (p1, ret) =
            (if cmd = COMP_TRIGGER_STOP \<or> cmd = COMP_TRIGGER_PAUSE
             then (p, if trig_aborted p then SOF_TASK_STATE_RUNNING
                      else if trig_pending p then SOF_TASK_STATE_RUNNING else SOF_TASK_STATE_COMPLETED)
             else if cmd = COMP_TRIGGER_PRE_START \<or> cmd = COMP_TRIGGER_PRE_RELEASE
             then if ppl_status p = COMP_STATE_ACTIVE then (p, SOF_TASK_STATE_RUNNING)
                  else (p\<lparr>ppl_status := COMP_STATE_ACTIVE\<rparr>, SOF_TASK_STATE_RESCHEDULE)
             else (p, SOF_TASK_STATE_RESCHEDULE))
      in (p1\<lparr>trig_aborted := False\<rparr>, ret))"

definition task_reply :: "'e ppl_env \<Rightarrow> nat \<Rightarrow> int \<Rightarrow> task_state \<Rightarrow> graph \<times> 'e \<Rightarrow> (graph \<times> 'e) \<times> task_state" where
  "task_reply env p err ts s = ((upd_ppl p (\<lambda>x. x\<lparr>trig_cmd := COMP_TRIGGER_NO_ACTION\<rparr>) (fst s), ipc_msg_reply env err (snd s)), ts)"

definition pipeline_task_cmd :: "bool \<Rightarrow> 'e ppl_env \<Rightarrow> nat \<Rightarrow> nat \<Rightarrow> graph \<times> 'e \<Rightarrow> ((graph \<times> 'e) \<times> task_state) option" where
  "pipeline_task_cmd ipc4 env n p s =
     (let ppl = g_ppl (fst s) p; host = trig_host ppl; cmd = trig_cmd ppl
      in if host = 0 then Some ((upd_ppl p (\<lambda>x. fst (task_cmd_no_host x)) (fst s), snd s), snd (task_cmd_no_host ppl))
         else case pipeline_trigger_run ipc4 env n p host cmd s of
                None \<Rightarrow> None
              | Some (s1, err) \<Rightarrow>
                  if err < 0 then Some (task_reply env p err SOF_TASK_STATE_COMPLETED s1)
                  else
                    let s2 = (upd_ppl p (task_cmd_status cmd) (fst s1), snd s1); ppl2 = g_ppl (fst s2) p
                    in if err = PPL_STATUS_PATH_STOP
                       then if trig_aborted ppl2 \<and> ppl_status ppl2 = COMP_STATE_PAUSED
                            then Some (task_reply env p 0 SOF_TASK_STATE_RUNNING
                                   (upd_ppl p (\<lambda>x. x\<lparr>ppl_status := COMP_STATE_ACTIVE\<rparr>) (fst s2), snd s2))
                            else Some (task_reply env p 0 SOF_TASK_STATE_COMPLETED s2)
                       else if trig_cmd ppl2 \<noteq> cmd
                       then if trig_delay ppl2 \<noteq> 0 then Some (s2, SOF_TASK_STATE_RESCHEDULE)
                            else Some (task_reply env p 0 SOF_TASK_STATE_RESCHEDULE s2)
                       else if ppl_status ppl2 = COMP_STATE_PAUSED
                       then if cmd = COMP_TRIGGER_STOP \<and> IPC4_MOD_ID ipc4 (dev_id (g_comp (fst s2) host)) \<noteq> 0
                            then map_option (\<lambda>(s3, err). task_reply env p (if err < 0 then err else 0) SOF_TASK_STATE_COMPLETED s3)
                                   (pipeline_reset ipc4 env n (pipeline_of (fst s2) host) host s2)
                            else Some (task_reply env p 0 SOF_TASK_STATE_COMPLETED s2)
                       else Some (task_reply env p 0 SOF_TASK_STATE_RUNNING
                              (upd_ppl p (\<lambda>x. x\<lparr>ppl_status := COMP_STATE_ACTIVE\<rparr>) (fst s2), snd s2)))"

text \<open>What follows the commands: stop when paused, otherwise copy, and give up after a failed copy.\<close>

definition task_copy :: "bool \<Rightarrow> 'e ppl_env \<Rightarrow> nat \<Rightarrow> nat \<Rightarrow> graph \<times> 'e \<Rightarrow> ((graph \<times> 'e) \<times> task_state) option" where
  "task_copy ipc4 env n p s =
     (if ppl_status (g_ppl (fst s) p) = COMP_STATE_PAUSED then Some (s, SOF_TASK_STATE_COMPLETED)
      else case pipeline_copy env n p s of
             None \<Rightarrow> None
           | Some (s1, err) \<Rightarrow>
               if err < 0
               then map_option (\<lambda>(s2, err2). (s2, if err2 < 0 then SOF_TASK_STATE_COMPLETED else SOF_TASK_STATE_RESCHEDULE))
                      (pipeline_xrun_recover ipc4 env n p s1)
               else Some (s1, SOF_TASK_STATE_RESCHEDULE))"

definition task_body :: "bool \<Rightarrow> 'e ppl_env \<Rightarrow> nat \<Rightarrow> nat \<Rightarrow> graph \<times> 'e \<Rightarrow> ((graph \<times> 'e) \<times> task_state) option" where
  "task_body ipc4 env n p s =
     (if trig_delay (g_ppl (fst s) p) \<noteq> 0
      then Some ((upd_ppl p (\<lambda>x. x\<lparr>trig_delay := trig_delay x - 1\<rparr>) (fst s), snd s), SOF_TASK_STATE_RESCHEDULE)
      else if trig_cmd (g_ppl (fst s) p) \<noteq> COMP_TRIGGER_NO_ACTION
      then case pipeline_task_cmd ipc4 env n p s of
             None \<Rightarrow> None
           | Some (s1, ts) \<Rightarrow> if ts \<noteq> SOF_TASK_STATE_RUNNING then Some (s1, ts) else task_copy ipc4 env n p s1
      else task_copy ipc4 env n p s)"

definition pipeline_task :: "bool \<Rightarrow> 'e ppl_env \<Rightarrow> nat \<Rightarrow> nat \<Rightarrow> graph \<times> 'e \<Rightarrow> ((graph \<times> 'e) \<times> task_state) option" where
  "pipeline_task ipc4 env n p s =
     (if xrun_bytes (g_ppl (fst s) p) \<noteq> 0
      then
        let s1 = (if trig_cmd (g_ppl (fst s) p) \<noteq> COMP_TRIGGER_NO_ACTION
                  then (upd_ppl p (\<lambda>x. x\<lparr>trig_cmd := COMP_TRIGGER_NO_ACTION\<rparr>) (fst s), ipc_msg_reply env (- EPIPE) (snd s)) else s)
        in case pipeline_xrun_recover ipc4 env n p s1 of
             None \<Rightarrow> None
           | Some (s2, err) \<Rightarrow> if err < 0 then Some (s2, SOF_TASK_STATE_COMPLETED) else task_body ipc4 env n p s2
      else task_body ipc4 env n p s)"

end
