(* ===== verification/Pipeline_Props.thy ===== *)
theory Pipeline_Props
  imports PipelineStream
begin

text \<open>
  Pipelines: every walk returns and restores the walking flags, completion reaches the whole pipeline, data is copy_run
  from the source to the sink, the delay of a start command, and the position slots.
\<close>

section \<open>Drivers\<close>

text \<open>Drivers do not rewire the graph while it is walked and leave the walking flags to the walk.\<close>

definition env_keeps :: "'e ppl_env \<Rightarrow> bool" where
  "env_keeps env \<longleftrightarrow>
     (\<forall>c cmd s. topo (fst (fst (comp_trigger env c cmd s))) = topo (fst s)) \<and>
     (\<forall>c s. topo (fst (fst (comp_reset env c s))) = topo (fst s)) \<and>
     (\<forall>c s. topo (fst (fst (comp_prepare env c s))) = topo (fst s)) \<and>
     (\<forall>c s. topo (fst (fst (comp_copy env c s))) = topo (fst s)) \<and>
     (\<forall>c ps s. topo (fst (fst (fst (comp_params env c ps s)))) = topo (fst s)) \<and>
     (\<forall>c dir ps s. topo (fst (fst (fst (comp_dai_get_hw_params env c dir ps s)))) = topo (fst s))"

lemma env_keepsD:
  assumes "env_keeps env"
  shows "topo (fst (fst (comp_trigger env c cmd s))) = topo (fst s)"
    "topo (fst (fst (comp_reset env c s))) = topo (fst s)"
    "topo (fst (fst (comp_prepare env c s))) = topo (fst s)"
    "topo (fst (fst (comp_copy env c s))) = topo (fst s)"
    "topo (fst (fst (fst (comp_params env c ps s)))) = topo (fst s)"
    "topo (fst (fst (fst (comp_dai_get_hw_params env c dir ps s)))) = topo (fst s)"
  using assms unfolding env_keeps_def by blast+

lemma in_walk_topo:
  assumes "\<And>s. topo (fst (fst (f s))) = topo (fst s)"
  shows "topo (fst (fst (in_walk f s))) = topo (fst s)"
  using assms [of "(fst s, pd_env (snd s))"] by (auto simp: in_walk_def split: prod.splits)

lemma buffer_ends [simp]:
  "cb_source (fst (buffer_set_params b ps f)) = cb_source b" "cb_sink (fst (buffer_set_params b ps f)) = cb_sink b"
  "walking (fst (buffer_set_params b ps f)) = walking b"
  "cb_source (buffer_reset_params b) = cb_source b" "cb_sink (buffer_reset_params b) = cb_sink b"
  "walking (buffer_reset_params b) = walking b"
  "cb_source (fst (buffer_reset_pos b mem)) = cb_source b" "cb_sink (fst (buffer_reset_pos b mem)) = cb_sink b"
  "walking (fst (buffer_reset_pos b mem)) = walking b"
  by (simp_all add: buffer_set_params_def buffer_reset_params_def buffer_reset_pos_def map_stream_def Let_def split: option.splits)

lemma complete_comp_lists [simp]:
  "bsource_list (complete_comp ppl p dev) = bsource_list dev" "bsink_list (complete_comp ppl p dev) = bsink_list dev"
  by (simp_all add: complete_comp_def Let_def)

lemma topo_mem [simp]: "topo (g\<lparr>g_mem := m\<rparr>) = topo g"
  by (simp add: topo_def)

lemma topo_put_buf:
  "cb_source x = cb_source (g_buf g b) \<Longrightarrow> cb_sink x = cb_sink (g_buf g b) \<Longrightarrow> walking x = walking (g_buf g b) \<Longrightarrow>
    topo (upd_buf b (\<lambda>_. x) g) = topo g"
  by (auto simp: topo_def upd_buf_def)

lemmas walker_defs = pipeline_comp_complete_def pipeline_comp_reset_def pipeline_comp_params_neg_def pipeline_comp_params_def
  pipeline_comp_hw_params_def pipeline_comp_hw_params_buf_def pipeline_comp_prepare_def pipeline_comp_copy_def
  pipeline_comp_list_def pipeline_comp_trigger_def pipeline_comp_xrun_def

section \<open>The walks keep the graph\<close>

interpretation complete_walk: topo_walker "pipeline_comp_complete :: 'e pipeline_data walker"
  by unfold_locales (auto simp: walker_defs topo_upd_comp split: if_splits)

interpretation neg_walk: topo_walker "pipeline_comp_params_neg cb :: 'e pipeline_data walker" for cb
  by unfold_locales (auto simp: walker_defs topo_upd_buf split: option.splits comp_state.splits)

interpretation hw_buf_walk: topo_walker "pipeline_comp_hw_params_buf :: 'e pipeline_data walker"
proof unfold_locales
  show "topo (fst (fst (leave pipeline_comp_hw_params_buf c cb dir e s))) = topo (fst s)" for c cb dir e and s :: "'e walk_state"
    using buffer_ends(1-3) [of _ "Some (pd_params (snd s))" False]
    by (auto simp: walker_defs case_prod_unfold Let_def topo_put_buf split: option.splits)
qed (simp_all add: walker_defs)

lemma topo_sched_comp [simp]: "topo (fst (pipeline_comp_trigger_sched_comp p c s)) = topo (fst s)"
  by (simp add: pipeline_comp_trigger_sched_comp_def Let_def)

interpretation list_walk: topo_walker "pipeline_comp_list ipc4 :: 'e pipeline_data walker" for ipc4
  by unfold_locales (auto simp: walker_defs Let_def)

interpretation xrun_walk: topo_walker "pipeline_comp_xrun env bytes cid :: 'e pipeline_data walker" for env bytes cid
  by unfold_locales (auto simp: walker_defs)

lemma reset_walk: "env_keeps env \<Longrightarrow> topo_walker (pipeline_comp_reset ipc4 env)"
  by unfold_locales (auto simp: walker_defs Let_def case_prod_unfold topo_upd_buf in_walk_topo env_keepsD)

lemma hw_walk: "env_keeps env \<Longrightarrow> topo_walker (pipeline_comp_hw_params env)"
  by unfold_locales (auto simp: walker_defs Let_def case_prod_unfold env_keepsD)

lemma task_init_topo [simp]: "topo (fst (fst (pipeline_comp_ll_task_init env p s))) = topo (fst s)"
  by (auto simp: pipeline_comp_ll_task_init_def split: prod.splits)

lemma prepare_walk: "env_keeps env \<Longrightarrow> topo_walker (pipeline_comp_prepare ipc4 env)"
  by unfold_locales (auto simp: walker_defs Let_def case_prod_unfold topo_put_buf in_walk_topo env_keepsD)

lemma copy_walk: "env_keeps env \<Longrightarrow> topo_walker (pipeline_comp_copy env)"
  by unfold_locales (auto simp: walker_defs Let_def case_prod_unfold in_walk_topo env_keepsD)

lemma note_delay_fst [simp]: "fst (note_delay env c s) = fst s"
  by (simp add: note_delay_def)

lemma trigger_walk: "env_keeps env \<Longrightarrow> topo_walker (pipeline_comp_trigger ipc4 env)"
  by unfold_locales (auto simp: walker_defs Let_def case_prod_unfold in_walk_topo env_keepsD)

text \<open>The negotiation visits the neighbours only.\<close>

lemma neg_enter:
  "enter (pipeline_comp_params_neg cb) c (Some b) dir s = (s1, r) \<Longrightarrow> \<exists>e. r = Some e \<and> topo (fst s1) = topo (fst s)" for s :: "'e walk_state"
  using neg_walk.enter_topo [of cb c "Some b" dir s] by (auto simp: walker_defs split: prod.splits comp_state.splits)

lemma params_neg_returns:
  "\<exists>s' e. walk_bufs (pipeline_comp_params_neg cb) (Suc 0) bs dir s = Some (s', e) \<and> topo (fst s') = topo (fst s)" for s :: "'e walk_state"
proof (induction bs arbitrary: s)
  case (Cons b bs)
  let ?w = "pipeline_comp_params_neg cb :: 'e pipeline_data walker"
  consider "skips ?w b s" | "\<not> skips ?w b s" "follows ?w b dir s" | "\<not> skips ?w b s" "\<not> follows ?w b dir s" by blast
  then show ?case
  proof cases
    case 1
    then show ?thesis using Cons.IH by (simp add: walk_bufs_skip)
  next
    case 2
    let ?s2 = "set_walking b True (buff_func ?w b s)"
    have nw: "\<not> walking (g_buf (fst s) b)" using 2 by (simp add: skips_def)
    obtain s3 r where e: "enter ?w (buffer_get_comp (g_buf (fst s) b) dir) (Some b) dir ?s2 = (s3, r)" by (metis surj_pair)
    then obtain err where r: "r = Some err" "topo (fst s3) = topo (fst ?s2)" using neg_enter by blast
    have "walk_comp ?w (Suc 0) (buffer_get_comp (g_buf (fst s) b) dir) (Some b) dir ?s2 = Some (s3, err)"
      using e r by (simp add: walk_comp.simps(2))
    then show ?thesis
      using walk_bufs_call [OF 2] neg_walk.topo_around [OF nw r(2)] Cons.IH [of "set_walking b False s3"]
      by (cases "path_ends err") auto
  next
    case 3
    then show ?thesis using Cons.IH [of "buff_func ?w b s"] neg_walk.buff_topo [of cb b s] by (auto simp: walk_bufs_nocall)
  qed
qed simp

lemma negotiate_topo [simp]: "topo (fst (fst (negotiate c cb dir s))) = topo (fst s)"
  using params_neg_returns [of cb "comp_buffer_list (g_comp (fst s) c) dir" dir s] by (auto simp: negotiate_def)

lemma params_walk: "env_keeps env \<Longrightarrow> topo_walker (pipeline_comp_params env)"
  by unfold_locales (auto simp: walker_defs Let_def case_prod_unfold env_keepsD topo_upd_comp)

section \<open>Every operation returns\<close>

definition gives :: "('a \<Rightarrow> bool) \<Rightarrow> 'a option \<Rightarrow> bool" where
  "gives P r \<longleftrightarrow> (\<exists>x. r = Some x \<and> P x)"

lemma gives_Some [simp]: "gives P (Some x) \<longleftrightarrow> P x"
  by (simp add: gives_def)

lemma gives_map: "gives P r \<Longrightarrow> (\<And>x. P x \<Longrightarrow> Q (f x)) \<Longrightarrow> gives Q (map_option f r)"
  by (auto simp: gives_def)

lemma gives_case: "gives P r \<Longrightarrow> (\<And>x. P x \<Longrightarrow> gives Q (f x)) \<Longrightarrow> gives Q (case r of None \<Rightarrow> None | Some x \<Rightarrow> f x)"
  by (auto simp: gives_def)

text \<open>A depth that no walk over the graph exhausts, and results over a graph with the topology of \<open>g\<close>.\<close>

definition deep_enough :: "nat \<Rightarrow> graph \<Rightarrow> bool" where
  "deep_enough n g \<longleftrightarrow> finite (all_buffers g) \<and> card (all_buffers g) < n"

abbreviation over :: "graph \<Rightarrow> (graph \<times> 'x) \<times> 'r \<Rightarrow> bool" where
  "over g r \<equiv> topo (fst (fst r)) = topo g"

lemma gives_walk:
  assumes "topo_walker w" and "deep_enough n g" and "topo (fst s) = topo g"
  shows "gives (over g) (walk_comp w n c cb dir s)"
proof -
  have "finite (all_buffers (fst s))" "card (idle_buffers (fst s)) < n"
    using assms(2) card_mono [of "all_buffers g" "idle_buffers g"] topo_buffers [OF assms(3)]
    by (auto simp: deep_enough_def idle_buffers_def)
  then show ?thesis using topo_walker.walk_returns [OF assms(1)] assms(3) by (fastforce simp: gives_def)
qed

lemma gives_result: "gives (over g) r \<Longrightarrow> gives (over g) (walk_result r)"
  unfolding walk_result_def by (erule gives_map) (simp add: case_prod_unfold)

lemma complete_returns: "deep_enough n g \<Longrightarrow> topo (fst s) = topo g \<Longrightarrow> gives (over g) (pipeline_complete n p source sink s)"
  unfolding pipeline_complete_def
  by (auto intro!: gives_map [OF gives_result [OF gives_walk [OF complete_walk.topo_walker_axioms]]])

lemma reset_returns: "env_keeps env \<Longrightarrow> deep_enough n g \<Longrightarrow> topo (fst s) = topo g \<Longrightarrow> gives (over g) (pipeline_reset ipc4 env n p host s)"
  unfolding pipeline_reset_def by (rule gives_map [OF gives_result [OF gives_walk [OF reset_walk]]]) (auto split: prod.splits)

lemma prepare_returns: "env_keeps env \<Longrightarrow> deep_enough n g \<Longrightarrow> topo (fst s) = topo g \<Longrightarrow> gives (over g) (pipeline_prepare ipc4 env n p dev s)"
  unfolding pipeline_prepare_def by (rule gives_map [OF gives_result [OF gives_walk [OF prepare_walk]]]) (auto split: prod.splits)

lemma copy_returns: "env_keeps env \<Longrightarrow> deep_enough n g \<Longrightarrow> topo (fst s) = topo g \<Longrightarrow> gives (over g) (pipeline_copy env n p s)"
  unfolding pipeline_copy_def Let_def by (rule gives_result [OF gives_walk [OF copy_walk]]) auto

lemma params_returns:
  assumes "env_keeps env" and "deep_enough n g" and "topo (fst s) = topo g"
  shows "gives (over g) (pipeline_params env n hw0 p host params s)"
  unfolding pipeline_params_def Let_def
  by (rule gives_case [OF gives_walk [OF hw_walk [OF assms(1)] assms(2)]])
    (auto simp: assms(3) case_prod_unfold intro!: gives_case [OF gives_walk [OF hw_buf_walk.topo_walker_axioms assms(2)]]
      gives_map [OF gives_walk [OF params_walk [OF assms(1)] assms(2)]])

lemma trigger_one_topo: "topo (fst (fst (trigger_one env cmd p st))) = topo (fst (fst st))"
  by (auto simp: trigger_one_def hand_over_def Let_def split: prod.splits)

lemma schedule_triggered_topo [simp]: "topo (fst (pipeline_schedule_triggered env cmd s)) = topo (fst s)"
proof -
  have "topo (fst (fst (fold (trigger_one env cmd) ps st))) = topo (fst (fst st))" for ps st
    by (induction ps arbitrary: st) (simp_all add: trigger_one_topo)
  then show ?thesis by (simp add: pipeline_schedule_triggered_def)
qed

lemma link_sched_topo: "topo (fst (fold link_sched ps st)) = topo (fst st)"
  by (induction ps arbitrary: st) (auto simp: link_sched_def split: prod.splits option.splits)

lemma list_returns: "deep_enough n g \<Longrightarrow> topo (fst s) = topo g \<Longrightarrow> gives (over g) (pipeline_trigger_list ipc4 env n p host cmd s)"
  unfolding pipeline_trigger_list_def
  by (rule gives_map [OF gives_walk [OF list_walk.topo_walker_axioms]]) (auto simp: Let_def link_sched_topo split: prod.splits)

lemma recover_returns: "env_keeps env \<Longrightarrow> deep_enough n g \<Longrightarrow> topo (fst s) = topo g \<Longrightarrow> gives (over g) (pipeline_xrun_recover ipc4 env n p s)"
  unfolding pipeline_xrun_recover_def by (rule gives_map [OF reset_returns]) (auto split: prod.splits)

lemma handle_trigger_returns:
  "env_keeps env \<Longrightarrow> deep_enough n g \<Longrightarrow> topo (fst s) = topo g \<Longrightarrow> gives (over g) (pipeline_xrun_handle_trigger ipc4 env n p cmd s)"
  unfolding pipeline_xrun_handle_trigger_def by (auto intro!: gives_map [OF prepare_returns] split: prod.splits)

lemma trigger_walks_returns:
  assumes "env_keeps env" and "deep_enough n g" and "topo (fst s) = topo g" and "0 < ppl_period (g_ppl g p)"
  shows "gives (over g) (trigger_walks ipc4 env n p host cmd s)"
proof -
  have period: "ppl_period (g_ppl g' p) \<noteq> 0" if "topo g' = topo g" for g' using topo_eqD(4) [OF that, of p] assms(4) by simp
  show ?thesis
    unfolding trigger_walks_def
    by (rule gives_case [OF gives_walk [OF trigger_walk [OF assms(1)] assms(2)]])
      (auto simp: assms(3) case_prod_unfold Let_def dest: period intro!: gives_map [OF gives_walk [OF trigger_walk [OF assms(1)] assms(2)]])
qed

lemma run_returns:
  assumes "env_keeps env" and "deep_enough n g" and "topo (fst s) = topo g" and "0 < ppl_period (g_ppl g p)"
  shows "gives (over g) (pipeline_trigger_run ipc4 env n p host cmd s)"
  unfolding pipeline_trigger_run_def Let_def
  using assms by (auto simp: case_prod_unfold intro!: gives_case [OF handle_trigger_returns] trigger_walks_returns)

lemma trigger_returns:
  assumes "env_keeps env" and "deep_enough n g" and "topo (fst s) = topo g" and "0 < ppl_period (g_ppl g p)"
    and "cmd = COMP_TRIGGER_XRUN \<Longrightarrow> pipeline_trigger_xrun (upd_ppl p (\<lambda>x. x\<lparr>trig_aborted := False\<rparr>) (fst s)) host \<noteq> None"
  shows "gives (over g) (pipeline_trigger ipc4 env n p host cmd s)"
proof -
  have l: "gives (over g) (map_option (\<lambda>(s2, ret). (s2, if ret < 0 then ret else PPL_STATUS_SCHEDULED))
      (pipeline_trigger_list ipc4 env n p h cmd (upd_ppl p (\<lambda>x. x\<lparr>trig_aborted := False\<rparr>) (fst s), snd s)))" for h
    using assms by (intro gives_map [OF list_returns]) auto
  show ?thesis
    unfolding pipeline_trigger_def Let_def
    using assms l by (auto intro!: gives_map [OF run_returns])
qed

lemma task_cmd_period [simp]:
  "ppl_period (task_cmd_status cmd x) = ppl_period x" "ppl_period (fst (task_cmd_no_host x)) = ppl_period x"
  by (simp_all add: task_cmd_status_def task_cmd_no_host_def Let_def)

lemma task_cmd_returns:
  assumes "env_keeps env" and "deep_enough n g" and "topo (fst s) = topo g" and "0 < ppl_period (g_ppl g p)"
  shows "gives (over g) (pipeline_task_cmd ipc4 env n p s)"
  unfolding pipeline_task_cmd_def Let_def
  using assms by (auto simp: case_prod_unfold task_reply_def intro!: gives_case [OF run_returns] gives_map [OF reset_returns])

lemma task_copy_returns:
  assumes "env_keeps env" and "deep_enough n g" and "topo (fst s) = topo g"
  shows "gives (over g) (task_copy ipc4 env n p s)"
  unfolding task_copy_def
  using assms by (auto simp: case_prod_unfold intro!: gives_case [OF copy_returns] gives_map [OF recover_returns])

lemma task_returns:
  assumes "env_keeps env" and "deep_enough n g" and "topo (fst s) = topo g" and "0 < ppl_period (g_ppl g p)"
  shows "gives (over g) (pipeline_task ipc4 env n p s)"
proof -
  have body: "gives (over g) (task_body ipc4 env n p t)" if "topo (fst t) = topo g" for t
    unfolding task_body_def
    using assms that by (auto simp: case_prod_unfold intro!: gives_case [OF task_cmd_returns] task_copy_returns)
  show ?thesis
    unfolding pipeline_task_def Let_def
    using assms by (auto simp: case_prod_unfold intro!: gives_case [OF recover_returns] body)
qed

section \<open>What completion reaches\<close>

text \<open>The components of the pipeline of \<open>src\<close> that it feeds, through components of the same pipeline.\<close>

definition ppl_member :: "graph \<Rightarrow> nat \<Rightarrow> nat \<Rightarrow> bool" where
  "ppl_member g src c \<longleftrightarrow> dev_pipeline_id (g_comp g c) = dev_pipeline_id (g_comp g src)"

definition fed_by :: "graph \<Rightarrow> nat \<Rightarrow> nat \<Rightarrow> bool" where
  "fed_by g src c \<longleftrightarrow> (\<exists>bs. ppl_path g (ppl_member g src) PPL_DIR_DOWNSTREAM src bs c)"

definition entered :: "graph \<Rightarrow> nat \<Rightarrow> nat \<Rightarrow> bool" where
  "entered g src c \<longleftrightarrow> c = src \<or> (\<exists>d b. fed_by g src d \<and> b \<in> set (comp_buffer_list (g_comp g d) PPL_DIR_DOWNSTREAM) \<and>
     c \<noteq> 0 \<and> buffer_get_comp (g_buf g b) PPL_DIR_DOWNSTREAM = c)"

definition completing :: "graph \<Rightarrow> 'e pipeline_data \<Rightarrow> nat \<Rightarrow> 'e walk_state \<Rightarrow> bool" where
  "completing g0 d0 src s \<longleftrightarrow> snd s = d0 \<and> pd_start d0 = src \<and> g_ppl (fst s) = g_ppl g0 \<and> g_mem (fst s) = g_mem g0 \<and>
     (\<forall>b. (g_buf (fst s) b)\<lparr>walking := False\<rparr> = (g_buf g0 b)\<lparr>walking := False\<rparr>) \<and>
     (\<forall>c. g_comp (fst s) c = g_comp g0 c \<or> fed_by g0 src c \<and> g_comp (fst s) c = complete_comp (g_ppl g0 (pd_p d0)) (pd_p d0) (g_comp g0 c))"

lemma complete_comp_twice [simp]: "complete_comp ppl p (complete_comp ppl p dev) = complete_comp ppl p dev"
  by (simp add: complete_comp_def Let_def)

lemma complete_comp_id [simp]: "dev_pipeline_id (complete_comp ppl p dev) = dev_pipeline_id dev"
  by (simp add: complete_comp_def Let_def)

lemma path_snoc:
  assumes "ppl_path g M dir c bs d" and "b \<in> set (comp_buffer_list (g_comp g d) dir)"
    and "buffer_get_comp (g_buf g b) dir = x" and "x \<noteq> 0" and "M x"
  shows "ppl_path g M dir c (bs @ [b]) x"
proof -
  have "M d" using assms(1) by (induction bs arbitrary: c) auto
  then show ?thesis using assms by (auto simp: ppl_path_append)
qed

lemma entered_member: "entered g src c \<Longrightarrow> ppl_member g src c \<Longrightarrow> fed_by g src c"
  unfolding entered_def fed_by_def using path_snoc by (fastforce intro: exI [of _ "[]"] simp: ppl_member_def)

lemma completing_id: "completing g0 d0 src s \<Longrightarrow> dev_pipeline_id (g_comp (fst s) c) = dev_pipeline_id (g_comp g0 c)"
  unfolding completing_def by (metis complete_comp_id)

lemma completing_single: "completing g0 d0 src s \<Longrightarrow> single_ppl (fst s) c src = ppl_member g0 src c"
  by (simp add: single_ppl_def comp_is_single_pipeline_def ppl_member_def completing_id)

lemma completing_lists: "completing g0 d0 src s \<Longrightarrow> comp_buffer_list (g_comp (fst s) c) dir = comp_buffer_list (g_comp g0 c) dir"
  unfolding completing_def comp_buffer_list_def by (metis complete_comp_lists)

lemma buffer_get_comp_walking: "buffer_get_comp (b\<lparr>walking := v\<rparr>) dir = buffer_get_comp b dir"
  by (simp add: buffer_get_comp_def)

lemma completing_ends: "completing g0 d0 src s \<Longrightarrow> buffer_get_comp (g_buf (fst s) b) dir = buffer_get_comp (g_buf g0 b) dir"
  unfolding completing_def by (metis buffer_get_comp_walking)

lemma completing_step:
  assumes "completing g0 d0 src s" and "fed_by g0 src c"
  shows "completing g0 d0 src (upd_comp c (complete_comp (g_ppl (fst s) (pd_p d0)) (pd_p d0)) (fst s), snd s)"
    and "g_comp (upd_comp c (complete_comp (g_ppl (fst s) (pd_p d0)) (pd_p d0)) (fst s)) c = complete_comp (g_ppl g0 (pd_p d0)) (pd_p d0) (g_comp g0 c)"
proof -
  have "complete_comp (g_ppl g0 (pd_p d0)) (pd_p d0) (g_comp (fst s) c) = complete_comp (g_ppl g0 (pd_p d0)) (pd_p d0) (g_comp g0 c)"
    using assms(1) unfolding completing_def by (metis complete_comp_twice)
  then show "completing g0 d0 src (upd_comp c (complete_comp (g_ppl (fst s) (pd_p d0)) (pd_p d0)) (fst s), snd s)"
    "g_comp (upd_comp c (complete_comp (g_ppl (fst s) (pd_p d0)) (pd_p d0)) (fst s)) c = complete_comp (g_ppl g0 (pd_p d0)) (pd_p d0) (g_comp g0 c)"
    using assms by (auto simp: completing_def upd_comp_def)
qed

text \<open>A component counts as done when it is completed.\<close>

definition is_completed :: "graph \<Rightarrow> nat \<Rightarrow> 'e walk_state \<Rightarrow> nat \<Rightarrow> bool" where
  "is_completed g0 p s c \<longleftrightarrow> g_comp (fst s) c = complete_comp (g_ppl g0 p) p (g_comp g0 c)"

interpretation complete_visit: visiting_walker "pipeline_comp_complete :: 'e pipeline_data walker" "completing g0 d0 src"
  "ppl_member g0 src" "is_completed g0 (pd_p d0)" PPL_DIR_DOWNSTREAM "entered g0 src" for g0 d0 src
proof unfold_locales
  fix s :: "'e walk_state" and c cb
  assume i: "completing g0 d0 src s" and r: "entered g0 src c"
  have sd: "snd s = d0" "pd_start d0 = src" using i by (auto simp: completing_def)
  show "\<exists>s'. enter pipeline_comp_complete c cb PPL_DIR_DOWNSTREAM s = (s', None) \<and> completing g0 d0 src s' \<and>
      (\<forall>x. is_completed g0 (pd_p d0) s x \<longrightarrow> is_completed g0 (pd_p d0) s' x) \<and> is_completed g0 (pd_p d0) s' c" if "ppl_member g0 src c"
    using completing_step [OF i entered_member [OF r that]] completing_single [OF i, of c] that sd
    by (auto simp: walker_defs is_completed_def case_prod_unfold upd_comp_def)
  show "\<exists>s'. enter pipeline_comp_complete c cb PPL_DIR_DOWNSTREAM s = (s', Some 0) \<and> completing g0 d0 src s' \<and>
      (\<forall>x. is_completed g0 (pd_p d0) s x \<longrightarrow> is_completed g0 (pd_p d0) s' x)" if "\<not> ppl_member g0 src c"
    using completing_single [OF i, of c] that sd i by (auto simp: walker_defs case_prod_unfold)
  show "entered g0 src (buffer_get_comp (g_buf (fst s) b) PPL_DIR_DOWNSTREAM)"
    if "ppl_member g0 src c" "b \<in> set (comp_buffer_list (g_comp (fst s) c) PPL_DIR_DOWNSTREAM)"
      "buffer_get_comp (g_buf (fst s) b) PPL_DIR_DOWNSTREAM \<noteq> 0" for b
    using entered_member [OF r that(1)] that(2,3) completing_lists [OF i] completing_ends [OF i] by (auto simp: entered_def)
qed (auto simp: walker_defs completing_def is_completed_def set_walking_def upd_buf_def fun_eq_iff)

lemma complete_walk_result:
  assumes "deep_enough n g" and "\<And>b. \<not> walking (g_buf g b)" and "pd_start d = source"
  shows "walk_comp pipeline_comp_complete n source None PPL_DIR_DOWNSTREAM (g, d) =
    Some ((g\<lparr>g_comp := (\<lambda>c. if fed_by g source c then complete_comp (g_ppl g (pd_p d)) (pd_p d) (g_comp g c) else g_comp g c)\<rparr>, d), 0)"
proof -
  have i: "completing g d source (g, d)" using assms(3) by (simp add: completing_def)
  obtain s' where s': "walk_comp pipeline_comp_complete n source None PPL_DIR_DOWNSTREAM (g, d) = Some (s', 0)" "topo (fst s') = topo g"
      "completing g d source s'" "\<forall>bs x. ppl_path g (ppl_member g source) PPL_DIR_DOWNSTREAM source bs x \<longrightarrow> is_completed g (pd_p d) s' x"
    using complete_visit.walk_reaches [of "(g, d)" n g d source source None] assms(1,2) i
    by (auto simp: deep_enough_def entered_def walker_defs)
  have comps: "g_comp (fst s') c = (if fed_by g source c then complete_comp (g_ppl g (pd_p d)) (pd_p d) (g_comp g c) else g_comp g c)" for c
    using s'(3,4) unfolding completing_def is_completed_def fed_by_def by metis
  have "g_buf (fst s') b = (g_buf g b)" for b
  proof -
    have "(g_buf (fst s') b)\<lparr>walking := False\<rparr> = (g_buf g b)\<lparr>walking := False\<rparr>" using s'(3) by (simp add: completing_def)
    moreover have "walking (g_buf (fst s') b) = walking (g_buf g b)" by (rule topo_eqD(3) [OF s'(2)])
    ultimately show ?thesis by (cases "g_buf (fst s') b", cases "g_buf g b") simp
  qed
  then have "fst s' = g\<lparr>g_comp := (\<lambda>c. if fed_by g source c then complete_comp (g_ppl g (pd_p d)) (pd_p d) (g_comp g c) else g_comp g c)\<rparr>"
    using comps s'(3) by (cases "fst s'", cases g) (auto simp: completing_def fun_eq_iff)
  moreover have "snd s' = d" using s'(3) by (simp add: completing_def)
  ultimately show ?thesis using s'(1) by (metis prod.collapse)
qed

section \<open>The order of copying\<close>

text \<open>The components copied in a row, up to the first that fails or stops the path, and the result of the last.\<close>

fun copy_run :: "(nat \<Rightarrow> int) \<Rightarrow> nat list \<Rightarrow> nat list \<times> int" where
  "copy_run r [] = ([], 0)"
| "copy_run r (c # cs) = (if path_ends (r c) then ([c], r c) else let (xs, e) = copy_run r cs in (c # xs, e))"

lemma copy_run_snoc:
  "copy_run r (xs @ [c]) = (let (ys, e) = copy_run r xs in if path_ends e then (ys, e) else (ys @ [c], if path_ends (r c) then r c else 0))"
  by (induction xs) (auto simp: Let_def path_ends_def PPL_STATUS_PATH_STOP_def split: prod.splits)

text \<open>A row of components, each with one buffer to the next, with the buffers passed.\<close>

fun row :: "graph \<Rightarrow> nat \<Rightarrow> nat \<Rightarrow> (nat \<times> nat) list \<Rightarrow> bool" where
  "row g dir c [] \<longleftrightarrow> comp_buffer_list (g_comp g c) dir = []"
| "row g dir c ((b, d) # rest) \<longleftrightarrow> comp_buffer_list (g_comp g c) dir = [b] \<and> \<not> walking (g_buf g b) \<and>
     buffer_get_comp (g_buf g b) dir = d \<and> d \<noteq> 0 \<and> row g dir d rest"

definition streaming :: "graph \<Rightarrow> nat \<Rightarrow> nat \<Rightarrow> bool" where
  "streaming g start c \<longleftrightarrow> single_ppl g c start \<and> comp_is_active (g_comp g c) \<and> dev_pipeline (g_comp g c) \<noteq> None"

text \<open>
  A driver whose copy of component \<open>c\<close> returns \<open>r c\<close> and leaves the states and the wiring alone; \<open>tr\<close> is a record of
  the copies made.
\<close>

definition copy_driver :: "'e ppl_env \<Rightarrow> (nat \<Rightarrow> int) \<Rightarrow> ('e \<Rightarrow> nat list) \<Rightarrow> bool" where
  "copy_driver env r tr \<longleftrightarrow> (\<forall>c g e. \<exists>g' e'. comp_copy env c (g, e) = ((g', e'), r c) \<and> (r c = 0 \<or> path_ends (r c)) \<and> topo g' = topo g \<and>
     (\<forall>start d. streaming g start d \<longrightarrow> streaming g' start d) \<and> tr e' = tr e @ [c])"

lemma copy_driver_walk:
  assumes "copy_driver env r tr"
  obtains g' e' where "in_walk (comp_copy env c) s = ((g', (snd s)\<lparr>pd_env := e'\<rparr>), r c)" "topo g' = topo (fst s)"
    "\<And>start d. streaming (fst s) start d \<Longrightarrow> streaming g' start d" "tr e' = tr (pd_env (snd s)) @ [c]"
proof -
  obtain g' e' where "comp_copy env c (fst s, pd_env (snd s)) = ((g', e'), r c)" "topo g' = topo (fst s)"
    "\<forall>start d. streaming (fst s) start d \<longrightarrow> streaming g' start d" "tr e' = tr (pd_env (snd s)) @ [c]"
    using assms unfolding copy_driver_def by meson
  then show thesis using that [of g' e'] by (simp add: in_walk_def)
qed

lemma row_topo:
  assumes "topo g = topo g'"
  shows "row g dir c rest = row g' dir c rest"
  by (induction rest arbitrary: c) (auto simp: topo_eqD [OF assms])

lemma row_walking: "b \<notin> fst ` set rest \<Longrightarrow> row (fst (set_walking b v s)) dir c rest = row (fst s) dir c rest"
  by (induction rest arbitrary: c) auto

lemma streaming_walking [simp]: "streaming (fst (set_walking b v s)) start c = streaming (fst s) start c"
  by (simp add: streaming_def set_walking_def upd_buf_def single_ppl_def)

lemma set_walking_snd [simp]: "snd (set_walking b v s) = snd s"
  by (simp add: set_walking_def)

abbreviation logged :: "'e walk_state \<Rightarrow> ('e \<Rightarrow> nat list) \<Rightarrow> nat list" where
  "logged s tr \<equiv> tr (pd_env (snd s))"

lemma copy_run_result: "(\<And>c. r c = 0 \<or> path_ends (r c)) \<Longrightarrow> snd (copy_run r cs) = 0 \<or> path_ends (snd (copy_run r cs))"
  by (induction cs) (auto simp: Let_def split: prod.splits)

lemma single_buffer_walk:
  assumes "\<not> walking (g_buf (fst s) b)" and "buffer_get_comp (g_buf (fst s) b) dir = d" and "d \<noteq> 0" and "streaming (fst s) st d"
    and "walk_comp (pipeline_comp_copy env) n d (Some b) dir (set_walking b True s) = Some (s3, e)"
  shows "walk_bufs (pipeline_comp_copy env) n [b] dir s = Some (set_walking b False s3, if path_ends e then e else 0)"
proof -
  let ?w = "pipeline_comp_copy env"
  have "\<not> skips ?w b s" "follows ?w b dir s" "buff_func ?w b s = s"
    using assms by (auto simp: skips_def follows_def walker_defs streaming_def)
  then show ?thesis using walk_bufs_call [of ?w b s dir n s3 e "[]"] assms(2,5) by simp
qed

lemma row_after:
  assumes "row g dir c ((b, d) # rest)" and "topo g' = topo g"
  shows "comp_buffer_list (g_comp g' c) dir = [b]" "\<not> walking (g_buf g' b)" "buffer_get_comp (g_buf g' b) dir = d" "d \<noteq> 0" "row g' dir d rest"
  using assms topo_eqD [OF assms(2)] row_topo [OF assms(2)] by auto

lemma copy_leave:
  "leave (pipeline_comp_copy env) c cb PPL_DIR_DOWNSTREAM e s = (s, e)"
  "leave (pipeline_comp_copy env) c cb PPL_DIR_UPSTREAM e s = (if path_ends e then (s, e) else in_walk (comp_copy env c) s)"
  by (simp_all add: walker_defs PPL_DIR_DOWNSTREAM_def PPL_DIR_UPSTREAM_def)

lemma row_copy_down:
  assumes drv: "copy_driver env r tr"
  shows "row (fst s) PPL_DIR_DOWNSTREAM c rest \<Longrightarrow> distinct (map fst rest) \<Longrightarrow>
    \<forall>d\<in>set (c # map snd rest). streaming (fst s) (pd_start (snd s)) d \<Longrightarrow> length rest < n \<Longrightarrow>
    \<exists>s'. walk_comp (pipeline_comp_copy env) n c cb PPL_DIR_DOWNSTREAM s = Some (s', snd (copy_run r (c # map snd rest))) \<and>
      logged s' tr = logged s tr @ fst (copy_run r (c # map snd rest))"
proof (induction rest arbitrary: c cb s n)
  case Nil
  obtain m where m: "n = Suc m" using Nil.prems(4) by (cases n) auto
  obtain g' e' where k: "in_walk (comp_copy env c) s = ((g', (snd s)\<lparr>pd_env := e'\<rparr>), r c)" "topo g' = topo (fst s)" "tr e' = logged s tr @ [c]"
    using copy_driver_walk [OF drv] by metis
  have "r c = 0 \<or> path_ends (r c)" using drv unfolding copy_driver_def by meson
  then show ?case
    using Nil.prems k topo_eqD(1) [OF k(2)] m
    by (auto simp: walk_comp.simps(2) walker_defs streaming_def PPL_DIR_DOWNSTREAM_def PPL_DIR_UPSTREAM_def)
next
  case (Cons bd rest)
  obtain b d where bd: "bd = (b, d)" by (cases bd)
  obtain m where m: "n = Suc m" using Cons.prems(4) by (cases n) auto
  obtain g' e' where k: "in_walk (comp_copy env c) s = ((g', (snd s)\<lparr>pd_env := e'\<rparr>), r c)" "topo g' = topo (fst s)"
      "\<And>start d. streaming (fst s) start d \<Longrightarrow> streaming g' start d" "tr e' = logged s tr @ [c]"
    using copy_driver_walk [OF drv] by metis
  define s1 where "s1 = (g', (snd s)\<lparr>pd_env := e'\<rparr>)"
  note row' = row_after [OF Cons.prems(1) [unfolded bd] k(2)]
  have enter: "enter (pipeline_comp_copy env) c cb PPL_DIR_DOWNSTREAM s = (s1, if path_ends (r c) then Some (r c) else None)"
    using Cons.prems(3) k(1) by (simp add: walker_defs streaming_def s1_def PPL_DIR_DOWNSTREAM_def)
  show ?case
  proof (cases "path_ends (r c)")
    case True
    then show ?thesis using enter k(4) m by (simp add: walk_comp.simps(2) s1_def)
  next
    case False
    let ?s2 = "set_walking b True s1" and ?cs = "copy_run r (d # map snd rest)"
    have "row (fst ?s2) PPL_DIR_DOWNSTREAM d rest"
      using row'(5) row_walking [of b rest True s1] Cons.prems(2) bd by (simp add: s1_def image_iff)
    moreover have "\<forall>x\<in>set (d # map snd rest). streaming (fst ?s2) (pd_start (snd ?s2)) x"
      using Cons.prems(3) k(3) bd by (simp add: s1_def)
    ultimately obtain s3 where s3: "walk_comp (pipeline_comp_copy env) m d (Some b) PPL_DIR_DOWNSTREAM ?s2 = Some (s3, snd ?cs)"
        "logged s3 tr = logged ?s2 tr @ fst ?cs"
      using Cons.IH [of ?s2 d m "Some b"] Cons.prems(2,4) bd m by auto
    have "walk_bufs (pipeline_comp_copy env) m [b] PPL_DIR_DOWNSTREAM s1 = Some (set_walking b False s3, if path_ends (snd ?cs) then snd ?cs else 0)"
      using row'(2-4) s3(1) Cons.prems(3) k(3) bd by (intro single_buffer_walk [where d = d and st = "pd_start (snd s)"]) (auto simp: s1_def)
    moreover have "snd ?cs = 0 \<or> path_ends (snd ?cs)" using copy_run_result drv unfolding copy_driver_def by meson
    ultimately have "walk_comp (pipeline_comp_copy env) n c cb PPL_DIR_DOWNSTREAM s = Some (set_walking b False s3, snd ?cs)"
      using enter False row'(1) m by (auto simp: walk_comp.simps(2) copy_leave s1_def)
    moreover have "copy_run r (c # map snd (bd # rest)) = (c # fst ?cs, snd ?cs)" using False bd by (simp add: case_prod_unfold Let_def)
    ultimately show ?thesis using s3(2) k(4) by (simp add: s1_def)
  qed
qed

lemma row_copy_up:
  assumes drv: "copy_driver env r tr"
  shows "row (fst s) PPL_DIR_UPSTREAM c rest \<Longrightarrow> distinct (map fst rest) \<Longrightarrow>
    \<forall>d\<in>set (c # map snd rest). streaming (fst s) (pd_start (snd s)) d \<Longrightarrow> length rest < n \<Longrightarrow>
    \<exists>s'. walk_comp (pipeline_comp_copy env) n c cb PPL_DIR_UPSTREAM s = Some (s', snd (copy_run r (rev (c # map snd rest)))) \<and>
      logged s' tr = logged s tr @ fst (copy_run r (rev (c # map snd rest)))"
proof (induction rest arbitrary: c cb s n)
  case Nil
  obtain m where m: "n = Suc m" using Nil.prems(4) by (cases n) auto
  obtain g' e' where k: "in_walk (comp_copy env c) s = ((g', (snd s)\<lparr>pd_env := e'\<rparr>), r c)" "tr e' = logged s tr @ [c]"
    using copy_driver_walk [OF drv] by metis
  have "r c = 0 \<or> path_ends (r c)" using drv unfolding copy_driver_def by meson
  moreover have "enter (pipeline_comp_copy env) c cb PPL_DIR_UPSTREAM s = (s, None)"
    using Nil.prems(3) by (simp add: walker_defs streaming_def PPL_DIR_DOWNSTREAM_def PPL_DIR_UPSTREAM_def)
  ultimately show ?case
    using Nil.prems k m by (auto simp: walk_comp.simps(2) copy_leave path_ends_def PPL_STATUS_PATH_STOP_def)
next
  case (Cons bd rest)
  obtain b d where bd: "bd = (b, d)" by (cases bd)
  obtain m where m: "n = Suc m" using Cons.prems(4) by (cases n) auto
  note row' = row_after [OF Cons.prems(1) [unfolded bd] refl]
  have enter: "enter (pipeline_comp_copy env) c cb PPL_DIR_UPSTREAM s = (s, None)"
    using Cons.prems(3) by (simp add: walker_defs streaming_def PPL_DIR_DOWNSTREAM_def PPL_DIR_UPSTREAM_def)
  let ?s2 = "set_walking b True s" and ?cs = "copy_run r (rev (d # map snd rest))"
  have "row (fst ?s2) PPL_DIR_UPSTREAM d rest" using row'(5) row_walking [of b rest True s] Cons.prems(2) bd by (simp add: image_iff)
  moreover have "\<forall>x\<in>set (d # map snd rest). streaming (fst ?s2) (pd_start (snd ?s2)) x" using Cons.prems(3) bd by simp
  ultimately obtain s3 where s3: "walk_comp (pipeline_comp_copy env) m d (Some b) PPL_DIR_UPSTREAM ?s2 = Some (s3, snd ?cs)"
      "logged s3 tr = logged s tr @ fst ?cs"
    using Cons.IH [of ?s2 d m "Some b"] Cons.prems(2,4) bd m by auto
  have z: "snd ?cs = 0 \<or> path_ends (snd ?cs)" using copy_run_result drv unfolding copy_driver_def by meson
  have "walk_bufs (pipeline_comp_copy env) m [b] PPL_DIR_UPSTREAM s = Some (set_walking b False s3, if path_ends (snd ?cs) then snd ?cs else 0)"
    using row'(2-4) s3(1) Cons.prems(3) bd by (intro single_buffer_walk [where d = d and st = "pd_start (snd s)"]) auto
  then have w: "walk_comp (pipeline_comp_copy env) n c cb PPL_DIR_UPSTREAM s =
      Some (leave (pipeline_comp_copy env) c cb PPL_DIR_UPSTREAM (snd ?cs) (set_walking b False s3))"
    using enter row'(1) m z by (auto simp: walk_comp.simps(2))
  have cs: "copy_run r (rev (c # map snd (bd # rest))) =
      (if path_ends (snd ?cs) then ?cs else (fst ?cs @ [c], if path_ends (r c) then r c else 0))"
    using copy_run_snoc [of r "rev (d # map snd rest)" c] bd by (simp add: case_prod_unfold)
  obtain g' e' where k: "in_walk (comp_copy env c) (set_walking b False s3) = ((g', (snd s3)\<lparr>pd_env := e'\<rparr>), r c)" "tr e' = logged s3 tr @ [c]"
    using copy_driver_walk [OF drv, of c "set_walking b False s3"] by (metis set_walking_snd)
  have "r c = 0 \<or> path_ends (r c)" using drv unfolding copy_driver_def by meson
  then show ?case using w cs k s3(2) by (auto simp: copy_leave simp del: split_paired_Ex)
qed

end
