(* ===== verification/Pipeline_Claims.thy ===== *)
theory Pipeline_Claims
  imports Pipeline_Props
begin

text \<open>The claims about pipelines, and the small graph that the witnesses use.\<close>

section \<open>A small graph\<close>

text \<open>A host, a component and a DAI in pipeline 7, connected by the buffers 10 and 11.\<close>

definition wire_dev :: "nat \<Rightarrow> comp_type \<Rightarrow> nat list \<Rightarrow> nat list \<Rightarrow> comp_dev" where
  "wire_dev k ty srcs snks = (demo_dev k)\<lparr>dev_type := ty, dev_pipeline := Some 7, bsource_list := srcs, bsink_list := snks\<rparr>"

definition idle_dev :: comp_dev where
  "idle_dev = (demo_dev 0)\<lparr>dev_pipeline_id := 9\<rparr>"

definition demo_ppl :: "comp_state \<Rightarrow> pipeline" where
  "demo_ppl st = zero_pipeline\<lparr>ppl_pipeline_id := 1, ppl_period := 1000, ppl_status := st, pipe_task := Some 50, sched_comp := 3, source_comp := 1,
     sink_comp := 3, time_domain_timer := True, trig_cmd := COMP_TRIGGER_NO_ACTION\<rparr>"

definition demo_graph :: "comp_state \<Rightarrow> graph" where
  "demo_graph st =
     \<lparr>g_comp = (\<lambda>_. idle_dev)(1 := wire_dev 1 SOF_COMP_HOST [] [10], 2 := wire_dev 2 (SOF_COMP_OTHER 5) [10] [11], 3 := wire_dev 3 SOF_COMP_DAI [11] []),
      g_buf = (\<lambda>_. zero_buffer)(10 := zero_buffer\<lparr>cb_source := 1, cb_sink := 2\<rparr>, 11 := zero_buffer\<lparr>cb_source := 2, cb_sink := 3\<rparr>),
      g_ppl = (\<lambda>_. demo_ppl st), g_mem = (\<lambda>_. 0)\<rparr>"

text \<open>Drivers that do nothing but record the copies.\<close>

definition demo_env :: "nat list ppl_env" where
  "demo_env = \<lparr>comp_trigger = (\<lambda>c cmd s. (s, 0)), comp_reset = (\<lambda>c s. (s, 0)), comp_prepare = (\<lambda>c s. (s, 0)),
     comp_copy = (\<lambda>c s. ((fst s, snd s @ [c]), 0)), comp_params = (\<lambda>c ps s. ((s, ps), 0)),
     comp_dai_get_hw_params = (\<lambda>c dir ps s. ((s, ps), 0)), dai_get_init_delay_ms = (\<lambda>c. 0), task_init_ll = (\<lambda>p t e. (e, Some 50)),
     task_active = (\<lambda>t e. False), schedule_task = (\<lambda>t s p e. e), schedule_task_before = (\<lambda>t s p r e. e),
     schedule_task_after = (\<lambda>t s p r e. e), schedule_task_free = (\<lambda>t e. e), schedule_task_cancel = (\<lambda>t e. e),
     sa_set_panic_on_delay = (\<lambda>b e. e), ipc_msg_reply = (\<lambda>r e. e), xrun_report = (\<lambda>ofs c b i e. e), k_msleep = (\<lambda>ms e. e)\<rparr>"

lemmas demo_defs = demo_graph_def wire_dev_def idle_dev_def demo_dev_def demo_ppl_def zero_pipeline_def zero_buffer_def

lemma demo_buffers: "all_buffers (demo_graph st) = {10, 11}"
  by (auto simp: all_buffers_def demo_defs split: if_splits)

lemma demo_deep: "deep_enough 3 (demo_graph st)"
  by (simp add: deep_enough_def demo_buffers)

lemma demo_env_keeps: "env_keeps demo_env"
  by (simp add: env_keeps_def demo_env_def)

section \<open>Claims\<close>



text \<open>
  (C3) Completing a new pipeline binds exactly the components that its source feeds through
  components of the same pipeline: they get the pipeline, its priority and, for low latency components, its period. All other components and all
  buffers stay as they were, and the pipeline becomes ready. A pipeline that is not new is refused.
\<close>

theorem pipeline_complete_reaches:
  assumes "deep_enough n g" and "\<And>b. \<not> walking (g_buf g b)"
  shows "pipeline_complete n p source sink (g, e) =
    (if ppl_status (g_ppl g p) \<noteq> COMP_STATE_INIT then Some ((g, e), - EINVAL)
     else Some ((g\<lparr>g_comp := (\<lambda>c. if fed_by g source c then complete_comp (g_ppl g p) p (g_comp g c) else g_comp g c),
                    g_ppl := (g_ppl g)(p := (g_ppl g p)\<lparr>source_comp := source, sink_comp := sink, ppl_status := COMP_STATE_READY\<rparr>)\<rparr>, e), 0))"
  using complete_walk_result [OF assms, of "walk_data e p source COMP_TRIGGER_NO_ACTION zero_ipc_params" source, unfolded walk_data_sel]
  by (simp add: pipeline_complete_def walk_result_def upd_ppl_def)

theorem pipeline_complete_reaches_witness:
  "let g = demo_graph COMP_STATE_INIT in
   pipeline_complete 3 7 1 3 (g, ()) =
    Some ((g\<lparr>g_comp := (\<lambda>c. if fed_by g 1 c then complete_comp (g_ppl g 7) 7 (g_comp g c) else g_comp g c),
             g_ppl := (g_ppl g)(7 := (g_ppl g 7)\<lparr>source_comp := 1, sink_comp := 3, ppl_status := COMP_STATE_READY\<rparr>)\<rparr>, ()), 0) \<and>
   fed_by g 1 3"
proof -
  let ?g = "demo_graph COMP_STATE_INIT"
  have "ppl_path ?g (ppl_member ?g 1) PPL_DIR_DOWNSTREAM 1 [10, 11] 3"
    by (simp add: demo_defs ppl_member_def comp_buffer_list_def buffer_get_comp_def)
  then have "fed_by ?g 1 3" unfolding fed_by_def by blast
  moreover have "\<not> walking (g_buf ?g b)" for b by (simp add: demo_defs)
  moreover have "ppl_status (g_ppl ?g 7) = COMP_STATE_INIT" by (simp add: demo_defs)
  ultimately show ?thesis
    using pipeline_complete_reaches [OF demo_deep, of COMP_STATE_INIT 7 1 3 "()"] unfolding Let_def by simp
qed



section \<open>The delay of a command\<close>

text \<open>\<open>k\<close> runs of the pipeline task, and the states they returned.\<close>

fun task_runs :: "bool \<Rightarrow> 'e ppl_env \<Rightarrow> nat \<Rightarrow> nat \<Rightarrow> nat \<Rightarrow> graph \<times> 'e \<Rightarrow> ((graph \<times> 'e) \<times> task_state list) option" where
  "task_runs ipc4 env n p 0 s = Some (s, [])"
| "task_runs ipc4 env n p (Suc k) s =
     Option.bind (task_runs ipc4 env n p k s) (\<lambda>(s1, ts). map_option (\<lambda>(s2, t). (s2, ts @ [t])) (pipeline_task ipc4 env n p s1))"

lemma task_runs_delayed:
  assumes "xrun_bytes (g_ppl g p) = 0" and "k \<le> trig_delay (g_ppl g p)"
  shows "task_runs ipc4 env n p k (g, e) =
    Some ((upd_ppl p (\<lambda>x. x\<lparr>trig_delay := trig_delay x - k\<rparr>) g, e), replicate k SOF_TASK_STATE_RESCHEDULE)"
  using assms(2)
proof (induction k)
  case 0
  have "upd_ppl p (\<lambda>x. x) g = g" by (simp add: upd_ppl_def)
  then show ?case by simp
next
  case (Suc k)
  let ?g = "upd_ppl p (\<lambda>x. x\<lparr>trig_delay := trig_delay x - k\<rparr>) g"
  have "pipeline_task ipc4 env n p (?g, e) = Some ((upd_ppl p (\<lambda>x. x\<lparr>trig_delay := trig_delay x - 1\<rparr>) ?g, e), SOF_TASK_STATE_RESCHEDULE)"
    using assms(1) Suc.prems by (simp add: pipeline_task_def task_body_def upd_ppl_def)
  moreover have "upd_ppl p (\<lambda>x. x\<lparr>trig_delay := trig_delay x - 1\<rparr>) ?g = upd_ppl p (\<lambda>x. x\<lparr>trig_delay := trig_delay x - Suc k\<rparr>) g"
    by (simp add: upd_ppl_def fun_eq_iff)
  ultimately show ?case using Suc by (simp add: replicate_append_same)
qed

text \<open>
  (C12) A start command that has to wait \<open>ms\<close> milliseconds for the DAI is neither lost nor early. With the delay that
  the trigger computes, the task is rescheduled for the fewest periods that cover the wait, changing nothing but the counter, and the
  next run executes the pending command.
\<close>

theorem delayed_command_runs:
  assumes "xrun_bytes (g_ppl g p) = 0" and "trig_cmd (g_ppl g p) \<noteq> COMP_TRIGGER_NO_ACTION" and "0 < ppl_period (g_ppl g p)"
    and "trig_delay (g_ppl g p) = trigger_delay ms (ppl_period (g_ppl g p))" and "ms * 1000 + ppl_period (g_ppl g p) < 2 ^ 32"
  shows "\<exists>d. ms * 1000 \<le> d * ppl_period (g_ppl g p) \<and> d * ppl_period (g_ppl g p) < ms * 1000 + ppl_period (g_ppl g p) \<and>
    (\<forall>k\<le>d. task_runs ipc4 env n p k (g, e) =
       Some ((upd_ppl p (\<lambda>x. x\<lparr>trig_delay := d - k\<rparr>) g, e), replicate k SOF_TASK_STATE_RESCHEDULE)) \<and>
    (let s = (upd_ppl p (\<lambda>x. x\<lparr>trig_delay := 0\<rparr>) g, e)
     in pipeline_task ipc4 env n p s =
       (case pipeline_task_cmd ipc4 env n p s of
          None \<Rightarrow> None
        | Some (s1, ts) \<Rightarrow> if ts \<noteq> SOF_TASK_STATE_RUNNING then Some (s1, ts) else task_copy ipc4 env n p s1))"
proof (intro exI conjI allI impI)
  let ?d = "trig_delay (g_ppl g p)" and ?q = "ppl_period (g_ppl g p)"
  have d: "?d = (ms * 1000 + ?q - 1) div ?q" using assms(3-5) by (simp add: trigger_delay_def u32_def u32_sub_id)
  have dm: "(ms * 1000 + ?q - 1) div ?q * ?q + (ms * 1000 + ?q - 1) mod ?q = ms * 1000 + ?q - 1" by simp
  have "(ms * 1000 + ?q - 1) mod ?q < ?q" using assms(3) by simp
  with dm show "ms * 1000 \<le> ?d * ?q" unfolding d by linarith
  from dm show "?d * ?q < ms * 1000 + ?q" using assms(3) unfolding d by linarith
  show "task_runs ipc4 env n p k (g, e) = Some ((upd_ppl p (\<lambda>x. x\<lparr>trig_delay := ?d - k\<rparr>) g, e), replicate k SOF_TASK_STATE_RESCHEDULE)"
    if "k \<le> ?d" for k
    using task_runs_delayed [OF assms(1) that] by (simp add: upd_ppl_def)
  show "let s = (upd_ppl p (\<lambda>x. x\<lparr>trig_delay := 0\<rparr>) g, e)
     in pipeline_task ipc4 env n p s =
       (case pipeline_task_cmd ipc4 env n p s of
          None \<Rightarrow> None
        | Some (s1, ts) \<Rightarrow> if ts \<noteq> SOF_TASK_STATE_RUNNING then Some (s1, ts) else task_copy ipc4 env n p s1)"
    using assms(1,2) by (simp add: pipeline_task_def task_body_def upd_ppl_def Let_def)
qed

definition delayed_graph :: graph where
  "delayed_graph = upd_ppl 7 (\<lambda>x. x\<lparr>trig_cmd := COMP_TRIGGER_START, trig_host := 1, trig_delay := 3\<rparr>) (demo_graph COMP_STATE_PRE_ACTIVE)"

theorem delayed_command_runs_witness:
  "\<exists>d. (3::nat) * 1000 \<le> d * 1000 \<and> d * 1000 < 3 * 1000 + 1000 \<and>
    task_runs True demo_env 3 7 d (delayed_graph, []) =
      Some ((upd_ppl 7 (\<lambda>x. x\<lparr>trig_delay := 0\<rparr>) delayed_graph, []), replicate d SOF_TASK_STATE_RESCHEDULE)"
proof -
  have g: "ppl_period (g_ppl delayed_graph 7) = 1000" "xrun_bytes (g_ppl delayed_graph 7) = 0"
    "trig_cmd (g_ppl delayed_graph 7) \<noteq> COMP_TRIGGER_NO_ACTION" "trig_delay (g_ppl delayed_graph 7) = 3"
    by (simp_all add: delayed_graph_def upd_ppl_def demo_defs)
  from g have "trig_delay (g_ppl delayed_graph 7) = trigger_delay 3 (ppl_period (g_ppl delayed_graph 7))"
    by (simp add: trigger_delay_def u32_def u32_sub_id)
  from delayed_command_runs [OF g(2,3) _ this, of True demo_env 3 "[]"] g(1) show ?thesis by auto
qed

section \<open>Position slots\<close>

text \<open>
  The table and the offsets of the existing pipelines, as creations (with any outcome of the allocator) and releases change them.
\<close>

inductive slots :: "'e ppl_env \<Rightarrow> nat \<Rightarrow> nat \<Rightarrow> posn_table \<Rightarrow> nat list \<Rightarrow> bool" for env psz n where
  start: "slots env psz n (replicate n False) []"
| new: "slots env psz n t ofs \<Longrightarrow> pipeline_new pf core ppl_size msg_size psz pcmd posn_size st ppl_id prio cid t = Done (st', t', r) \<Longrightarrow>
    slots env psz n t' (case r of None \<Rightarrow> ofs | Some (_, p) \<Rightarrow> posn_offset p # ofs)"
| free: "slots env psz n t ofs \<Longrightarrow> posn_offset p \<in> set ofs \<Longrightarrow>
    pipeline_free pf core psz env e ptr p ipc mm t = Done (e', ipc', mm', t') \<Longrightarrow> slots env psz n t' (remove1 (posn_offset p) ofs)"

inductive_cases slots_cases: "slots env psz n t ofs"

definition slots_ok :: "nat \<Rightarrow> nat \<Rightarrow> posn_table \<Rightarrow> nat list \<Rightarrow> bool" where
  "slots_ok psz n t ofs \<longleftrightarrow> length t = n \<and> distinct ofs \<and> (\<forall>x\<in>set ofs. psz dvd x \<and> x div psz < n \<and> t ! (x div psz))"

lemma obind_Done: "obind r f = Done y \<longleftrightarrow> (\<exists>x. r = Done x \<and> f x = Done y)"
  by (cases r) auto

lemma new_slot:
  assumes "pipeline_new pf core ppl_size msg_size psz pcmd posn_size st ppl_id prio cid t = Done (st', t', r)"
  shows "r = None \<and> t' = t \<or> (\<exists>i<length t. \<not> t ! i \<and> t' = t[i := True] \<and> (case r of None \<Rightarrow> posn_size \<noteq> 0 | Some (_, p) \<Rightarrow> posn_offset p = i * psz))"
  using assms
  by (auto simp: pipeline_new_def obind_Done pipeline_posn_offset_get_def Let_def find_Some_iff
      split: if_splits option.splits prod.splits)

lemma free_slot:
  assumes "pipeline_free pf core psz env e ptr p ipc mm t = Done (e', ipc', mm', t')"
  shows "posn_offset p div psz < length t \<and> t' = t[posn_offset p div psz := False]"
  using assms by (auto simp: pipeline_free_def obind_Done pipeline_posn_offset_put_def Let_def split: if_splits)

lemma slots_invariant:
  assumes "slots env psz n t ofs" and "0 < psz"
  shows "slots_ok psz n t ofs"
  using assms(1)
proof induction
  case (new t ofs pf core ppl_size msg_size pcmd posn_size st ppl_id prio cid st' t' r)
  from new_slot [OF new.hyps(2)] consider "r = None" "t' = t"
    | i where "i < length t" "\<not> t ! i" "t' = t[i := True]" "case r of None \<Rightarrow> True | Some (_, p) \<Rightarrow> posn_offset p = i * psz"
    by (auto split: option.splits)
  then show ?case
  proof cases
    case (2 i)
    have "x div psz \<noteq> i" if "x \<in> set ofs" for x using 2(2) new.IH that by (auto simp: slots_ok_def)
    then show ?thesis using 2 new.IH assms(2) by (auto simp: slots_ok_def nth_list_update split: option.splits) (metis dvd_triv_right)
  qed (use new.IH in simp)
next
  case (free t ofs p pf core e ptr ipc mm e' ipc' mm' t')
  have other: "x div psz \<noteq> posn_offset p div psz" if "x \<in> set (remove1 (posn_offset p) ofs)" for x
  proof
    assume eq: "x div psz = posn_offset p div psz"
    have x: "x \<noteq> posn_offset p" "x \<in> set ofs" using that free.IH by (auto simp: slots_ok_def)
    have "psz dvd x" "psz dvd posn_offset p" using free.IH free.hyps(2) x(2) by (auto simp: slots_ok_def)
    with eq x(1) show False by (metis dvd_div_mult_self)
  qed
  have t': "t' = t[posn_offset p div psz := False]" using free_slot [OF free.hyps(3)] by blast
  have "psz dvd x \<and> x div psz < n \<and> t' ! (x div psz)" if x: "x \<in> set (remove1 (posn_offset p) ofs)" for x
    using free.IH other [OF x] notin_set_remove1 x by (auto simp: slots_ok_def t' nth_list_update)
  then show ?case using free.IH by (auto simp: slots_ok_def t')
qed (simp add: slots_ok_def)

text \<open>
  (C30) However pipelines are created and released, two existing pipelines never share a position slot in the mailbox, every
  slot is one of the \<open>n\<close> entries of the table and is marked as used, and releasing a pipeline never writes outside the table.
\<close>

theorem posn_slots_unique:
  assumes "slots env psz n t ofs" and "0 < psz"
  shows "distinct ofs \<and> (\<forall>x\<in>set ofs. \<exists>i<n. x = i * psz \<and> t ! i \<and> pipeline_posn_offset_put psz x t = Done (t[i := False]))"
  using slots_invariant [OF assms] assms(2) by (auto simp: slots_ok_def pipeline_posn_offset_put_def elim!: dvdE)

definition posn_mm :: mm where
  "posn_mm = \<lparr>system = [], system_runtime = [], system_shared = [], runtime_shared = [],
     runtime = [\<lparr>hmap = [\<lparr>block_size = 256, count = 1, free_count = 1, first_free = 0,
       block = [\<lparr>hdr_size = 0, hdr_used = 0, unaligned_ptr = 0\<rparr>], base = 8192\<rparr>],
       heap = 8192, heap_size = 256, heap_caps = 1, info = \<lparr>info_used = 0, info_free = 256\<rparr>\<rparr>], buffer = [], heap_trace_updated = 0\<rparr>"

lemma posn_alloc:
  "\<exists>st1. rzalloc demo_notifier_platform 0 SOF_MEM_ZONE_RUNTIME (posn_mm, \<lambda>_. 0) SOF_MEM_CAPS_RAM 200 = Done (st1, 8192)"
proof -
  have "ALIGN_UP 8192 64 = 8192" by (rule ALIGN_UP_aligned) (simp_all add: is_power_of_2_def)
  then show ?thesis
    by (simp add: rzalloc_def rmalloc_def malloc_unlocked_def rmalloc_runtime_def get_heap_from_caps_def posn_mm_def SOF_MEM_CAPS_RAM_def
        demo_notifier_platform_def get_ptr_from_heap_def upt_rec s32_def s32_id alloc_block_def alloc_block_index_def align_ptr_def Let_def u32_def)
qed

theorem posn_slots_unique_witness:
  "\<exists>t. slots demo_env 64 4 t [0] \<and> t ! 0 \<and> pipeline_posn_offset_put 64 0 t = Done (t[0 := False])"
proof -
  obtain st1 where st1: "rzalloc demo_notifier_platform 0 SOF_MEM_ZONE_RUNTIME (posn_mm, \<lambda>_. 0) SOF_MEM_CAPS_RAM 200 = Done (st1, 8192)"
    using posn_alloc by blast
  have "\<exists>p. pipeline_new demo_notifier_platform 0 200 48 64 0 0 (posn_mm, \<lambda>_. 0) 1 0 2 (replicate 4 False) =
      Done (st1, (replicate 4 False)[0 := True], Some (8192, p)) \<and> posn_offset p = 0"
    by (simp add: pipeline_new_def st1 pipeline_posn_offset_get_def upt_rec Let_def)
  then obtain p where p: "pipeline_new demo_notifier_platform 0 200 48 64 0 0 (posn_mm, \<lambda>_. 0) 1 0 2 (replicate 4 False) =
      Done (st1, (replicate 4 False)[0 := True], Some (8192, p))" "posn_offset p = 0" by blast
  have s: "slots demo_env 64 4 ((replicate 4 False)[0 := True]) [0]" using slots.new [OF slots.start p(1)] p(2) by simp
  then show ?thesis using posn_slots_unique [OF s] by (intro exI [of _ "(replicate 4 False)[0 := True]"]) auto
qed

text \<open>
  When the message cannot be allocated, \<^verbatim>\<open>pipeline_new\<close> fails but keeps the slot: no pipeline owns it and nothing ever clears it.
\<close>

lemma failed_new_leaks_slot:
  assumes "pipeline_new pf core ppl_size msg_size psz pcmd posn_size st ppl_id prio cid t = Done (st', t', None)" and "t' \<noteq> t"
  shows "\<exists>i<length t. \<not> t ! i \<and> t' = t[i := True] \<and> posn_size \<noteq> 0"
  using new_slot [OF assms(1)] assms(2) by auto

end
