(* ===== verification/Samples.thy ===== *)
theory Samples
  imports Buffer_Props
begin

text \<open>
  Samples in memory and the fixed point arithmetic on them: little endian access of one to four bytes, the saturation
  functions of \<^verbatim>\<open>src/include/sof/audio/format_generic.h\<close> and the fractional multiplications and shifts of
  \<^verbatim>\<open>src/include/sof/audio/format.h\<close>. A right shift of a negative value is arithmetic, a left shift wraps, as on the targets of
  the firmware.
\<close>

section \<open>Little endian access\<close>

fun load_u :: "nat \<Rightarrow> memory \<Rightarrow> nat \<Rightarrow> nat" where
  "load_u 0 mem p = 0"
| "load_u (Suc w) mem p = mem p mod 256 + 256 * load_u w mem (Suc p)"

definition sext :: "nat \<Rightarrow> int \<Rightarrow> int" where
  "sext b i = (i + 2 ^ (b - 1)) mod 2 ^ b - 2 ^ (b - 1)"

definition load_s :: "nat \<Rightarrow> memory \<Rightarrow> nat \<Rightarrow> int" where
  "load_s w mem p = sext (8 * w) (int (load_u w mem p))"

fun le_bytes :: "nat \<Rightarrow> nat \<Rightarrow> nat list" where
  "le_bytes 0 v = []"
| "le_bytes (Suc w) v = v mod 256 # le_bytes w (v div 256)"

definition write_bytes :: "memory \<Rightarrow> nat \<Rightarrow> nat list \<Rightarrow> memory" where
  "write_bytes mem p bs = (\<lambda>a. if p \<le> a \<and> a < p + length bs then bs ! (a - p) else mem a)"

text \<open>The bytes of a value in \<open>w\<close> bytes; a store keeps the low bits.\<close>

definition sample_bytes :: "nat \<Rightarrow> int \<Rightarrow> nat list" where
  "sample_bytes w v = le_bytes w (nat (v mod 2 ^ (8 * w)))"

definition store_s :: "nat \<Rightarrow> memory \<Rightarrow> nat \<Rightarrow> int \<Rightarrow> memory" where
  "store_s w mem p v = write_bytes mem p (sample_bytes w v)"

definition encode :: "nat \<Rightarrow> int list \<Rightarrow> nat list" where
  "encode w vs = concat (map (sample_bytes w) vs)"

lemma s32_sext: "s32 = sext 32"
  by (simp add: s32_def sext_def fun_eq_iff)

lemma sext_range: "0 < b \<Longrightarrow> - (2 ^ (b - 1)) \<le> sext b i \<and> sext b i < 2 ^ (b - 1)"
proof -
  assume "0 < b"
  then have "(2 :: int) ^ b = 2 * 2 ^ (b - 1)" by (simp flip: power_Suc)
  then show ?thesis using pos_mod_bound [of "2 ^ b" "i + 2 ^ (b - 1)"] by (simp add: sext_def)
qed

lemma sext_id: "0 < b \<Longrightarrow> - (2 ^ (b - 1)) \<le> i \<Longrightarrow> i < 2 ^ (b - 1) \<Longrightarrow> sext b i = i"
proof -
  assume *: "0 < b" "- (2 ^ (b - 1)) \<le> i" "i < 2 ^ (b - 1)"
  then have "(2 :: int) ^ b = 2 * 2 ^ (b - 1)" by (simp flip: power_Suc)
  with * have "(i + 2 ^ (b - 1)) mod 2 ^ b = i + 2 ^ (b - 1)" by (intro mod_pos_pos_trivial) auto
  then show ?thesis by (simp add: sext_def)
qed

lemma sext_mod: "sext b (i mod 2 ^ b) = sext b i"
  by (simp add: sext_def mod_simps)

lemma sext_cong: "sext b i mod 2 ^ b = i mod 2 ^ b"
  by (simp add: sext_def mod_simps)

lemma sext_sext [simp]: "sext b (sext b i) = sext b i"
  by (metis sext_mod sext_cong)

lemma length_le_bytes [simp]: "length (le_bytes w v) = w"
  by (induction w v rule: le_bytes.induct) auto

lemma length_sample_bytes [simp]: "length (sample_bytes w v) = w"
  by (simp add: sample_bytes_def)

lemma encode_Nil [simp]: "encode w [] = []"
  by (simp add: encode_def)

lemma encode_Cons [simp]: "encode w (v # vs) = sample_bytes w v @ encode w vs"
  by (simp add: encode_def)

lemma encode_append [simp]: "encode w (us @ vs) = encode w us @ encode w vs"
  by (simp add: encode_def)

lemma length_encode [simp]: "length (encode w vs) = length vs * w"
  by (induction vs) auto

lemma write_bytes_Nil [simp]: "write_bytes mem p [] = mem"
  by (auto simp: write_bytes_def)

lemma write_bytes_append: "write_bytes (write_bytes mem p bs) (p + length bs) cs = write_bytes mem p (bs @ cs)"
  by (auto simp: write_bytes_def fun_eq_iff nth_append)

lemma write_bytes_other: "a < p \<or> p + length bs \<le> a \<Longrightarrow> write_bytes mem p bs a = mem a"
  by (auto simp: write_bytes_def)

lemma load_u_cong: "(\<And>i. i < w \<Longrightarrow> mem (p + i) = mem' (p + i)) \<Longrightarrow> load_u w mem p = load_u w mem' p"
proof (induction w arbitrary: p)
  case (Suc w)
  have "mem (Suc p + i) = mem' (Suc p + i)" if "i < w" for i using Suc.prems [of "Suc i"] that by simp
  with Suc.IH [of "Suc p"] Suc.prems [of 0] show ?case by simp
qed simp

lemma load_s_cong: "(\<And>i. i < w \<Longrightarrow> mem (p + i) = mem' (p + i)) \<Longrightarrow> load_s w mem p = load_s w mem' p"
  by (simp add: load_s_def load_u_cong [of w mem p mem'])

lemma load_le_bytes:
  assumes "\<And>i. i < w \<Longrightarrow> mem (p + i) = le_bytes w v ! i"
  shows "load_u w mem p = v mod 256 ^ w"
  using assms
proof (induction w arbitrary: p v)
  case (Suc w)
  have "load_u w mem (Suc p) = v div 256 mod 256 ^ w"
    by (rule Suc.IH) (use Suc.prems [of "Suc _"] in auto)
  with Suc.prems [of 0] show ?case by (simp add: mod_mult2_eq)
qed simp

lemma pow_256: "(256 :: nat) ^ w = 2 ^ (8 * w)"
  by (simp add: power_mult)

lemma load_sample_bytes:
  assumes "\<And>i. i < w \<Longrightarrow> mem (p + i) = sample_bytes w v ! i"
  shows "int (load_u w mem p) = v mod 2 ^ (8 * w)" and "load_s w mem p = sext (8 * w) v"
proof -
  have "load_u w mem p = nat (v mod 2 ^ (8 * w)) mod 256 ^ w"
    by (rule load_le_bytes) (use assms in \<open>simp add: sample_bytes_def\<close>)
  also have "nat (v mod 2 ^ (8 * w)) < 256 ^ w" unfolding pow_256 by (simp add: nat_less_iff)
  then have "nat (v mod 2 ^ (8 * w)) mod 256 ^ w = nat (v mod 2 ^ (8 * w))" by simp
  finally show *: "int (load_u w mem p) = v mod 2 ^ (8 * w)" by simp
  then show "load_s w mem p = sext (8 * w) v" by (simp add: load_s_def sext_mod)
qed

lemma encode_nth:
  assumes "i < length vs" and "j < w"
  shows "encode w vs ! (i * w + j) = sample_bytes w (vs ! i) ! j"
  using assms
proof (induction vs arbitrary: i)
  case (Cons v vs)
  show ?case
  proof (cases i)
    case (Suc k)
    have "encode w (v # vs) ! (i * w + j) = encode w vs ! (k * w + j)" by (simp add: Suc nth_append)
    with Cons Suc show ?thesis by simp
  qed (use Cons.prems in \<open>simp add: nth_append\<close>)
qed simp

section \<open>Saturation\<close>

definition INT24_MAXVALUE :: int where "INT24_MAXVALUE = 8388607"
definition INT24_MINVALUE :: int where "INT24_MINVALUE = - 8388608"

definition sat_int32 :: "int \<Rightarrow> int" where
  "sat_int32 x = (if x > 2147483647 then 2147483647 else if x < - 2147483648 then - 2147483648 else x)"

text \<open>The other functions take a 32-bit argument: a wider one is truncated first.\<close>

definition sat_int24 :: "int \<Rightarrow> int" where
  "sat_int24 x0 = (let x = s32 x0 in if x > INT24_MAXVALUE then INT24_MAXVALUE else if x < INT24_MINVALUE then INT24_MINVALUE else x)"

definition sat_int16 :: "int \<Rightarrow> int" where
  "sat_int16 x0 = (let x = s32 x0 in if x > 32767 then 32767 else if x < - 32768 then - 32768 else x)"

definition sat_int8 :: "int \<Rightarrow> int" where
  "sat_int8 x0 = (let x = s32 x0 in if x > 127 then 127 else if x < - 128 then - 128 else x)"

text \<open>What they mean: the nearest value of the smaller type.\<close>

definition clamp :: "nat \<Rightarrow> int \<Rightarrow> int" where
  "clamp b x = max (- (2 ^ (b - 1))) (min (2 ^ (b - 1) - 1) x)"

lemma sat_clamp:
  "sat_int32 x = clamp 32 x"
  "- (2 ^ 31) \<le> x \<Longrightarrow> x < 2 ^ 31 \<Longrightarrow> sat_int24 x = clamp 24 x"
  "- (2 ^ 31) \<le> x \<Longrightarrow> x < 2 ^ 31 \<Longrightarrow> sat_int16 x = clamp 16 x"
  "- (2 ^ 31) \<le> x \<Longrightarrow> x < 2 ^ 31 \<Longrightarrow> sat_int8 x = clamp 8 x"
  by (auto simp: sat_int32_def sat_int24_def sat_int16_def sat_int8_def clamp_def INT24_MAXVALUE_def INT24_MINVALUE_def Let_def s32_id)

lemma clamp_id: "- (2 ^ (b - 1)) \<le> x \<Longrightarrow> x < 2 ^ (b - 1) \<Longrightarrow> clamp b x = x"
  by (simp add: clamp_def)

lemma clamp_range: "- (2 ^ (b - 1)) \<le> clamp b x" "clamp b x < 2 ^ (b - 1)"
  by (simp_all add: clamp_def)

section \<open>Fractional arithmetic\<close>

definition Q_SHIFT_RND :: "int \<Rightarrow> nat \<Rightarrow> nat \<Rightarrow> int" where
  "Q_SHIFT_RND x src_q dst_q = drop_bit 1 (drop_bit (src_q - dst_q - 1) x + 1)"

definition q_mults_32x32 :: "int \<Rightarrow> int \<Rightarrow> nat \<Rightarrow> int" where
  "q_mults_32x32 x y shift_bits = drop_bit shift_bits (x * y)"

definition q_multsr_32x32 :: "int \<Rightarrow> int \<Rightarrow> nat \<Rightarrow> int" where
  "q_multsr_32x32 x y shift_bits = drop_bit 1 (drop_bit (shift_bits - 1) (x * y) + 1)"

definition q_mults_16x16 :: "int \<Rightarrow> int \<Rightarrow> nat \<Rightarrow> int" where
  "q_mults_16x16 x y shift_bits = drop_bit shift_bits (s32 (x * y))"

definition q_multsr_16x16 :: "int \<Rightarrow> int \<Rightarrow> nat \<Rightarrow> int" where
  "q_multsr_16x16 x y shift_bits = sext 16 (drop_bit 1 (s32 (drop_bit (shift_bits - 1) (s32 (x * y)) + 1)))"

definition q_multsr_sat_32x32 :: "int \<Rightarrow> int \<Rightarrow> nat \<Rightarrow> int" where
  "q_multsr_sat_32x32 x y shift_bits = sat_int32 (drop_bit 1 (drop_bit (shift_bits - 1) (x * y) + 1))"

definition q_multsr_sat_32x32_24 :: "int \<Rightarrow> int \<Rightarrow> nat \<Rightarrow> int" where
  "q_multsr_sat_32x32_24 x y shift_bits = sat_int24 (drop_bit 1 (drop_bit (shift_bits - 1) (x * y) + 1))"

definition q_multsr_sat_32x32_16 :: "int \<Rightarrow> int \<Rightarrow> nat \<Rightarrow> int" where
  "q_multsr_sat_32x32_16 x y shift_bits = sat_int16 (drop_bit 1 (drop_bit (shift_bits - 1) (x * y) + 1))"

definition q_multsr_sat_16x16 :: "int \<Rightarrow> int \<Rightarrow> nat \<Rightarrow> int" where
  "q_multsr_sat_16x16 x y shift_bits = sat_int16 (drop_bit 1 (s32 (drop_bit (shift_bits - 1) (s32 (x * y)) + 1)))"

definition sign_extend_s24 :: "int \<Rightarrow> int" where
  "sign_extend_s24 x = drop_bit 8 (s32 (x * 2 ^ 8))"

text \<open>Shifting in two steps with a one added in between rounds to the nearest value, halves upwards.\<close>

definition round_shift :: "nat \<Rightarrow> int \<Rightarrow> int" where
  "round_shift s x = (x + 2 ^ (s - 1)) div 2 ^ s"

lemma two_step_round: "0 < s \<Longrightarrow> drop_bit 1 (drop_bit (s - 1) x + 1) = round_shift s x" for x :: int
proof -
  assume s: "0 < s"
  then have "(2 :: int) ^ s = 2 ^ (s - 1) * 2" by (simp flip: power_Suc2)
  then have "round_shift s x = (x + 2 ^ (s - 1)) div 2 ^ (s - 1) div 2"
    unfolding round_shift_def by (simp only: zdiv_zmult2_eq zero_le_numeral)
  also have "(x + 2 ^ (s - 1)) div 2 ^ (s - 1) = x div 2 ^ (s - 1) + 1" by (rule div_add_self2) simp
  finally show ?thesis by (simp add: drop_bit_eq_div)
qed

lemma Q_SHIFT_RND_round: "dst_q < src_q \<Longrightarrow> Q_SHIFT_RND x src_q dst_q = round_shift (src_q - dst_q) x"
  using two_step_round [of "src_q - dst_q" x] by (simp add: Q_SHIFT_RND_def)

lemma sign_extend_s24_eq: "sign_extend_s24 x = sext 24 x"
proof -
  have "(x * 2 ^ 8 + 2 ^ 31) mod 2 ^ 32 = (x + 2 ^ 23) mod 2 ^ 24 * 2 ^ 8"
    using mult_mod_right [of "2 ^ 8" "x + 2 ^ 23" "2 ^ 24"] by (simp add: algebra_simps)
  then have "s32 (x * 2 ^ 8) = ((x + 2 ^ 23) mod 2 ^ 24 - 2 ^ 23) * 2 ^ 8" by (simp add: s32_def algebra_simps)
  then show ?thesis by (simp add: sign_extend_s24_def sext_def drop_bit_eq_div)
qed

lemma round_shift_bounds:
  assumes "0 < s" and "- (2 ^ k) * 2 ^ s \<le> x" and "x < 2 ^ k * 2 ^ s"
  shows "- (2 ^ k) \<le> round_shift s x" and "round_shift s x \<le> 2 ^ k"
proof -
  have half: "(2 :: int) ^ s = 2 ^ (s - 1) * 2" using assms(1) by (simp flip: power_Suc2)
  have "- (2 ^ k) * 2 ^ s div 2 ^ s \<le> round_shift s x"
    unfolding round_shift_def using assms(2) by (intro zdiv_mono1) (auto intro: add_increasing2)
  moreover have "- (2 ^ k) * 2 ^ s div 2 ^ s = - (2 ^ k :: int)" by (rule nonzero_mult_div_cancel_right) simp
  ultimately show "- (2 ^ k) \<le> round_shift s x" by (simp only:)
  have "x + 2 ^ (s - 1) \<le> 2 ^ k * 2 ^ s + 2 ^ (s - 1)" using assms(3) by simp
  then have "round_shift s x \<le> (2 ^ k * 2 ^ s + 2 ^ (s - 1)) div 2 ^ s"
    unfolding round_shift_def by (intro zdiv_mono1) auto
  also have "\<dots> = 2 ^ k + 2 ^ (s - 1) div 2 ^ s" by simp
  also have "(2 :: int) ^ (s - 1) div 2 ^ s = 0" using half by (intro div_pos_pos_trivial) auto
  finally show "round_shift s x \<le> 2 ^ k" by simp
qed

text \<open>A value that was shifted left comes back.\<close>

lemma round_shift_exact: "0 < s \<Longrightarrow> round_shift s (x * 2 ^ s) = x"
proof -
  assume "0 < s"
  then have "(2 :: int) ^ (s - 1) div 2 ^ s = 0" by (intro div_pos_pos_trivial) (auto intro: power_strict_increasing)
  moreover have "(x * 2 ^ s + 2 ^ (s - 1)) div 2 ^ s = x + 2 ^ (s - 1) div 2 ^ s" by (simp add: add.commute)
  ultimately show ?thesis by (simp add: round_shift_def)
qed

end
