(* ===== verification/SampleLoops.thy ===== *)
theory SampleLoops
  imports Samples
begin

text \<open>
  The loop that the generic processing functions share (\<^verbatim>\<open>src/audio/mixer/mixer_generic.c\<close>,
  \<^verbatim>\<open>src/audio/volume/volume_generic.c\<close>, \<^verbatim>\<open>src/audio/pcm_converter\<close>): take the longest piece that does not pass the end of any
  ring, process it as linear memory, move and wrap the pointers. The processing of a piece is an argument. What a piece has to do is
  the contract of the locale \<open>ring_processing\<close>; in it, both forms of the loop are shown to return and to write exactly the
  processed samples.
\<close>

section \<open>The loops\<close>

text \<open>The least number of samples before the end of a ring, over several rings and their pointers.\<close>

fun least_without_wrap :: "nat \<Rightarrow> audio_stream list \<Rightarrow> nat list \<Rightarrow> nat \<Rightarrow> nat outcome" where
  "least_without_wrap w (b # bs) (p # ps) n =
     obind (audio_stream_bytes_without_wrap b p) (\<lambda>m. least_without_wrap w bs ps (min n (m div w)))"
| "least_without_wrap w _ _ n = Done n"

fun wrap_all :: "audio_stream list \<Rightarrow> nat list \<Rightarrow> nat list outcome" where
  "wrap_all (b # bs) (p # ps) = obind (audio_stream_wrap b p) (\<lambda>q. obind (wrap_all bs ps) (\<lambda>qs. Done (q # qs)))"
| "wrap_all _ _ = Done []"

text \<open>
  The form with the wrap at the end of an iteration: sample sizes, sources, sink, memory, source pointers, sink pointer, remaining
  samples. A piece of zero samples would repeat for ever: \<open>None\<close>.
\<close>

partial_function (option) process_loop ::
    "(memory \<Rightarrow> nat list \<Rightarrow> nat \<Rightarrow> nat \<Rightarrow> memory) \<Rightarrow> nat \<Rightarrow> nat \<Rightarrow> audio_stream list \<Rightarrow> audio_stream \<Rightarrow>
      memory \<Rightarrow> nat list \<Rightarrow> nat \<Rightarrow> nat \<Rightarrow> memory outcome option" where
  "process_loop piece ws wd sources sink mem srcs dst remaining =
     (if remaining = 0 then Some (Done mem)
      else
        case obind (audio_stream_bytes_without_wrap sink dst) (\<lambda>m.
             obind (least_without_wrap ws sources srcs (min remaining (m div wd))) (\<lambda>n.
             obind (wrap_all sources (map (\<lambda>s. u32 (s + n * ws)) srcs)) (\<lambda>srcs'.
             obind (audio_stream_wrap sink (u32 (dst + n * wd))) (\<lambda>dst'. Done (n, srcs', dst'))))) of
          Done t \<Rightarrow> process_loop piece ws wd sources sink (piece mem srcs dst (fst t)) (fst (snd t)) (snd (snd t)) (remaining - fst t)
        | Panic \<Rightarrow> Some Panic
        | OutOfBounds \<Rightarrow> Some OutOfBounds)"

text \<open>The form with the wrap at the start of an iteration, for one source.\<close>

partial_function (option) convert_loop ::
    "(memory \<Rightarrow> nat list \<Rightarrow> nat \<Rightarrow> nat \<Rightarrow> memory) \<Rightarrow> nat \<Rightarrow> nat \<Rightarrow> audio_stream \<Rightarrow> audio_stream \<Rightarrow>
      memory \<Rightarrow> nat \<Rightarrow> nat \<Rightarrow> nat \<Rightarrow> memory outcome option" where
  "convert_loop piece ws wd source sink mem src dst remaining =
     (if remaining = 0 then Some (Done mem)
      else
        case obind (audio_stream_wrap source src) (\<lambda>s.
             obind (audio_stream_wrap sink dst) (\<lambda>d.
             obind (audio_stream_bytes_without_wrap source s) (\<lambda>ms.
             obind (audio_stream_bytes_without_wrap sink d) (\<lambda>md.
               Done (s, d, min (min remaining (ms div ws)) (md div wd)))))) of
          Done (s, d, n) \<Rightarrow>
            convert_loop piece ws wd source sink (piece mem [s] d n) (u32 (s + n * ws)) (u32 (d + n * wd)) (remaining - n)
        | Panic \<Rightarrow> Some Panic
        | OutOfBounds \<Rightarrow> Some OutOfBounds)"

text \<open>The inner loop of a piece: one output sample from one sample of every source, then all pointers move.\<close>

fun map_piece :: "(int list \<Rightarrow> int) \<Rightarrow> (memory \<Rightarrow> nat \<Rightarrow> int) \<Rightarrow> nat \<Rightarrow> nat \<Rightarrow> memory \<Rightarrow> nat list \<Rightarrow> nat \<Rightarrow> nat \<Rightarrow> memory" where
  "map_piece k rd ws wd mem srcs dst 0 = mem"
| "map_piece k rd ws wd mem srcs dst (Suc n) =
     map_piece k rd ws wd (store_s wd mem dst (k (map (rd mem) srcs))) (map (\<lambda>s. s + ws) srcs) (dst + wd) n"

section \<open>Writing to a ring\<close>

lemma ring_written_compose:
  assumes 1: "ring_written a n p ds mem m1" and 2: "ring_written a n (ring_at a n p (length ds)) es m1 m2"
    and len: "length ds + length es \<le> n"
  shows "ring_written a n p (ds @ es) mem m2"
  unfolding ring_written_def
proof (intro conjI allI impI)
  have low: "m2 (ring_at a n p i) = m1 (ring_at a n p i)" if "i < length ds" for i
  proof -
    have "ring_at a n p i \<noteq> ring_at a n p (length ds + j)" if "j < length es" for j
      using ring_at_inj [of a n p i "length ds + j"] \<open>i < length ds\<close> that len by fastforce
    then show ?thesis using 2 by (auto simp: ring_written_def ring_at_plus)
  qed
  fix i assume "i < length (ds @ es)"
  then show "m2 (ring_at a n p i) = (ds @ es) ! i"
  proof (cases "i < length ds")
    case False
    then obtain j where "i = length ds + j" "j < length es" using \<open>i < length (ds @ es)\<close>
      by (metis add_less_cancel_left le_add_diff_inverse length_append not_less)
    then show ?thesis using 2 by (auto simp: ring_written_def ring_at_plus)
  qed (use 1 low in \<open>auto simp: ring_written_def nth_append\<close>)
next
  fix x assume x: "\<forall>i<length (ds @ es). x \<noteq> ring_at a n p i"
  then have "m1 x = mem x" using 1 by (auto simp: ring_written_def)
  moreover have "x \<noteq> ring_at a n p (length ds + j)" if "j < length es" for j using x that by auto
  then have "m2 x = m1 x" using 2 by (auto simp: ring_written_def ring_at_plus)
  ultimately show "m2 x = mem x" by simp
qed

lemma ring_written_linear:
  assumes "a \<le> p" and "p + length ds \<le> a + n"
  shows "ring_written a n p ds mem (write_bytes mem p ds)"
proof -
  have at: "ring_at a n p i = p + i" if "i < length ds" for i using assms that by (intro ring_at_small) auto
  have "write_bytes mem p ds x = mem x" if x: "\<forall>i<length ds. x \<noteq> ring_at a n p i" for x
  proof (rule write_bytes_other, rule ccontr)
    assume "\<not> (x < p \<or> p + length ds \<le> x)"
    then have "x - p < length ds" "x = p + (x - p)" by auto
    with x at show False by metis
  qed
  then show ?thesis using at by (simp add: ring_written_def write_bytes_def)
qed

lemma ring_written_outside:
  assumes "ring_written a n p ds mem mem'" and "0 < n" and "x < a \<or> a + n \<le> x"
  shows "mem' x = mem x"
proof -
  have "x \<noteq> ring_at a n p i" for i using ring_at_bounds [OF assms(2), of a p i] assms(3) by auto
  with assms(1) show ?thesis by (simp add: ring_written_def)
qed

text \<open>Between multiples of a size there is always room for one element.\<close>

lemma dvd_room: "w dvd r \<Longrightarrow> w dvd n \<Longrightarrow> r < n \<Longrightarrow> r + w \<le> n" for r n :: nat
proof -
  assume "w dvd r" "w dvd n" "r < n"
  then have "w dvd n - r" "0 < n - r" by auto
  then have "w \<le> n - r" by (rule dvd_imp_le)
  with \<open>r < n\<close> show ?thesis by simp
qed

lemma ring_at_step:
  assumes "w dvd n" and "w dvd p - a" and "w dvd i" and "0 < n" and "j < w"
  shows "ring_at a n p (i + j) = ring_at a n p i + j"
proof -
  have "w dvd (p - a + i) mod n" using assms by (simp add: dvd_mod)
  then have "(p - a + i) mod n + w \<le> n" using assms by (intro dvd_room) auto
  then have "((p - a + i) mod n + j) mod n = (p - a + i) mod n + j" using assms by simp
  then show ?thesis by (simp add: ring_at_def mod_simps add.assoc)
qed

text \<open>A sample that was written to a ring at a sample position reads back.\<close>

lemma ring_written_sample:
  assumes w: "ring_written a n p (encode wd vs) mem mem'" and i: "i < length vs" and al: "wd dvd n" "wd dvd p - a" "0 < n"
  shows "load_s wd mem' (ring_at a n p (i * wd)) = sext (8 * wd) (vs ! i)"
    and "int (load_u wd mem' (ring_at a n p (i * wd))) = vs ! i mod 2 ^ (8 * wd)"
proof -
  have bytes: "mem' (ring_at a n p (i * wd) + j) = sample_bytes wd (vs ! i) ! j" if j: "j < wd" for j
  proof -
    have "ring_at a n p (i * wd + j) = ring_at a n p (i * wd) + j" using al j by (intro ring_at_step) auto
    moreover have "i * wd + j < length (encode wd vs)"
    proof -
      have "i * wd + j < Suc i * wd" using j by simp
      also have "\<dots> \<le> length vs * wd" using i by (intro mult_le_mono1) simp
      finally show ?thesis by simp
    qed
    ultimately show ?thesis using w encode_nth [OF i j] unfolding ring_written_def by metis
  qed
  show "load_s wd mem' (ring_at a n p (i * wd)) = sext (8 * wd) (vs ! i)"
    "int (load_u wd mem' (ring_at a n p (i * wd))) = vs ! i mod 2 ^ (8 * wd)"
    by (rule load_sample_bytes; use bytes in blast)+
qed

section \<open>Pointers at sample positions\<close>

definition aligned :: "nat \<Rightarrow> audio_stream \<Rightarrow> nat \<Rightarrow> bool" where
  "aligned w b p \<longleftrightarrow> stream_ok b \<and> addr b \<le> p \<and> p < end_addr b \<and> w dvd st_size b \<and> w dvd p - addr b"

definition apart :: "audio_stream \<Rightarrow> audio_stream \<Rightarrow> bool" where
  "apart b b' \<longleftrightarrow> end_addr b \<le> addr b' \<or> end_addr b' \<le> addr b"

abbreviation after :: "audio_stream \<Rightarrow> nat \<Rightarrow> nat \<Rightarrow> nat" where
  "after b p i \<equiv> ring_at (addr b) (st_size b) p i"

text \<open>The first \<open>k\<close> output samples of a processing \<open>g\<close>, which may depend on the position of a sample.\<close>

definition outputs :: "(nat \<Rightarrow> int list \<Rightarrow> int) \<Rightarrow> (memory \<Rightarrow> nat \<Rightarrow> int) \<Rightarrow> nat \<Rightarrow> audio_stream list \<Rightarrow> nat list \<Rightarrow> memory \<Rightarrow> nat \<Rightarrow> int list" where
  "outputs g rd ws sources srcs mem k = map (\<lambda>i. g i (map2 (\<lambda>b s. rd mem (after b s (i * ws))) sources srcs)) [0..<k]"

lemma length_outputs [simp]: "length (outputs g rd ws sources srcs mem k) = k"
  by (simp add: outputs_def)

lemma alignedD:
  assumes "aligned w b p"
  shows "stream_ok b" "addr b \<le> p" "p < addr b + st_size b" "end_addr b = addr b + st_size b" "w dvd st_size b" "w dvd p - addr b"
    "0 < st_size b" "w dvd end_addr b - p"
proof -
  show *: "stream_ok b" "addr b \<le> p" "w dvd st_size b" "w dvd p - addr b" using assms by (auto simp: aligned_def)
  show e: "end_addr b = addr b + st_size b" "0 < st_size b" using stream_okD [OF *(1)] by auto
  then show "p < addr b + st_size b" using assms by (auto simp: aligned_def)
  have "end_addr b - p = st_size b - (p - addr b)" using e *(2) by simp
  then show "w dvd end_addr b - p" using *(3,4) by (simp add: dvd_diff_nat)
qed

lemma aligned_after:
  assumes "aligned w b p" and "w dvd i"
  shows "aligned w b (after b p i)"
proof -
  note D = alignedD [OF assms(1)]
  have "w dvd after b p i - addr b" using D assms(2) by (simp add: ring_at_def dvd_mod del: Nat.add_diff_assoc2)
  then show ?thesis using D ring_at_bounds [of "st_size b" "addr b" p i] by (auto simp: aligned_def)
qed

lemma aligned_dvd: "aligned w b p \<Longrightarrow> v dvd w \<Longrightarrow> aligned v b p"
  by (auto simp: aligned_def intro: dvd_trans)

text \<open>The number of whole samples up to the end of the ring.\<close>

lemma aligned_rest:
  assumes "aligned (w * c) b p" and "0 < w" and "0 < c"
  shows "(end_addr b - p) div w * w = end_addr b - p" and "c dvd (end_addr b - p) div w" and "0 < (end_addr b - p) div w"
proof -
  note D = alignedD [OF assms(1)]
  obtain k where k: "end_addr b - p = w * c * k" using D(8) by blast
  moreover have "0 < end_addr b - p" using D(3,4) by simp
  ultimately show "(end_addr b - p) div w * w = end_addr b - p" "c dvd (end_addr b - p) div w" "0 < (end_addr b - p) div w"
    using assms(2) by (auto simp: mult.assoc)
qed

lemma wrap_aligned:
  assumes "aligned w b p" and "i \<le> st_size b"
  shows "audio_stream_wrap b (u32 (p + i)) = Done (after b p i)"
  using audio_stream_wrap_ok [of b p i] alignedD [OF assms(1)] assms(2) by simp

lemma wrap_all_aligned:
  assumes "list_all2 (aligned w) bs ps" and "\<forall>b\<in>set bs. i \<le> st_size b"
  shows "wrap_all bs (map (\<lambda>p. u32 (p + i)) ps) = Done (map2 (\<lambda>b p. after b p i) bs ps)"
  using assms by (induction rule: list_all2_induct) (auto simp: wrap_aligned)

lemma aligned_all_after:
  assumes "list_all2 (aligned w) bs ps" and "w dvd i"
  shows "list_all2 (aligned w) bs (map2 (\<lambda>b p. after b p i) bs ps)"
  using assms by (induction rule: list_all2_induct) (auto simp: aligned_after)

lemma least_aligned:
  assumes "list_all2 (aligned (w * c)) bs ps" and "0 < w" and "0 < c" and "0 < n" and "c dvd n"
  shows "\<exists>m. least_without_wrap w bs ps n = Done m \<and> 0 < m \<and> m \<le> n \<and> c dvd m \<and> list_all2 (\<lambda>b p. p + m * w \<le> end_addr b) bs ps"
  using assms(1,4,5)
proof (induction arbitrary: n rule: list_all2_induct)
  case (Cons b bs p ps)
  let ?q = "(end_addr b - p) div w"
  note D = alignedD [OF Cons.hyps(1)] and R = aligned_rest [OF Cons.hyps(1) assms(2,3)]
  have "0 < min n ?q" "c dvd min n ?q" using Cons.prems R by (auto simp: min_def)
  then obtain m where m: "least_without_wrap w bs ps (min n ?q) = Done m" "0 < m" "m \<le> min n ?q" "c dvd m"
    "list_all2 (\<lambda>b p. p + m * w \<le> end_addr b) bs ps" using Cons.IH by blast
  have "m * w \<le> ?q * w" using m(3) by simp
  then have "m * w \<le> end_addr b - p" unfolding R(1) .
  then have "p + m * w \<le> end_addr b" using D(3,4) by linarith
  with m D show ?case by (auto simp: audio_stream_bytes_without_wrap_def)
qed auto

section \<open>The contract of a piece\<close>

text \<open>
  Processing with period \<open>c\<close>: \<open>g i\<close> gives the output sample at position \<open>i\<close> from the source samples there. A piece whose length is a
  multiple of the period writes the encoded outputs to the linear memory at \<open>dst\<close> and changes nothing else.
\<close>

locale ring_processing =
  fixes piece :: "memory \<Rightarrow> nat list \<Rightarrow> nat \<Rightarrow> nat \<Rightarrow> memory"
    and g :: "nat \<Rightarrow> int list \<Rightarrow> int"
    and rd :: "memory \<Rightarrow> nat \<Rightarrow> int"
    and ws :: nat
    and wd :: nat
    and c :: nat
  assumes sizes: "0 < ws" "0 < wd" "0 < c"
    and period: "g (i + c) = g i"
    and reads: "(\<And>j. j < ws \<Longrightarrow> mem (p + j) = mem' (p + j)) \<Longrightarrow> rd mem p = rd mem' p"
    and piece: "c dvd n \<Longrightarrow> (\<forall>s\<in>set srcs. s + n * ws \<le> dst \<or> dst + n * wd \<le> s) \<Longrightarrow>
      piece mem srcs dst n = write_bytes mem dst (encode wd (map (\<lambda>i. g i (map (\<lambda>s. rd mem (s + i * ws)) srcs)) [0..<n]))"
begin

lemma period_dvd: "c dvd n \<Longrightarrow> g (n + i) = g i"
proof -
  assume "c dvd n"
  then obtain k where "n = c * k" by blast
  moreover have "g (c * k + i) = g i" for k by (induction k) (use period [of "c * _ + i"] in \<open>auto simp: algebra_simps\<close>)
  ultimately show ?thesis by simp
qed

text \<open>Samples of a ring do not change when another ring is written.\<close>

lemma rd_kept:
  assumes "aligned (ws * c) b s" and "apart b sink" and "end_addr sink = addr sink + st_size sink"
    and "\<And>x. x < addr sink \<or> end_addr sink \<le> x \<Longrightarrow> mem' x = mem x"
  shows "rd mem' (after b s (i * ws)) = rd mem (after b s (i * ws))"
proof (rule reads)
  fix j assume "j < ws"
  note D = alignedD [OF aligned_dvd [OF assms(1), of ws, simplified]]
  have "ring_at (addr b) (st_size b) s (i * ws + j) = after b s (i * ws) + j"
    using D \<open>j < ws\<close> by (intro ring_at_step) auto
  then have "addr b \<le> after b s (i * ws) + j" "after b s (i * ws) + j < end_addr b"
    using ring_at_bounds [OF D(7), of "addr b" s "i * ws + j"] D(4) by auto
  then show "mem' (after b s (i * ws) + j) = mem (after b s (i * ws) + j)"
    using assms(2,3) by (intro assms(4)) (auto simp: apart_def)
qed

lemma outputs_kept:
  assumes "list_all2 (aligned (ws * c)) sources srcs" and "\<forall>b\<in>set sources. apart b sink" and "end_addr sink = addr sink + st_size sink"
    and "\<And>x. x < addr sink \<or> end_addr sink \<le> x \<Longrightarrow> mem' x = mem x"
  shows "outputs g rd ws sources srcs mem' k = outputs g rd ws sources srcs mem k"
proof -
  have "map2 (\<lambda>b s. rd mem' (after b s (i * ws))) sources srcs = map2 (\<lambda>b s. rd mem (after b s (i * ws))) sources srcs" for i
    using assms(1,2) by (induction rule: list_all2_induct) (auto intro: rd_kept [OF _ _ assms(3,4)])
  then show ?thesis by (simp only: outputs_def)
qed

lemma outputs_split:
  assumes "c dvd n" and "length sources = length srcs"
  shows "outputs g rd ws sources srcs mem (n + k) =
    outputs g rd ws sources srcs mem n @ outputs g rd ws sources (map2 (\<lambda>b s. after b s (n * ws)) sources srcs) mem k"
proof -
  have move: "map2 (\<lambda>b s. rd mem (after b s (i * ws))) sources (map2 (\<lambda>b s. after b s (n * ws)) sources srcs) =
      map2 (\<lambda>b s. rd mem (after b s ((n + i) * ws))) sources srcs" for i
    using assms(2) by (induction sources srcs rule: list_induct2) (auto simp: ring_at_plus algebra_simps)
  have "[0..<n + k] = [0..<n] @ map (\<lambda>i. n + i) [0..<k]" using upt_add_eq_append [of 0 n k] map_add_upt [of n k] by (simp add: add.commute)
  then show ?thesis using period_dvd [OF assms(1)] by (simp add: outputs_def move comp_def)
qed

text \<open>One iteration of either loop.\<close>

lemma piece_written:
  assumes src: "list_all2 (aligned (ws * c)) sources srcs" and snk: "aligned (wd * c) sink dst"
    and ap: "\<forall>b\<in>set sources. apart b sink" and n: "c dvd n" "dst + n * wd \<le> end_addr sink"
    and fit: "list_all2 (\<lambda>b s. s + n * ws \<le> end_addr b) sources srcs"
  shows "ring_written (addr sink) (st_size sink) dst (encode wd (outputs g rd ws sources srcs mem n)) mem (piece mem srcs dst n)"
proof -
  note K = alignedD [OF snk]
  have clear: "\<forall>s\<in>set srcs. s + n * ws \<le> dst \<or> dst + n * wd \<le> s"
    using src fit ap
  proof (induction rule: list_all2_induct)
    case (Cons b bs s ss)
    have "s + n * ws \<le> dst \<or> dst + n * wd \<le> s"
      using Cons.prems alignedD [OF Cons.hyps(1)] K n(2) by (auto simp: apart_def)
    then show ?case using Cons by simp
  qed simp
  have lin: "map (\<lambda>s. rd mem (s + i * ws)) srcs = map2 (\<lambda>b s. rd mem (after b s (i * ws))) sources srcs" if "i < n" for i
    using src fit
  proof (induction rule: list_all2_induct)
    case (Cons b bs s ss)
    have "i * ws < n * ws" using that sizes by simp
    moreover have "s + n * ws \<le> end_addr b" using Cons.prems by simp
    ultimately have "s + i * ws < addr b + st_size b" using alignedD(4) [OF Cons.hyps(1)] by linarith
    then have "after b s (i * ws) = s + i * ws" using alignedD [OF Cons.hyps(1)] by (intro ring_at_small) auto
    then show ?case using Cons by simp
  qed simp
  have "map (\<lambda>i. g i (map (\<lambda>s. rd mem (s + i * ws)) srcs)) [0..<n] = outputs g rd ws sources srcs mem n"
    unfolding outputs_def by (intro map_cong refl arg_cong [where f = "g _"] lin) simp
  then have "piece mem srcs dst n = write_bytes mem dst (encode wd (outputs g rd ws sources srcs mem n))"
    using piece [OF n(1) clear] by simp
  then show ?thesis using K n(2) by (simp add: ring_written_linear)
qed

lemma step_written:
  assumes src: "list_all2 (aligned (ws * c)) sources srcs" and snk: "aligned (wd * c) sink dst"
    and ap: "\<forall>b\<in>set sources. apart b sink" and n: "c dvd n" "dst + n * wd \<le> end_addr sink" "n \<le> remaining"
    and fit: "list_all2 (\<lambda>b s. s + n * ws \<le> end_addr b) sources srcs" "remaining * wd \<le> st_size sink"
    and rest: "ring_written (addr sink) (st_size sink) (after sink dst (n * wd))
      (encode wd (outputs g rd ws sources (map2 (\<lambda>b s. after b s (n * ws)) sources srcs) (piece mem srcs dst n) (remaining - n)))
      (piece mem srcs dst n) mem'"
  shows "ring_written (addr sink) (st_size sink) dst (encode wd (outputs g rd ws sources srcs mem remaining)) mem mem'"
proof -
  note K = alignedD [OF snk] and w = piece_written [OF src snk ap n(1,2) fit(1), of mem]
  have same: "piece mem srcs dst n x = mem x" if "x < addr sink \<or> end_addr sink \<le> x" for x
    using ring_written_outside [OF w K(7)] that K(4) by simp
  have "list_all2 (aligned (ws * c)) sources (map2 (\<lambda>b s. after b s (n * ws)) sources srcs)"
    by (rule aligned_all_after [OF src]) (use n(1) in simp)
  note kept = outputs_kept [OF this ap K(4) same]
  have "n * wd + (remaining - n) * wd \<le> st_size sink" using n(3) fit(2) by (simp flip: add_mult_distrib)
  with ring_written_compose [OF w] rest
  have "ring_written (addr sink) (st_size sink) dst (encode wd (outputs g rd ws sources srcs mem n) @
      encode wd (outputs g rd ws sources (map2 (\<lambda>b s. after b s (n * ws)) sources srcs) mem (remaining - n))) mem mem'"
    by (simp add: kept)
  moreover have "outputs g rd ws sources srcs mem n @
      outputs g rd ws sources (map2 (\<lambda>b s. after b s (n * ws)) sources srcs) mem (remaining - n) = outputs g rd ws sources srcs mem remaining"
    using outputs_split [OF n(1) list_all2_lengthD [OF src], of mem "remaining - n"] n(3) by simp
  ultimately show ?thesis by (metis encode_append)
qed

lemma process_loop_written:
  assumes "\<forall>b\<in>set sources. apart b sink"
    and "list_all2 (aligned (ws * c)) sources srcs" and "aligned (wd * c) sink dst" and "c dvd remaining" and "remaining * wd \<le> st_size sink"
  shows "\<exists>mem'. process_loop piece ws wd sources sink mem srcs dst remaining = Some (Done mem') \<and>
    ring_written (addr sink) (st_size sink) dst (encode wd (outputs g rd ws sources srcs mem remaining)) mem mem'"
  using assms(2-)
proof (induction remaining arbitrary: mem srcs dst rule: less_induct)
  case (less remaining)
  show ?case
  proof (cases "remaining = 0")
    case True
    then show ?thesis by (subst process_loop.simps) (simp add: outputs_def ring_written_def)
  next
    case False
    note K = alignedD [OF less.prems(2)] and R = aligned_rest [OF less.prems(2) sizes(2,3)]
    let ?q = "(end_addr sink - dst) div wd"
    have "0 < min remaining ?q" "c dvd min remaining ?q" using False R less.prems(3) by (auto simp: min_def)
    then obtain n where n: "least_without_wrap ws sources srcs (min remaining ?q) = Done n" "0 < n" "n \<le> min remaining ?q" "c dvd n"
      "list_all2 (\<lambda>b s. s + n * ws \<le> end_addr b) sources srcs" using least_aligned [OF less.prems(1) sizes(1,3)] by blast
    have "n * wd \<le> ?q * wd" using n(3) by simp
    then have nwd: "dst + n * wd \<le> end_addr sink" "n * wd \<le> st_size sink" using R(1) K(2-4) by linarith+
    let ?srcs = "map2 (\<lambda>b s. after b s (n * ws)) sources srcs" and ?dst = "after sink dst (n * wd)" and ?m = "piece mem srcs dst n"
    have "\<forall>b\<in>set sources. n * ws \<le> st_size b" using less.prems(1) n(5)
    proof (induction rule: list_all2_induct)
      case (Cons b bs s ss)
      have "n * ws \<le> st_size b" using Cons.prems alignedD(2,4) [OF Cons.hyps(1)] by auto
      then show ?case using Cons by simp
    qed simp
    note ws = wrap_all_aligned [OF less.prems(1) this] and wd = wrap_aligned [OF less.prems(2) nwd(2)]
    have step: "process_loop piece ws wd sources sink mem srcs dst remaining =
        process_loop piece ws wd sources sink ?m ?srcs ?dst (remaining - n)"
      using False K(3,4) n(1) ws wd by (subst process_loop.simps) (simp add: audio_stream_bytes_without_wrap_def)
    have "remaining - n < remaining" "c dvd remaining - n" "(remaining - n) * wd \<le> st_size sink"
      using n less.prems False by (auto simp: diff_mult_distrib)
    moreover have "list_all2 (aligned (ws * c)) sources ?srcs" "aligned (wd * c) sink ?dst"
      using n(4) by (auto intro: aligned_all_after [OF less.prems(1)] aligned_after [OF less.prems(2)])
    ultimately obtain m' where m': "process_loop piece ws wd sources sink ?m ?srcs ?dst (remaining - n) = Some (Done m')"
      "ring_written (addr sink) (st_size sink) ?dst (encode wd (outputs g rd ws sources ?srcs ?m (remaining - n))) ?m m'"
      using less.IH [of "remaining - n" ?srcs ?dst ?m] by blast
    have "n \<le> remaining" using n(3) by simp
    from step_written [OF less.prems(1,2) assms(1) n(4) nwd(1) this n(5) less.prems(4) m'(2)] step m'(1) show ?thesis by auto
  qed
qed

lemma convert_loop_written:
  assumes "apart source sink" and "aligned (ws * c) source src" and "aligned (wd * c) sink dst"
    and "audio_stream_wrap source src0 = Done src" and "audio_stream_wrap sink dst0 = Done dst"
    and "c dvd remaining" and "remaining * wd \<le> st_size sink"
  shows "\<exists>mem'. convert_loop piece ws wd source sink mem src0 dst0 remaining = Some (Done mem') \<and>
    ring_written (addr sink) (st_size sink) dst (encode wd (outputs g rd ws [source] [src] mem remaining)) mem mem'"
  using assms(2-)
proof (induction remaining arbitrary: mem src dst src0 dst0 rule: less_induct)
  case (less remaining)
  show ?case
  proof (cases "remaining = 0")
    case True
    then show ?thesis by (subst convert_loop.simps) (simp add: outputs_def ring_written_def)
  next
    case False
    note S = alignedD [OF less.prems(1)] and RS = aligned_rest [OF less.prems(1) sizes(1,3)]
    note K = alignedD [OF less.prems(2)] and RK = aligned_rest [OF less.prems(2) sizes(2,3)]
    define n where "n = min (min remaining ((end_addr source - src) div ws)) ((end_addr sink - dst) div wd)"
    have n: "0 < n" "c dvd n" "n \<le> remaining" using False RS RK less.prems(5) by (auto simp: n_def min_def)
    have "n * ws \<le> (end_addr source - src) div ws * ws" "n * wd \<le> (end_addr sink - dst) div wd * wd"
      by (intro mult_le_mono1; simp add: n_def min_le_iff_disj)+
    then have fit: "src + n * ws \<le> end_addr source" "n * ws \<le> st_size source" "dst + n * wd \<le> end_addr sink" "n * wd \<le> st_size sink"
      unfolding RS(1) RK(1) using S(2-4) K(2-4) by linarith+
    have le: "src \<le> end_addr source" "dst \<le> end_addr sink" using S(3,4) K(3,4) by auto
    let ?src = "after source src (n * ws)" and ?dst = "after sink dst (n * wd)" and ?m = "piece mem [src] dst n"
    have step: "convert_loop piece ws wd source sink mem src0 dst0 remaining =
        convert_loop piece ws wd source sink ?m (u32 (src + n * ws)) (u32 (dst + n * wd)) (remaining - n)"
      using False le less.prems(3,4)
      by (subst convert_loop.simps) (simp add: audio_stream_bytes_without_wrap_def flip: n_def)
    have "remaining - n < remaining" "c dvd remaining - n" "(remaining - n) * wd \<le> st_size sink"
      using n less.prems False by (auto simp: diff_mult_distrib)
    moreover have "aligned (ws * c) source ?src" "aligned (wd * c) sink ?dst"
      using n(2) by (auto intro: aligned_after [OF less.prems(1)] aligned_after [OF less.prems(2)])
    ultimately obtain m' where
      m': "convert_loop piece ws wd source sink ?m (u32 (src + n * ws)) (u32 (dst + n * wd)) (remaining - n) = Some (Done m')"
      "ring_written (addr sink) (st_size sink) ?dst (encode wd (outputs g rd ws [source] [?src] ?m (remaining - n))) ?m m'"
      using less.IH [of "remaining - n" ?src ?dst "u32 (src + n * ws)" "u32 (dst + n * wd)" ?m]
        wrap_aligned [OF less.prems(1) fit(2)] wrap_aligned [OF less.prems(2) fit(4)] by blast
    have "ring_written (addr sink) (st_size sink) dst (encode wd (outputs g rd ws [source] [src] mem remaining)) mem m'"
      by (rule step_written [OF _ less.prems(2) _ n(2) fit(3) n(3) _ less.prems(6)])
        (use less.prems(1) assms(1) fit(1) m'(2) in auto)
    with step m'(1) show ?thesis by auto
  qed
qed

end

section \<open>Pieces that treat all samples alike\<close>

lemma map_piece_written:
  assumes "\<And>mem mem' p. (\<And>j. j < ws \<Longrightarrow> mem (p + j) = mem' (p + j)) \<Longrightarrow> rd mem p = rd mem' p" and "0 < ws"
    and "\<forall>s\<in>set srcs. s + n * ws \<le> dst \<or> dst + n * wd \<le> s"
  shows "map_piece k rd ws wd mem srcs dst n = write_bytes mem dst (encode wd (map (\<lambda>i. k (map (\<lambda>s. rd mem (s + i * ws)) srcs)) [0..<n]))"
  using assms(3)
proof (induction n arbitrary: mem srcs dst)
  case (Suc n)
  let ?v = "k (map (rd mem) srcs)"
  let ?m = "write_bytes mem dst (sample_bytes wd ?v)"
  have same: "rd ?m (s + ws + i * ws) = rd mem (s + ws + i * ws)" if "s \<in> set srcs" "i < n" for s i
  proof (rule assms(1))
    fix j assume "j < ws"
    have "ws + i * ws + ws \<le> Suc n * ws" using that(2) by (metis Suc_leI add.commute mult_Suc mult_le_mono1 Suc_le_mono)
    then show "?m (s + ws + i * ws + j) = mem (s + ws + i * ws + j)"
      using Suc.prems that(1) \<open>j < ws\<close> by (intro write_bytes_other) (fastforce simp: algebra_simps)
  qed
  have "\<forall>s\<in>set (map (\<lambda>s. s + ws) srcs). s + n * ws \<le> dst + wd \<or> dst + wd + n * wd \<le> s" using Suc.prems by fastforce
  note IH = Suc.IH [OF this, of ?m]
  have vals: "map (\<lambda>i. k (map (\<lambda>s. rd ?m (s + i * ws)) (map (\<lambda>s. s + ws) srcs))) [0..<n] =
      map (\<lambda>i. k (map (\<lambda>s. rd mem (s + Suc i * ws)) srcs)) [0..<n]" (is "?l = ?r")
    using same by (auto simp: add.assoc intro!: arg_cong [where f = k])
  have "map_piece k rd ws wd mem srcs dst (Suc n) = write_bytes ?m (dst + wd) (encode wd ?l)"
    using IH by (simp add: store_s_def)
  also have "\<dots> = write_bytes mem dst (encode wd (?v # ?r))"
    unfolding vals using write_bytes_append [of mem dst "sample_bytes wd ?v"] by simp
  also have "?v # ?r = map (\<lambda>i. k (map (\<lambda>s. rd mem (s + i * ws)) srcs)) (0 # map Suc [0..<n])" by simp
  also have "0 # map Suc [0..<n] = [0..<Suc n]" by (simp add: upt_conv_Cons map_Suc_upt del: upt_Suc)
  finally show ?case .
qed simp

lemma map_piece_processing:
  assumes "\<And>mem mem' p. (\<And>j. j < ws \<Longrightarrow> mem (p + j) = mem' (p + j)) \<Longrightarrow> rd mem p = rd mem' p" and "0 < ws" and "0 < wd"
  shows "ring_processing (map_piece k rd ws wd) (\<lambda>_. k) rd ws wd 1"
proof unfold_locales
  show "rd mem p = rd mem' p" if "\<And>j. j < ws \<Longrightarrow> mem (p + j) = mem' (p + j)" for mem mem' p by (rule assms(1)) (rule that)
  show "map_piece k rd ws wd mem srcs dst n = write_bytes mem dst (encode wd (map (\<lambda>i. k (map (\<lambda>s. rd mem (s + i * ws)) srcs)) [0..<n]))"
    if "\<forall>s\<in>set srcs. s + n * ws \<le> dst \<or> dst + n * wd \<le> s" for mem srcs dst n
    by (rule map_piece_written [OF assms(1,2) that])
qed (simp_all add: assms)

end
