(* ===== verification/PcmConverter.thy ===== *)
theory PcmConverter
  imports SampleLoops
begin

text \<open>
  Conversion between sample formats, \<^verbatim>\<open>src/audio/pcm_converter/pcm_converter_generic.c\<close> and \<^verbatim>\<open>pcm_converter.c\<close>. All functions with a
  loop of their own are \<open>convert_loop\<close> with a kernel for one sample; the floating point functions go through
  \<^verbatim>\<open>pcm_convert_as_linear\<close>. The C result is always the number of samples.
\<close>

section \<open>Conversions with a loop of their own\<close>

definition pcm_convert :: "(int \<Rightarrow> int) \<Rightarrow> (memory \<Rightarrow> nat \<Rightarrow> int) \<Rightarrow> nat \<Rightarrow> nat \<Rightarrow> audio_stream \<Rightarrow> nat \<Rightarrow> audio_stream \<Rightarrow> nat \<Rightarrow> nat \<Rightarrow>
    memory \<Rightarrow> memory outcome option" where
  "pcm_convert k rd ws wd source ioffset sink ooffset samples mem =
     convert_loop (map_piece (\<lambda>xs. k (hd xs)) rd ws wd) ws wd source sink mem
       (u32 (r_ptr source + ioffset * ws)) (u32 (w_ptr sink + ooffset * wd)) samples"

definition load_u8 :: "memory \<Rightarrow> nat \<Rightarrow> int" where
  "load_u8 mem p = int (load_u 1 mem p)"

definition pcm_convert_u8_to_s32 where
  "pcm_convert_u8_to_s32 = pcm_convert (\<lambda>x. s32 ((- 128 + x) * 2 ^ 24)) load_u8 1 4"

definition pcm_convert_s32_to_u8 where
  "pcm_convert_s32_to_u8 = pcm_convert (\<lambda>x. sat_int8 (Q_SHIFT_RND x 24 0) - (- 128)) (load_s 4) 4 1"

definition pcm_convert_s16_to_s24 where
  "pcm_convert_s16_to_s24 = pcm_convert (\<lambda>x. s32 (x * 2 ^ 8)) (load_s 2) 2 4"

definition pcm_convert_s24_to_s16 where
  "pcm_convert_s24_to_s16 = pcm_convert (\<lambda>x. sat_int16 (Q_SHIFT_RND (sign_extend_s24 x) 23 15)) (load_s 4) 4 2"

definition pcm_convert_s16_to_s32 where
  "pcm_convert_s16_to_s32 = pcm_convert (\<lambda>x. s32 (x * 2 ^ 16)) (load_s 2) 2 4"

definition pcm_convert_s32_to_s16 where
  "pcm_convert_s32_to_s16 = pcm_convert (\<lambda>x. sat_int16 (Q_SHIFT_RND x 31 15)) (load_s 4) 4 2"

definition pcm_convert_s24_to_s32 where
  "pcm_convert_s24_to_s32 = pcm_convert (\<lambda>x. s32 (x * 2 ^ 8)) (load_s 4) 4 4"

definition pcm_convert_s32_to_s24 where
  "pcm_convert_s32_to_s24 = pcm_convert (\<lambda>x. sat_int24 (Q_SHIFT_RND x 31 23)) (load_s 4) 4 4"

definition pcm_convert_s32_to_s24_be where
  "pcm_convert_s32_to_s24_be = pcm_convert (\<lambda>x. s32 (sat_int24 (Q_SHIFT_RND x 31 23) * 2 ^ 8)) (load_s 4) 4 4"

section \<open>Conversions between containers\<close>

definition pcm_convert_s16_c16_to_s16_c32 where
  "pcm_convert_s16_c16_to_s16_c32 = pcm_convert (\<lambda>x. x) (load_s 2) 2 4"

definition pcm_convert_s16_c32_to_s16_c16 where
  "pcm_convert_s16_c32_to_s16_c16 = pcm_convert (\<lambda>x. x AND 65535) (load_s 4) 4 2"

definition pcm_convert_s16_c32_to_s32_c32 where
  "pcm_convert_s16_c32_to_s32_c32 = pcm_convert (\<lambda>x. s32 (x * 2 ^ 16)) (load_s 4) 4 4"

definition pcm_convert_s32_c32_to_s16_c32 where
  "pcm_convert_s32_c32_to_s16_c32 = pcm_convert (\<lambda>x. sat_int16 (Q_SHIFT_RND x 31 15)) (load_s 4) 4 4"

definition pcm_convert_s16_c32_to_s24_c32 where
  "pcm_convert_s16_c32_to_s24_c32 = pcm_convert (\<lambda>x. s32 (x * 2 ^ 8)) (load_s 4) 4 4"

definition pcm_convert_s24_c32_to_s16_c32 where
  "pcm_convert_s24_c32_to_s16_c32 = pcm_convert (\<lambda>x. sat_int16 (Q_SHIFT_RND (sign_extend_s24 (x AND 16777215)) 23 15)) (load_s 4) 4 4"

text \<open>Three bytes in the upper part of a word: the \<^verbatim>\<open>|\<close> of the source joins disjoint bits.\<close>

definition load_c24 :: "memory \<Rightarrow> nat \<Rightarrow> int" where
  "load_c24 mem p = s32 (int (mem (p + 2) mod 256) * 2 ^ 24 + int (mem (p + 1) mod 256) * 2 ^ 16 + int (mem p mod 256) * 2 ^ 8)"

definition pcm_convert_s24_c24_to_s24_c32 where
  "pcm_convert_s24_c24_to_s24_c32 = pcm_convert (drop_bit 8) load_c24 3 4"

definition pcm_convert_s24_c32_to_s24_c24 where
  "pcm_convert_s24_c32_to_s24_c24 = pcm_convert (\<lambda>x. x) (load_s 4) 4 3"

text \<open>
  The packing of two samples into three half words for the link DMA. \<^verbatim>\<open>*src & 0xFF << 8\<close> is \<^verbatim>\<open>*src & (0xFF << 8)\<close> in C.
\<close>

definition link_words :: "int \<Rightarrow> int \<Rightarrow> int list" where
  "link_words x y = [drop_bit 8 x AND 65535, (x AND 65280) OR (drop_bit 16 y AND 255), y AND 65535]"

fun link_piece :: "memory \<Rightarrow> nat \<Rightarrow> nat \<Rightarrow> nat \<Rightarrow> nat \<Rightarrow> memory \<times> nat \<times> nat \<times> nat" where
  "link_piece mem src dst i 0 = (mem, src, dst, i)"
| "link_piece mem src dst i (Suc n) =
     link_piece (write_bytes mem dst (encode 2 (link_words (load_s 4 mem src) (load_s 4 mem (src + 4))))) (src + 8) (dst + 6) (i + 2) (n - 1)"

partial_function (option) link_loop ::
    "audio_stream \<Rightarrow> audio_stream \<Rightarrow> memory \<Rightarrow> nat \<Rightarrow> nat \<Rightarrow> nat \<Rightarrow> nat \<Rightarrow> nat \<Rightarrow> (memory \<times> nat \<times> nat \<times> nat \<times> nat) outcome option" where
  "link_loop source sink mem src dst i n remaining =
     (if remaining = 0 then Some (Done (mem, src, dst, i, n))
      else
        case obind (audio_stream_wrap source src) (\<lambda>s.
             obind (audio_stream_wrap sink dst) (\<lambda>d.
             obind (audio_stream_bytes_without_wrap source s) (\<lambda>ms.
             obind (audio_stream_bytes_without_wrap sink d) (\<lambda>md.
               Done (s, d, min (min remaining (ms div 4)) (md div 3)))))) of
          Done (s, d, k) \<Rightarrow>
            (case link_piece mem s d 0 k of
               (mem', src', dst', i') \<Rightarrow> link_loop source sink mem' (u32 src') (u32 dst') i' k (remaining - k))
        | Panic \<Rightarrow> Some Panic
        | OutOfBounds \<Rightarrow> Some OutOfBounds)"

definition pcm_convert_s24_c32_to_s24_c24_link_gtw ::
    "audio_stream \<Rightarrow> nat \<Rightarrow> audio_stream \<Rightarrow> nat \<Rightarrow> nat \<Rightarrow> memory \<Rightarrow> memory outcome option" where
  "pcm_convert_s24_c32_to_s24_c24_link_gtw source ioffset sink ooffset samples mem =
     (if ooffset \<noteq> 0 then Some Panic
      else map_option (\<lambda>r. obind r (\<lambda>(mem, src, dst, i, n).
             if n < i
             then let x = load_s 4 mem src in Done (write_bytes mem dst (encode 2 [drop_bit 8 x AND 65535, x AND 65280]))
             else Done mem))
           (link_loop source sink mem (u32 (r_ptr source + ioffset * 4)) (w_ptr sink) 0 0 samples))"

section \<open>Floating point\<close>

text \<open>IEEE 754 values are handled as the 32-bit integers that hold them.\<close>

definition pcm_shift :: "int \<Rightarrow> int \<Rightarrow> int" where
  "pcm_shift d a0 =
     (let a = (if a0 > 32 then 32 else if a0 < - 32 then - 32 else a0);
          dd = (if a \<ge> 0 then d * 2 ^ nat a else drop_bit (nat (- a)) d)
      in s32 (if dd > 2147483647 then 2147483647 else dd))"

definition pcm_convert_f_to_i :: "int \<Rightarrow> int \<Rightarrow> int" where
  "pcm_convert_f_to_i src pow =
     (let exponent = (drop_bit 23 src AND 255) + pow - 127;
          mantissa = 8388608 OR (8388607 AND src);
          dst0 = pcm_shift mantissa (exponent - 23);
          dst1 = (if exponent - 22 < 9 \<or> src < 0 then s32 (dst0 + (pcm_shift mantissa (exponent - 22) AND 1)) else dst0)
      in s32 ((dst1 XOR drop_bit 31 src) + (if src < 0 then 1 else 0)))"

text \<open>\<^verbatim>\<open>PCM_ABS32\<close>, an unsigned value.\<close>

definition pcm_abs32 :: "int \<Rightarrow> nat" where
  "pcm_abs32 x = u32 (nat ((x XOR drop_bit 31 x) mod 2 ^ 32) + (if x < 0 then 1 else 0))"

definition pcm_convert_i_to_f :: "int \<Rightarrow> int \<Rightarrow> int" where
  "pcm_convert_i_to_f src pow =
     (if src = 0 then 0
      else
        let abs_clz = int (clz (pcm_abs32 src));
            exponent = (127 + 31 - abs_clz - pow) AND 255;
            mantissa = pcm_shift (s32 (int (pcm_abs32 src))) (23 - 31 + abs_clz) AND 8388607
        in s32 ((if src < 0 then 2 ^ 31 else 0) + exponent * 2 ^ 23 + mantissa))"

text \<open>
  \<^verbatim>\<open>pcm_convert_as_linear\<close> with the sample sizes of the two streams, all of them powers of two in the conversions that use it. The first
  component of the result is the memory, the second the C result.
\<close>

definition pcm_convert_as_linear ::
    "(memory \<Rightarrow> nat list \<Rightarrow> nat \<Rightarrow> nat \<Rightarrow> memory) \<Rightarrow> audio_stream \<Rightarrow> nat \<Rightarrow> audio_stream \<Rightarrow> nat \<Rightarrow> nat \<Rightarrow> memory \<Rightarrow> (memory \<times> int) outcome option" where
  "pcm_convert_as_linear converter source ioffset sink ooffset samples mem =
     (let ws = audio_stream_sample_bytes source; wd = audio_stream_sample_bytes sink
      in case obind (audio_stream_get_frag source (r_ptr source) ioffset ws) (\<lambda>r.
              obind (audio_stream_get_frag sink (w_ptr sink) ooffset wd) (\<lambda>w. Done (r, w))) of
           Done (r, w) \<Rightarrow>
             if audio_stream_get_avail_samples source < u32 (samples + ioffset) then Some (Done (mem, - EINVAL))
             else if audio_stream_get_free_samples sink < u32 (samples + ooffset) then Some (Done (mem, - EINVAL))
             else map_option (\<lambda>x. obind x (\<lambda>m. Done (m, s32 (int samples))))
                    (process_loop converter ws wd [source] sink mem [r] w samples)
         | Panic \<Rightarrow> Some Panic
         | OutOfBounds \<Rightarrow> Some OutOfBounds)"

definition lin :: "(int \<Rightarrow> int) \<Rightarrow> nat \<Rightarrow> nat \<Rightarrow> memory \<Rightarrow> nat list \<Rightarrow> nat \<Rightarrow> nat \<Rightarrow> memory" where
  "lin k ws wd = map_piece (\<lambda>xs. k (hd xs)) (load_s ws) ws wd"

definition pcm_convert_s16_to_f where
  "pcm_convert_s16_to_f = pcm_convert_as_linear (lin (\<lambda>x. pcm_convert_i_to_f x 15) 2 4)"

definition pcm_convert_f_to_s16 where
  "pcm_convert_f_to_s16 = pcm_convert_as_linear (lin (\<lambda>x. sat_int16 (pcm_convert_f_to_i x 15)) 4 2)"

definition pcm_convert_s24_to_f where
  "pcm_convert_s24_to_f = pcm_convert_as_linear (lin (\<lambda>x. pcm_convert_i_to_f (sign_extend_s24 x) 23) 4 4)"

definition pcm_convert_f_to_s24 where
  "pcm_convert_f_to_s24 = pcm_convert_as_linear (lin (\<lambda>x. sat_int24 (pcm_convert_f_to_i x 23)) 4 4)"

definition pcm_convert_s32_to_f where
  "pcm_convert_s32_to_f = pcm_convert_as_linear (lin (\<lambda>x. pcm_convert_i_to_f x 31) 4 4)"

definition pcm_convert_f_to_s32 where
  "pcm_convert_f_to_s32 = pcm_convert_as_linear (lin (\<lambda>x. pcm_convert_f_to_i x 31) 4 4)"

section \<open>What a conversion writes\<close>

text \<open>The samples of a ring from a pointer on, and the result of a routine that writes encoded samples to a ring.\<close>

definition samples_at :: "(memory \<Rightarrow> nat \<Rightarrow> int) \<Rightarrow> nat \<Rightarrow> audio_stream \<Rightarrow> nat \<Rightarrow> memory \<Rightarrow> nat \<Rightarrow> int list" where
  "samples_at rd ws b p mem k = map (\<lambda>i. rd mem (after b p (i * ws))) [0..<k]"

definition writes :: "memory outcome option \<Rightarrow> audio_stream \<Rightarrow> nat \<Rightarrow> nat list \<Rightarrow> memory \<Rightarrow> bool" where
  "writes r sink p data mem \<longleftrightarrow> (\<exists>mem'. r = Some (Done mem') \<and> ring_written (addr sink) (st_size sink) p data mem mem')"

lemma length_samples_at [simp]: "length (samples_at rd ws b p mem k) = k"
  by (simp add: samples_at_def)

lemma outputs_single: "outputs (\<lambda>_ xs. k (hd xs)) rd ws [b] [p] mem n = map k (samples_at rd ws b p mem n)"
  by (simp add: outputs_def samples_at_def)

definition reads_only :: "nat \<Rightarrow> (memory \<Rightarrow> nat \<Rightarrow> int) \<Rightarrow> bool" where
  "reads_only ws rd \<longleftrightarrow> (\<forall>mem mem' p. (\<forall>j<ws. mem (p + j) = mem' (p + j)) \<longrightarrow> rd mem p = rd mem' p)"

lemma reads_onlyI [simp]: "reads_only w (load_s w)" "reads_only (Suc 0) load_u8" "reads_only 3 load_c24"
proof -
  show "reads_only w (load_s w)" by (auto simp: reads_only_def intro: load_s_cong)
  show "reads_only (Suc 0) load_u8" by (simp add: reads_only_def load_u8_def)
  have "load_c24 mem p = load_c24 mem' p" if "\<forall>j<3. mem (p + j) = mem' (p + j)" for mem mem' :: memory and p
    using that [rule_format, of 0] that [rule_format, of 1] that [rule_format, of 2] by (simp add: load_c24_def)
  then show "reads_only 3 load_c24" by (simp add: reads_only_def)
qed

lemma single_processing: "reads_only ws rd \<Longrightarrow> 0 < ws \<Longrightarrow> 0 < wd \<Longrightarrow> ring_processing (map_piece (\<lambda>xs. k (hd xs)) rd ws wd) (\<lambda>_ xs. k (hd xs)) rd ws wd 1"
  by (rule map_piece_processing) (auto simp: reads_only_def)

lemma pcm_convert_writes:
  assumes "reads_only ws rd" and "0 < ws" and "0 < wd"
    and "aligned ws source (r_ptr source)" and "aligned wd sink (w_ptr sink)" and "apart source sink"
    and "ioffset * ws \<le> st_size source" and "ooffset * wd \<le> st_size sink" and "samples * wd \<le> st_size sink"
  shows "writes (pcm_convert k rd ws wd source ioffset sink ooffset samples mem) sink (after sink (w_ptr sink) (ooffset * wd))
    (encode wd (map k (samples_at rd ws source (after source (r_ptr source) (ioffset * ws)) mem samples))) mem"
  using ring_processing.convert_loop_written [OF single_processing [OF assms(1-3)] assms(6), simplified,
      OF aligned_after [OF assms(4)] aligned_after [OF assms(5)] wrap_aligned [OF assms(4,7)] wrap_aligned [OF assms(5,8)] assms(9)]
  by (simp add: pcm_convert_def writes_def outputs_single)

end
