(* ===== verification/PcmConverter_Props.thy ===== *)
theory PcmConverter_Props
  imports PcmConverter
begin

text \<open>
  The conversions against their meaning on numbers: a table of reference functions, lossless pairs, floating point, and what the packing for
  the link DMA does to a sample.
\<close>

section \<open>Kernels\<close>

lemma load_s_range: "0 < w \<Longrightarrow> - (2 ^ (8 * w - 1)) \<le> load_s w mem p \<and> load_s w mem p < 2 ^ (8 * w - 1)"
  using sext_range [of "8 * w"] by (simp add: load_s_def)

lemma load_s2_range: "- 32768 \<le> load_s 2 mem p" "load_s 2 mem p < 32768"
  using load_s_range [of 2 mem p] by simp_all

lemma load_s4_range: "- 2147483648 \<le> load_s 4 mem p" "load_s 4 mem p < 2147483648"
  using load_s_range [of 4 mem p] by simp_all

lemma sat_round:
  assumes "- 2147483648 \<le> x" and "x < 2147483648"
  shows "sat_int16 (Q_SHIFT_RND x 31 15) = clamp 16 (round_shift 16 x)"
    and "sat_int24 (Q_SHIFT_RND x 31 23) = clamp 24 (round_shift 8 x)"
    and "sat_int8 (Q_SHIFT_RND x 24 0) = clamp 8 (round_shift 24 x)"
proof -
  have "- (2 ^ 31) \<le> round_shift s x \<and> round_shift s x < 2 ^ 31" if "1 < s" "s \<le> 31" for s
  proof -
    have "x < 2 ^ 31" "- (2 ^ 31) \<le> x" "(2 :: int) ^ (31 - s) * 2 ^ s = 2 ^ 31" using assms that by (auto simp flip: power_add)
    then have "- (2 ^ (31 - s)) \<le> round_shift s x" "round_shift s x \<le> 2 ^ (31 - s)"
      using round_shift_bounds [of s "31 - s" x] that by auto
    moreover have "(2 :: int) ^ (31 - s) < 2 ^ 31" using that by (intro power_strict_increasing) auto
    ultimately show ?thesis by linarith
  qed
  from this [of 16] this [of 8] this [of 24]
  show "sat_int16 (Q_SHIFT_RND x 31 15) = clamp 16 (round_shift 16 x)"
    "sat_int24 (Q_SHIFT_RND x 31 23) = clamp 24 (round_shift 8 x)" "sat_int8 (Q_SHIFT_RND x 24 0) = clamp 8 (round_shift 24 x)"
    by (simp_all add: Q_SHIFT_RND_round sat_clamp)
qed

lemma sat_round_24: "sat_int16 (Q_SHIFT_RND (sign_extend_s24 x) 23 15) = clamp 16 (round_shift 8 (sext 24 x))"
proof -
  have "- (2 ^ 15) * 2 ^ 8 \<le> sext 24 x" "sext 24 x < 2 ^ 15 * 2 ^ 8" using sext_range [of 24 x] by auto
  then have "- (2 ^ 15) \<le> round_shift 8 (sext 24 x)" "round_shift 8 (sext 24 x) \<le> 2 ^ 15"
    using round_shift_bounds [of 8 15 "sext 24 x"] by auto
  then show ?thesis by (simp add: sign_extend_s24_eq Q_SHIFT_RND_round sat_clamp)
qed

lemma and_mask: "x AND 65535 = x mod 2 ^ 16" "x AND 16777215 = x mod 2 ^ 24" for x :: int
  using take_bit_eq_mask [of 16 x] take_bit_eq_mask [of 24 x] by (simp_all add: take_bit_eq_mod mask_eq_exp_minus_1)

lemma load_c24_shift: "drop_bit 8 (load_c24 mem p) = load_s 3 mem p"
proof -
  have "load_u 3 mem p = mem p mod 256 + 256 * (mem (p + 1) mod 256 + 256 * (mem (p + 2) mod 256))" by (simp add: numeral_3_eq_3)
  then have "load_c24 mem p = s32 (int (load_u 3 mem p) * 2 ^ 8)" by (simp add: load_c24_def algebra_simps)
  then show ?thesis using sign_extend_s24_eq [of "int (load_u 3 mem p)"] by (simp add: load_s_def sign_extend_s24_def)
qed

lemma sample_bytes_mod: "v mod 2 ^ (8 * w) = v' mod 2 ^ (8 * w) \<Longrightarrow> sample_bytes w v = sample_bytes w v'"
  by (simp add: sample_bytes_def)

lemma encode_map_mod:
  assumes "length us = length vs" and "\<And>i. i < length us \<Longrightarrow> us ! i mod 2 ^ (8 * w) = vs ! i mod 2 ^ (8 * w)"
  shows "encode w us = encode w vs"
  using assms
proof (induction us vs rule: list_induct2)
  case (Cons u us v vs)
  have "sample_bytes w u = sample_bytes w v" using Cons.prems [of 0] by (intro sample_bytes_mod) simp
  moreover have "encode w us = encode w vs" using Cons.prems [of "Suc _"] by (intro Cons.IH) simp
  ultimately show ?case by simp
qed simp

section \<open>The table of conversions\<close>

text \<open>Conversion, size and reading of a source sample, size of a sink sample, and the value that is meant.\<close>

definition pcm_reference where
  "pcm_reference =
    [(pcm_convert_u8_to_s32, load_u8, 1, 4, \<lambda>x. (x - 128) * 2 ^ 24),
     (pcm_convert_s32_to_u8, load_s 4, 4, 1, \<lambda>x. clamp 8 (round_shift 24 x) + 128),
     (pcm_convert_s16_to_s24, load_s 2, 2, 4, \<lambda>x. x * 2 ^ 8),
     (pcm_convert_s24_to_s16, load_s 4, 4, 2, \<lambda>x. clamp 16 (round_shift 8 (sext 24 x))),
     (pcm_convert_s16_to_s32, load_s 2, 2, 4, \<lambda>x. x * 2 ^ 16),
     (pcm_convert_s32_to_s16, load_s 4, 4, 2, \<lambda>x. clamp 16 (round_shift 16 x)),
     (pcm_convert_s24_to_s32, load_s 4, 4, 4, \<lambda>x. x * 2 ^ 8),
     (pcm_convert_s32_to_s24, load_s 4, 4, 4, \<lambda>x. clamp 24 (round_shift 8 x)),
     (pcm_convert_s32_to_s24_be, load_s 4, 4, 4, \<lambda>x. clamp 24 (round_shift 8 x) * 2 ^ 8),
     (pcm_convert_s16_c16_to_s16_c32, load_s 2, 2, 4, \<lambda>x. x),
     (pcm_convert_s16_c32_to_s16_c16, load_s 4, 4, 2, \<lambda>x. x),
     (pcm_convert_s16_c32_to_s32_c32, load_s 4, 4, 4, \<lambda>x. x * 2 ^ 16),
     (pcm_convert_s32_c32_to_s16_c32, load_s 4, 4, 4, \<lambda>x. clamp 16 (round_shift 16 x)),
     (pcm_convert_s16_c32_to_s24_c32, load_s 4, 4, 4, \<lambda>x. x * 2 ^ 8),
     (pcm_convert_s24_c32_to_s16_c32, load_s 4, 4, 4, \<lambda>x. clamp 16 (round_shift 8 (sext 24 x))),
     (pcm_convert_s24_c24_to_s24_c32, load_s 3, 3, 4, \<lambda>x. x),
     (pcm_convert_s24_c32_to_s24_c24, load_s 4, 4, 3, \<lambda>x. x)]"

text \<open>A conversion agrees with a reference when their values agree in the stored bits.\<close>

definition agrees :: "(audio_stream \<Rightarrow> nat \<Rightarrow> audio_stream \<Rightarrow> nat \<Rightarrow> nat \<Rightarrow> memory \<Rightarrow> memory outcome option) \<Rightarrow>
    (memory \<Rightarrow> nat \<Rightarrow> int) \<Rightarrow> nat \<Rightarrow> nat \<Rightarrow> (int \<Rightarrow> int) \<Rightarrow> bool" where
  "agrees conv rd ws wd f \<longleftrightarrow> 0 < ws \<and> 0 < wd \<and> (\<exists>k rd'. conv = pcm_convert k rd' ws wd \<and> reads_only ws rd' \<and>
     (\<forall>mem p. k (rd' mem p) mod 2 ^ (8 * wd) = f (rd mem p) mod 2 ^ (8 * wd)))"

lemma agreesI: "conv = pcm_convert k rd' ws wd \<Longrightarrow> 0 < ws \<Longrightarrow> 0 < wd \<Longrightarrow> reads_only ws rd' \<Longrightarrow>
    (\<And>mem p. k (rd' mem p) mod 2 ^ (8 * wd) = f (rd mem p) mod 2 ^ (8 * wd)) \<Longrightarrow> agrees conv rd ws wd f"
  by (auto simp: agrees_def)

lemma s32_mod: "s32 x mod 2 ^ 32 = x mod 2 ^ 32"
  by (simp only: s32_sext sext_cong)

lemma kernels_agree:
  shows "agrees pcm_convert_u8_to_s32 load_u8 1 4 (\<lambda>x. (x - 128) * 2 ^ 24)"
    "agrees pcm_convert_s32_to_u8 (load_s 4) 4 1 (\<lambda>x. clamp 8 (round_shift 24 x) + 128)"
    "agrees pcm_convert_s16_to_s24 (load_s 2) 2 4 (\<lambda>x. x * 2 ^ 8)"
    "agrees pcm_convert_s24_to_s16 (load_s 4) 4 2 (\<lambda>x. clamp 16 (round_shift 8 (sext 24 x)))"
    "agrees pcm_convert_s16_to_s32 (load_s 2) 2 4 (\<lambda>x. x * 2 ^ 16)"
    "agrees pcm_convert_s32_to_s16 (load_s 4) 4 2 (\<lambda>x. clamp 16 (round_shift 16 x))"
    "agrees pcm_convert_s24_to_s32 (load_s 4) 4 4 (\<lambda>x. x * 2 ^ 8)"
    "agrees pcm_convert_s32_to_s24 (load_s 4) 4 4 (\<lambda>x. clamp 24 (round_shift 8 x))"
    "agrees pcm_convert_s32_to_s24_be (load_s 4) 4 4 (\<lambda>x. clamp 24 (round_shift 8 x) * 2 ^ 8)"
    "agrees pcm_convert_s16_c16_to_s16_c32 (load_s 2) 2 4 (\<lambda>x. x)"
    "agrees pcm_convert_s16_c32_to_s16_c16 (load_s 4) 4 2 (\<lambda>x. x)"
    "agrees pcm_convert_s16_c32_to_s32_c32 (load_s 4) 4 4 (\<lambda>x. x * 2 ^ 16)"
    "agrees pcm_convert_s32_c32_to_s16_c32 (load_s 4) 4 4 (\<lambda>x. clamp 16 (round_shift 16 x))"
    "agrees pcm_convert_s16_c32_to_s24_c32 (load_s 4) 4 4 (\<lambda>x. x * 2 ^ 8)"
    "agrees pcm_convert_s24_c32_to_s16_c32 (load_s 4) 4 4 (\<lambda>x. clamp 16 (round_shift 8 (sext 24 x)))"
    "agrees pcm_convert_s24_c24_to_s24_c32 (load_s 3) 3 4 (\<lambda>x. x)"
    "agrees pcm_convert_s24_c32_to_s24_c24 (load_s 4) 4 3 (\<lambda>x. x)"
proof -
  have sx: "sext 24 (x mod 16777216) = sext 24 x" for x using sext_mod [of 24 x] by simp
  have s32: "s32 x mod 4294967296 = x mod 4294967296" for x using s32_mod [of x] by simp
  show "agrees pcm_convert_u8_to_s32 load_u8 1 4 (\<lambda>x. (x - 128) * 2 ^ 24)"
    by (rule agreesI [OF pcm_convert_u8_to_s32_def]) (simp_all add: s32 algebra_simps)
  show "agrees pcm_convert_s32_to_u8 (load_s 4) 4 1 (\<lambda>x. clamp 8 (round_shift 24 x) + 128)"
    by (rule agreesI [OF pcm_convert_s32_to_u8_def]) (simp_all add: sat_round [OF load_s4_range])
  show "agrees pcm_convert_s16_to_s24 (load_s 2) 2 4 (\<lambda>x. x * 2 ^ 8)"
    by (rule agreesI [OF pcm_convert_s16_to_s24_def]) (simp_all add: s32)
  show "agrees pcm_convert_s24_to_s16 (load_s 4) 4 2 (\<lambda>x. clamp 16 (round_shift 8 (sext 24 x)))"
    by (rule agreesI [OF pcm_convert_s24_to_s16_def]) (simp_all add: sat_round_24)
  show "agrees pcm_convert_s16_to_s32 (load_s 2) 2 4 (\<lambda>x. x * 2 ^ 16)"
    by (rule agreesI [OF pcm_convert_s16_to_s32_def]) (simp_all add: s32)
  show "agrees pcm_convert_s32_to_s16 (load_s 4) 4 2 (\<lambda>x. clamp 16 (round_shift 16 x))"
    by (rule agreesI [OF pcm_convert_s32_to_s16_def]) (simp_all add: sat_round [OF load_s4_range])
  show "agrees pcm_convert_s24_to_s32 (load_s 4) 4 4 (\<lambda>x. x * 2 ^ 8)"
    by (rule agreesI [OF pcm_convert_s24_to_s32_def]) (simp_all add: s32)
  show "agrees pcm_convert_s32_to_s24 (load_s 4) 4 4 (\<lambda>x. clamp 24 (round_shift 8 x))"
    by (rule agreesI [OF pcm_convert_s32_to_s24_def]) (simp_all add: sat_round [OF load_s4_range])
  show "agrees pcm_convert_s32_to_s24_be (load_s 4) 4 4 (\<lambda>x. clamp 24 (round_shift 8 x) * 2 ^ 8)"
    by (rule agreesI [OF pcm_convert_s32_to_s24_be_def]) (simp_all add: s32 sat_round [OF load_s4_range])
  show "agrees pcm_convert_s16_c16_to_s16_c32 (load_s 2) 2 4 (\<lambda>x. x)"
    by (rule agreesI [OF pcm_convert_s16_c16_to_s16_c32_def]) (simp_all)
  show "agrees pcm_convert_s16_c32_to_s16_c16 (load_s 4) 4 2 (\<lambda>x. x)"
    by (rule agreesI [OF pcm_convert_s16_c32_to_s16_c16_def]) (simp_all add: and_mask)
  show "agrees pcm_convert_s16_c32_to_s32_c32 (load_s 4) 4 4 (\<lambda>x. x * 2 ^ 16)"
    by (rule agreesI [OF pcm_convert_s16_c32_to_s32_c32_def]) (simp_all add: s32)
  show "agrees pcm_convert_s32_c32_to_s16_c32 (load_s 4) 4 4 (\<lambda>x. clamp 16 (round_shift 16 x))"
    by (rule agreesI [OF pcm_convert_s32_c32_to_s16_c32_def]) (simp_all add: sat_round [OF load_s4_range])
  show "agrees pcm_convert_s16_c32_to_s24_c32 (load_s 4) 4 4 (\<lambda>x. x * 2 ^ 8)"
    by (rule agreesI [OF pcm_convert_s16_c32_to_s24_c32_def]) (simp_all add: s32)
  show "agrees pcm_convert_s24_c32_to_s16_c32 (load_s 4) 4 4 (\<lambda>x. clamp 16 (round_shift 8 (sext 24 x)))"
    by (rule agreesI [OF pcm_convert_s24_c32_to_s16_c32_def]) (simp_all add: and_mask sat_round_24 sx)
  show "agrees pcm_convert_s24_c24_to_s24_c32 (load_s 3) 3 4 (\<lambda>x. x)"
    by (rule agreesI [OF pcm_convert_s24_c24_to_s24_c32_def]) (simp_all add: load_c24_shift)
  show "agrees pcm_convert_s24_c32_to_s24_c24 (load_s 4) 4 3 (\<lambda>x. x)"
    by (rule agreesI [OF pcm_convert_s24_c32_to_s24_c24_def]) (simp_all)
qed

lemma reference_agrees: "(conv, rd, ws, wd, f) \<in> set pcm_reference \<Longrightarrow> agrees conv rd ws wd f"
  using kernels_agree unfolding pcm_reference_def by auto

lemma agrees_writes:
  assumes "agrees conv rd ws wd f"
    and "aligned ws source (r_ptr source)" and "aligned wd sink (w_ptr sink)" and "apart source sink"
    and "ioffset * ws \<le> st_size source" and "ooffset * wd \<le> st_size sink" and "samples * wd \<le> st_size sink"
  shows "writes (conv source ioffset sink ooffset samples mem) sink (after sink (w_ptr sink) (ooffset * wd))
    (encode wd (map f (samples_at rd ws source (after source (r_ptr source) (ioffset * ws)) mem samples))) mem"
proof -
  obtain k rd' where k: "conv = pcm_convert k rd' ws wd" "reads_only ws rd'" "0 < ws" "0 < wd"
    "\<And>mem p. k (rd' mem p) mod 2 ^ (8 * wd) = f (rd mem p) mod 2 ^ (8 * wd)" using assms(1) by (auto simp: agrees_def)
  let ?p = "after source (r_ptr source) (ioffset * ws)"
  have "encode wd (map k (samples_at rd' ws source ?p mem samples)) = encode wd (map f (samples_at rd ws source ?p mem samples))"
    by (rule encode_map_mod) (simp_all add: samples_at_def k(5))
  with pcm_convert_writes [OF k(2-4) assms(2-), of k mem] show ?thesis by (simp only: k(1))
qed

section \<open>Lossless pairs\<close>

lemma samples_written:
  assumes "ring_written (addr b) (st_size b) p (encode w vs) mem mem'" and "aligned w b p"
    and "\<And>mem p v. (\<And>j. j < w \<Longrightarrow> mem (p + j) = sample_bytes w v ! j) \<Longrightarrow> rd mem p = fin v"
  shows "samples_at rd w b p mem' (length vs) = map fin vs"
proof (rule nth_equalityI)
  fix i assume "i < length (samples_at rd w b p mem' (length vs))"
  then have i: "i < length vs" by simp
  note D = alignedD [OF assms(2)]
  have "mem' (after b p (i * w) + j) = sample_bytes w (vs ! i) ! j" if j: "j < w" for j
  proof -
    have "after b p (i * w + j) = after b p (i * w) + j" using D j by (intro ring_at_step) auto
    moreover have "i * w + j < length (encode w vs)"
    proof -
      have "i * w + j < Suc i * w" using j by simp
      also have "\<dots> \<le> length vs * w" using i by (intro mult_le_mono1) simp
      finally show ?thesis by simp
    qed
    ultimately show ?thesis using assms(1) encode_nth [OF i j] unfolding ring_written_def by metis
  qed
  then show "samples_at rd w b p mem' (length vs) ! i = map fin vs ! i" using i assms(3) by (simp add: samples_at_def)
qed simp

definition lossless :: "(audio_stream \<Rightarrow> nat \<Rightarrow> audio_stream \<Rightarrow> nat \<Rightarrow> nat \<Rightarrow> memory \<Rightarrow> memory outcome option) \<Rightarrow>
    (audio_stream \<Rightarrow> nat \<Rightarrow> audio_stream \<Rightarrow> nat \<Rightarrow> nat \<Rightarrow> memory \<Rightarrow> memory outcome option) \<Rightarrow>
    (memory \<Rightarrow> nat \<Rightarrow> int) \<Rightarrow> nat \<Rightarrow> nat \<Rightarrow> (int \<Rightarrow> bool) \<Rightarrow> bool" where
  "lossless conv1 conv2 rd ws wd valid \<longleftrightarrow> (\<exists>f1 f2 fin. agrees conv1 rd ws wd f1 \<and> agrees conv2 (load_s wd) wd ws f2 \<and>
     (\<forall>mem p v. (\<forall>j<ws. mem (p + j) = sample_bytes ws v ! j) \<longrightarrow> rd mem p = fin v) \<and>
     (\<forall>x. valid x \<longrightarrow> fin (f2 (sext (8 * wd) (f1 x))) = x))"

lemma losslessI:
  assumes "agrees conv1 (load_s ws) ws wd f1" and "agrees conv2 (load_s wd) wd ws f2"
    and "\<And>x. valid x \<Longrightarrow> sext (8 * ws) (f2 (sext (8 * wd) (f1 x))) = x"
  shows "lossless conv1 conv2 (load_s ws) ws wd valid"
  unfolding lossless_def
  by (rule exI [of _ f1], rule exI [of _ f2], rule exI [of _ "sext (8 * ws)"]) (use assms load_sample_bytes(2) in auto)

definition within :: "nat \<Rightarrow> int \<Rightarrow> bool" where
  "within b x \<longleftrightarrow> - (2 ^ (b - 1)) \<le> x \<and> x < 2 ^ (b - 1)"

text \<open>There, back, reading and sizes of the samples, and the samples for which nothing is lost.\<close>

definition pcm_lossless where
  "pcm_lossless =
    [(pcm_convert_u8_to_s32, pcm_convert_s32_to_u8, load_u8, 1, 4, \<lambda>x. 0 \<le> x \<and> x < 256),
     (pcm_convert_s16_to_s24, pcm_convert_s24_to_s16, load_s 2, 2, 4, within 16),
     (pcm_convert_s16_to_s32, pcm_convert_s32_to_s16, load_s 2, 2, 4, within 16),
     (pcm_convert_s24_to_s32, pcm_convert_s32_to_s24, load_s 4, 4, 4, within 24),
     (pcm_convert_s16_c16_to_s16_c32, pcm_convert_s16_c32_to_s16_c16, load_s 2, 2, 4, within 16),
     (pcm_convert_s16_c32_to_s32_c32, pcm_convert_s32_c32_to_s16_c32, load_s 4, 4, 4, within 16),
     (pcm_convert_s16_c32_to_s24_c32, pcm_convert_s24_c32_to_s16_c32, load_s 4, 4, 4, within 16),
     (pcm_convert_s24_c24_to_s24_c32, pcm_convert_s24_c32_to_s24_c24, load_s 3, 3, 4, within 24)]"

lemma scaled_back: "within b x \<Longrightarrow> b + s \<le> 32 \<Longrightarrow> 0 < s \<Longrightarrow> 0 < b \<Longrightarrow> round_shift s (sext 32 (x * 2 ^ s)) = x"
proof -
  assume *: "within b x" "b + s \<le> 32" "0 < s" "0 < b"
  have "- (2 ^ (b - 1)) * 2 ^ s \<le> x * 2 ^ s" "x * 2 ^ s < 2 ^ (b - 1) * 2 ^ s" using *(1) by (auto simp: within_def simp flip: mult_minus_left)
  moreover have "(2 :: int) ^ (b - 1) * 2 ^ s \<le> 2 ^ 31" unfolding power_add [symmetric] using * by (intro power_increasing) auto
  ultimately have "- (2 ^ 31) \<le> x * 2 ^ s" "x * 2 ^ s < 2 ^ 31" by linarith+
  then have "sext 32 (x * 2 ^ s) = x * 2 ^ s" using sext_id [of 32 "x * 2 ^ s"] by simp
  then show ?thesis using round_shift_exact [OF *(3)] by simp
qed

lemma within_id: "within b x \<Longrightarrow> clamp b x = x" "within b x \<Longrightarrow> 0 < b \<Longrightarrow> sext b x = x"
  by (auto simp: within_def clamp_id sext_id)

lemma within_mono: "within b x \<Longrightarrow> b \<le> b' \<Longrightarrow> within b' x"
proof -
  assume *: "within b x" "b \<le> b'"
  then have "(2 :: int) ^ (b - 1) \<le> 2 ^ (b' - 1)" by (intro power_increasing) auto
  with *(1) show ?thesis unfolding within_def by linarith
qed

lemma pairs_lossless: "(conv1, conv2, rd, ws, wd, valid) \<in> set pcm_lossless \<Longrightarrow> lossless conv1 conv2 rd ws wd valid"
proof -
  have wide: "sext 32 x = x" "sext 24 x = x" if "within 16 x" for x
    using that by (auto intro!: within_id(2) within_mono [of 16 x])
  have wide24: "sext 32 x = x" if "within 24 x" for x using that by (auto intro!: within_id(2) within_mono [of 24 x])
  have sh8: "sext 24 (sext 32 (x * 2 ^ 8)) = x * 2 ^ 8 \<and> round_shift 8 (x * 2 ^ 8) = x" if "within 16 x" for x
  proof -
    have "within 24 (x * 2 ^ 8)" "within 32 (x * 2 ^ 8)" using that by (auto simp: within_def)
    then show ?thesis using round_shift_exact [of 8 x] by (simp add: within_id(2))
  qed
  have u8: "lossless pcm_convert_u8_to_s32 pcm_convert_s32_to_u8 load_u8 1 4 (\<lambda>x. 0 \<le> x \<and> x < 256)"
    unfolding lossless_def
  proof (rule exI, rule exI, rule exI [of _ "\<lambda>v. v mod 256"], intro conjI allI impI)
    show "load_u8 mem p = v mod 256" if "\<forall>j<1. mem (p + j) = sample_bytes 1 v ! j" for mem p v
      using load_sample_bytes(1) [of 1 mem p v] that by (simp add: load_u8_def)
    show "(clamp 8 (round_shift 24 (sext (8 * 4) ((x - 128) * 2 ^ 24))) + 128) mod 256 = x" if "0 \<le> x \<and> x < 256" for x
    proof -
      have "within 8 (x - 128)" using that by (auto simp: within_def)
      then show ?thesis using scaled_back [of 8 "x - 128" 24] that by (simp add: within_id)
    qed
  qed (fact kernels_agree(1), use kernels_agree(2) in simp)
  have "lossless pcm_convert_s16_to_s24 pcm_convert_s24_to_s16 (load_s 2) 2 4 (within 16)"
    by (rule losslessI [OF kernels_agree(3,4)]) (use sh8 in \<open>simp add: within_id\<close>)
  moreover have "lossless pcm_convert_s16_to_s32 pcm_convert_s32_to_s16 (load_s 2) 2 4 (within 16)"
    by (rule losslessI [OF kernels_agree(5,6)]) (use scaled_back [of 16 _ 16] in \<open>simp add: within_id\<close>)
  moreover have "lossless pcm_convert_s24_to_s32 pcm_convert_s32_to_s24 (load_s 4) 4 4 (within 24)"
    by (rule losslessI [OF kernels_agree(7,8)]) (use scaled_back [of 24 _ 8] wide24 in \<open>simp add: within_id\<close>)
  moreover have "lossless pcm_convert_s16_c16_to_s16_c32 pcm_convert_s16_c32_to_s16_c16 (load_s 2) 2 4 (within 16)"
    by (rule losslessI [OF kernels_agree(10,11)]) (simp add: wide within_id)
  moreover have "lossless pcm_convert_s16_c32_to_s32_c32 pcm_convert_s32_c32_to_s16_c32 (load_s 4) 4 4 (within 16)"
    by (rule losslessI [OF kernels_agree(12,13)]) (use scaled_back [of 16 _ 16] wide in \<open>simp add: within_id\<close>)
  moreover have "lossless pcm_convert_s16_c32_to_s24_c32 pcm_convert_s24_c32_to_s16_c32 (load_s 4) 4 4 (within 16)"
    by (rule losslessI [OF kernels_agree(14,15)]) (use sh8 wide in \<open>simp add: within_id\<close>)
  moreover have "lossless pcm_convert_s24_c24_to_s24_c32 pcm_convert_s24_c32_to_s24_c24 (load_s 3) 3 4 (within 24)"
    by (rule losslessI [OF kernels_agree(16,17)]) (simp add: wide24 within_id)
  moreover assume "(conv1, conv2, rd, ws, wd, valid) \<in> set pcm_lossless"
  ultimately show ?thesis using u8 unfolding pcm_lossless_def by auto
qed

section \<open>Floating point\<close>

lemma neg_div: "- (2 ^ 31) \<le> x \<Longrightarrow> x < 0 \<Longrightarrow> drop_bit 31 x = - 1" for x :: int
proof -
  assume x: "- (2 ^ 31) \<le> x" "x < 0"
  have "x div 2 ^ 31 = - 1" by (rule int_div_pos_eq [of _ _ _ "x + 2 ^ 31"]) (use x in auto)
  then show ?thesis by (simp add: drop_bit_eq_div)
qed

lemma xor_sign: "- (2 ^ 31) \<le> x \<Longrightarrow> x < 2 ^ 31 \<Longrightarrow> y XOR drop_bit 31 x = (if x < 0 then - y - 1 else y)" for x y :: int
proof -
  assume x: "- (2 ^ 31) \<le> x" "x < 2 ^ 31"
  have "drop_bit 31 x = 0" if "\<not> x < 0" using that x by (simp add: drop_bit_eq_div)
  moreover have "y XOR - 1 = - y - 1" by (simp add: not_int_def)
  ultimately show ?thesis using neg_div x by auto
qed

lemma pcm_abs32_eq: "- (2 ^ 31) \<le> x \<Longrightarrow> x < 2 ^ 31 \<Longrightarrow> pcm_abs32 x = nat \<bar>x\<bar>"
proof -
  assume x: "- (2 ^ 31) \<le> x" "x < 2 ^ 31"
  show ?thesis
  proof (cases "x < 0")
    case True
    have "(- x - 1) mod 2 ^ 32 = - x - 1" using True x by (intro mod_pos_pos_trivial) auto
    moreover have "nat (- x - 1) + 1 = nat (- x)" using True by simp
    ultimately show ?thesis using True x by (simp add: pcm_abs32_def xor_sign u32_def)
  next
    case False
    then have "x mod 2 ^ 32 = x" using x by (intro mod_pos_pos_trivial) auto
    then show ?thesis using False x by (simp add: pcm_abs32_def xor_sign u32_def)
  qed
qed

text \<open>The representation of a value of at most 24 bits: sign, biased exponent and the bits after the leading one.\<close>

lemma pcm_shift_left: "0 \<le> d \<Longrightarrow> k \<le> 32 \<Longrightarrow> d * 2 ^ k < 2 ^ 31 \<Longrightarrow> pcm_shift d (int k) = d * 2 ^ k"
proof -
  assume *: "0 \<le> d" "k \<le> 32" "d * 2 ^ k < 2 ^ 31"
  have "0 \<le> d * 2 ^ k" using * by simp
  then have "s32 (d * 2 ^ k) = d * 2 ^ k" using * by (intro s32_id) linarith+
  then show ?thesis using * by (simp add: pcm_shift_def Let_def)
qed

lemma pcm_shift_right: "0 \<le> d \<Longrightarrow> d < 2 ^ 31 \<Longrightarrow> 0 < k \<Longrightarrow> k \<le> 32 \<Longrightarrow> pcm_shift d (- int k) = d div 2 ^ k"
proof -
  assume *: "0 \<le> d" "d < 2 ^ 31" "0 < k" "k \<le> 32"
  have "d div 2 ^ k \<le> d div 1" using * by (intro zdiv_mono2) auto
  then have "d div 2 ^ k < 2 ^ 31" "0 \<le> d div 2 ^ k" using * by (auto simp: pos_imp_zdiv_nonneg_iff)
  then show ?thesis using * by (simp add: pcm_shift_def Let_def s32_id drop_bit_eq_div)
qed

lemma and_mask23: "x AND 8388607 = x mod 2 ^ 23" "8388607 AND x = x mod 2 ^ 23" "x AND 255 = x mod 2 ^ 8" "x AND 1 = x mod 2" for x :: int
  using take_bit_eq_mask [of 23 x] take_bit_eq_mask [of 8 x] take_bit_eq_mask [of 1 x]
  by (simp_all add: take_bit_eq_mod mask_eq_exp_minus_1 and.commute)

lemma or_bit23: "0 \<le> m \<Longrightarrow> m < 2 ^ 23 \<Longrightarrow> 8388608 OR m = 8388608 + m" for m :: int
proof -
  assume m: "0 \<le> m" "m < 2 ^ 23"
  have "m = take_bit 23 m" using m by (simp add: take_bit_int_eq_self)
  then have "8388608 AND m = (8388608 AND mask 23) AND m" by (metis and.assoc and.commute take_bit_eq_mask)
  also have "(8388608 :: int) AND mask 23 = 0" by (simp add: mask_eq_exp_minus_1)
  finally show ?thesis using plus_and_or [of 8388608 m] by simp
qed

lemma mod_top: "2 ^ 23 \<le> d \<Longrightarrow> d < 2 ^ 24 \<Longrightarrow> d mod 2 ^ 23 = d - 2 ^ 23" for d :: int
  using mod_pos_geq [of "2 ^ 23" d] mod_pos_pos_trivial [of "d - 2 ^ 23" "2 ^ 23"] by simp

lemma scaled_top:
  assumes e: "e \<le> 23" "2 ^ e \<le> a" "a < 2 ^ Suc e"
  shows "2 ^ 23 \<le> a * 2 ^ (23 - e)" "a * 2 ^ (23 - e) < (2 :: int) ^ 24"
proof -
  have p: "(2 :: int) ^ e * 2 ^ (23 - e) = 2 ^ 23" "(2 :: int) ^ Suc e * 2 ^ (23 - e) = 2 ^ 24"
    unfolding power_add [symmetric] using e(1) by simp_all
  have "2 ^ e * 2 ^ (23 - e) \<le> a * 2 ^ (23 - e)" using e by (intro mult_right_mono) auto
  moreover have "a * 2 ^ (23 - e) < 2 ^ Suc e * 2 ^ (23 - e)" using e by (intro mult_strict_right_mono) auto
  ultimately show "2 ^ 23 \<le> a * 2 ^ (23 - e)" "a * 2 ^ (23 - e) < (2 :: int) ^ 24" unfolding p by blast+
qed

lemma float_bits: "0 \<le> k \<Longrightarrow> 2 ^ 23 \<le> d \<Longrightarrow> 0 \<le> k + (d - 2 ^ 23)" "k \<le> 150 * 2 ^ 23 \<Longrightarrow> d < 2 ^ 24 \<Longrightarrow> k + (d - 2 ^ 23) < 2 ^ 31" for k d :: int
  by simp_all

lemma i_to_f_parts:
  assumes x: "x \<noteq> 0" "\<bar>x\<bar> < 2 ^ 24" and pow: "0 \<le> pow" "pow \<le> 100"
  shows "\<exists>e. e \<le> 23 \<and> 2 ^ e \<le> \<bar>x\<bar> \<and> \<bar>x\<bar> < 2 ^ Suc e \<and>
    pcm_convert_i_to_f x pow = (if x < 0 then - (2 ^ 31) else 0) + (127 + int e - pow) * 2 ^ 23 + (\<bar>x\<bar> * 2 ^ (23 - e) - 2 ^ 23)"
proof -
  let ?a = "nat \<bar>x\<bar>"
  define e where "e = nbits ?a - 1"
  have b: "2 ^ e \<le> ?a" "?a < 2 ^ nbits ?a" "0 < nbits ?a" using nbits_bounds [of ?a] x by (auto simp: e_def)
  then have n: "nbits ?a = Suc e" by (simp add: e_def)
  have lo: "2 ^ e \<le> \<bar>x\<bar>" using b(1) by (simp add: nat_le_eq_zle le_nat_iff)
  have hi: "\<bar>x\<bar> < 2 ^ Suc e" using b(2) unfolding n by (simp add: nat_less_iff)
  have "(2 :: int) ^ e < 2 ^ 24" using lo x(2) by linarith
  then have e: "e \<le> 23" using power_less_imp_less_exp [of "2 :: int" e 24] by simp
  have m: "2 ^ 23 \<le> \<bar>x\<bar> * 2 ^ (23 - e)" "\<bar>x\<bar> * 2 ^ (23 - e) < 2 ^ 24" using scaled_top [OF e lo hi] by auto
  have a: "pcm_abs32 x = ?a" using x(2) by (intro pcm_abs32_eq) auto
  have c: "23 - 31 + int (clz ?a) = int (23 - e)" "127 + 31 - int (clz ?a) - pow = 127 + int e - pow" using e by (auto simp: clz_def n)
  have "pcm_shift \<bar>x\<bar> (int (23 - e)) = \<bar>x\<bar> * 2 ^ (23 - e)" using m e by (intro pcm_shift_left) auto
  then have "pcm_shift (s32 (int ?a)) (23 - 31 + int (clz ?a)) = \<bar>x\<bar> * 2 ^ (23 - e)" unfolding c using x(2) by (simp add: s32_id)
  moreover have "\<bar>x\<bar> * 2 ^ (23 - e) mod 2 ^ 23 = \<bar>x\<bar> * 2 ^ (23 - e) - 2 ^ 23"
    by (rule mod_top [OF m])
  ultimately have mant: "pcm_shift (s32 (int ?a)) (23 - 31 + int (clz ?a)) AND 8388607 = \<bar>x\<bar> * 2 ^ (23 - e) - 2 ^ 23"
    by (simp only: and_mask23)
  have E: "(127 + 31 - int (clz ?a) - pow) AND 255 = 127 + int e - pow" unfolding c(2) and_mask23 using e pow by simp
  let ?r = "(127 + int e - pow) * 2 ^ 23 + (\<bar>x\<bar> * 2 ^ (23 - e) - 2 ^ 23)"
  have r: "0 \<le> ?r" "?r < 2 ^ 31"
  proof -
    have "0 \<le> (127 + int e - pow) * 2 ^ 23" using pow by simp
    moreover have "(127 + int e - pow) * 2 ^ 23 \<le> 150 * 2 ^ 23" using e pow by (intro mult_right_mono) auto
    ultimately show "0 \<le> ?r" "?r < 2 ^ 31" using m float_bits by blast+
  qed
  have "s32 ((if x < 0 then 2 ^ 31 else 0) + ?r) = (if x < 0 then - (2 ^ 31) else 0) + ?r"
    using r s32_high [of "2 ^ 31 + ?r"] s32_id [of ?r] by auto
  then have "pcm_convert_i_to_f x pow = (if x < 0 then - (2 ^ 31) else 0) + ?r"
    using x(1) unfolding pcm_convert_i_to_f_def Let_def a E mant by (simp add: add.assoc)
  then show ?thesis using e lo hi by (intro exI [of _ e]) (simp add: add.assoc)
qed

lemma f_to_i_parts:
  assumes a: "0 < a" "a < 2 ^ 24" and e: "e \<le> 23" "2 ^ e \<le> a" "a < 2 ^ Suc e" and pow: "0 \<le> pow" "pow \<le> 100" and m: "m = a * 2 ^ (23 - e) - 2 ^ 23"
    and sg: "sg = - (2 ^ 31) \<or> sg = 0" "src = sg + (127 + int e - pow) * 2 ^ 23 + m"
  shows "pcm_convert_f_to_i src pow = (if sg < 0 then - a else a)"
proof -
  let ?E = "127 + int e - pow"
  have ms: "2 ^ 23 \<le> a * 2 ^ (23 - e)" "a * 2 ^ (23 - e) < 2 ^ 24" using scaled_top [OF e] by auto
  then have mb: "0 \<le> m" "m < 2 ^ 23" using m by auto
  have E: "0 \<le> ?E" "?E < 256" "?E * 2 ^ 23 \<le> 150 * 2 ^ 23" "0 \<le> ?E * 2 ^ 23" using e(1) pow by auto
  have src: "src = m + (sg div 2 ^ 23 + ?E) * 2 ^ 23" using sg by auto
  have d: "drop_bit 23 src = sg div 2 ^ 23 + ?E" unfolding src drop_bit_eq_div using mb by simp
  have dE: "drop_bit 23 src AND 255 = ?E" unfolding d and_mask23 using sg(1) E(1,2) mod_mult_self1 [of ?E "- 1" 256] by auto
  have "src mod 2 ^ 23 = m" unfolding src mod_mult_self1 using mb by simp
  then have man: "8388608 OR (8388607 AND src) = a * 2 ^ (23 - e)" unfolding and_mask23 using or_bit23 [OF mb] m by simp
  have sh0: "pcm_shift (a * 2 ^ (23 - e)) (?E + pow - 127 - 23) = a"
  proof (cases "e = 23")
    case True
    then show ?thesis using pcm_shift_left [of a 0] a by simp
  next
    case False
    then have "?E + pow - 127 - 23 = - int (23 - e)" using e(1) by simp
    then show ?thesis using pcm_shift_right [of "a * 2 ^ (23 - e)" "23 - e"] ms a False e(1) by simp
  qed
  have sh1: "pcm_shift (a * 2 ^ (23 - e)) (?E + pow - 127 - 22) = 2 * a"
  proof (cases "e < 22")
    case True
    then have s: "?E + pow - 127 - 22 = - int (22 - e)" "23 - e = Suc (22 - e)" by auto
    have "a * 2 ^ (23 - e) div 2 ^ (22 - e) = 2 * a" unfolding s(2) power_Suc by simp
    then show ?thesis unfolding s(1) using pcm_shift_right [of "a * 2 ^ (23 - e)" "22 - e"] ms a True by simp
  next
    case False
    then have s: "?E + pow - 127 - 22 = int (e - 22)" "e = 22 \<or> e = 23" using e(1) by auto
    have p: "a * 2 ^ (23 - e) * 2 ^ (e - 22) = 2 * a" using s(2) by auto
    show ?thesis unfolding s(1) using pcm_shift_left [of "a * 2 ^ (23 - e)" "e - 22"] ms a s(2) unfolding p by auto
  qed
  have rng: "- (2 ^ 31) \<le> src" "src < 2 ^ 31" "src < 0 \<longleftrightarrow> sg < 0" using sg mb E by auto
  have "s32 (a + (2 * a AND 1)) = a" "s32 a = a" "s32 (- a) = - a" using a by (simp_all add: and_mask23 s32_id)
  then show ?thesis using a rng(3) unfolding pcm_convert_f_to_i_def Let_def dE man sh0 sh1 by (simp add: xor_sign [OF rng(1,2)])
qed

lemma float_exact:
  assumes x: "\<bar>x\<bar> < 2 ^ 24" and pow: "0 < pow" "pow \<le> 100"
  shows "pcm_convert_f_to_i (pcm_convert_i_to_f x pow) pow = x"
proof (cases "x = 0")
  case False
  then obtain e where e: "e \<le> 23" "2 ^ e \<le> \<bar>x\<bar>" "\<bar>x\<bar> < 2 ^ Suc e"
    and f: "pcm_convert_i_to_f x pow = (if x < 0 then - (2 ^ 31) else 0) + (127 + int e - pow) * 2 ^ 23 + (\<bar>x\<bar> * 2 ^ (23 - e) - 2 ^ 23)"
    using i_to_f_parts [of x pow] x pow by auto
  show ?thesis using f_to_i_parts [OF _ x e _ pow(2) refl _ f] False pow by (auto split: if_splits)
next
  case True
  then show ?thesis using pow by (simp add: pcm_convert_i_to_f_def pcm_convert_f_to_i_def pcm_shift_def s32_id)
qed

section \<open>Packing for the link\<close>

text \<open>The three half words do not depend on the low byte of the first sample: samples that differ only there are packed alike.\<close>

lemma link_words_low_byte: "drop_bit 8 x = drop_bit 8 x' \<Longrightarrow> link_words x y = link_words x' y"
proof -
  assume eq: "drop_bit 8 x = drop_bit 8 x'"
  have "z AND push_bit 8 m = push_bit 8 (drop_bit 8 z AND m)" for z m :: int by (rule bit_eqI) (auto simp: bit_simps)
  from this [of x 255] this [of x' 255] have "x AND 65280 = x' AND 65280" unfolding eq by (simp add: push_bit_eq_mult)
  then show ?thesis using eq by (simp add: link_words_def)
qed

section \<open>Claims\<close>


lemma demo_aligned: "a < 2 ^ 16 \<Longrightarrow> w dvd 4 \<Longrightarrow> aligned w (demo_stream a) (r_ptr (demo_stream a)) \<and> aligned w (demo_stream a) (w_ptr (demo_stream a))"
  using demo_stream_ok [of a] by (auto simp: aligned_def demo_stream_def intro: dvd_trans [of w 4])


text \<open>
  (C19) A sample that fits its format survives a widening conversion into an intermediate ring, the production of what was written there
  and the narrowing conversion of the ring into another one: both conversions return and the samples that arrive are those that were sent.
\<close>

theorem pcm_round_trip:
  assumes "(conv1, conv2, rd, ws, wd, valid) \<in> set pcm_lossless"
    and "aligned ws source (r_ptr source)" and "aligned wd mid (w_ptr mid)" and "aligned ws sink (w_ptr sink)"
    and "apart source mid" and "apart mid sink" and "st_avail mid = 0" and "0 < n" and "n * wd \<le> st_size mid" and "n * ws \<le> st_size sink"
    and "\<forall>x\<in>set (samples_at rd ws source (r_ptr source) mem n). valid x"
  shows "\<exists>mem1 mid' mem2. conv1 source 0 mid 0 n mem = Some (Done mem1) \<and> audio_stream_produce mid (n * wd) = Done mid' \<and>
    conv2 mid' 0 sink 0 n mem1 = Some (Done mem2) \<and>
    samples_at rd ws sink (w_ptr sink) mem2 n = samples_at rd ws source (r_ptr source) mem n"
proof -
  let ?xs = "samples_at rd ws source (r_ptr source) mem n"
  obtain f1 f2 fin where a: "agrees conv1 rd ws wd f1" "agrees conv2 (load_s wd) wd ws f2"
    and fin: "\<And>mem p v. (\<forall>j<ws. mem (p + j) = sample_bytes ws v ! j) \<Longrightarrow> rd mem p = fin v"
    and undo: "\<And>x. valid x \<Longrightarrow> fin (f2 (sext (8 * wd) (f1 x))) = x"
    using pairs_lossless [OF assms(1)] unfolding lossless_def by blast
  have wd: "0 < wd" using a(1) by (simp add: agrees_def)
  note S = alignedD [OF assms(2)] and M = alignedD [OF assms(3)] and K = alignedD [OF assms(4)]
  have src0: "after source (r_ptr source) 0 = r_ptr source" using S(1) by (simp add: stream_okD)
  have at0: "after b (w_ptr b) 0 = w_ptr b" if "stream_ok b" for b using stream_okD [OF that] by simp
  obtain mem1 where m1: "conv1 source 0 mid 0 n mem = Some (Done mem1)"
    "ring_written (addr mid) (st_size mid) (w_ptr mid) (encode wd (map f1 ?xs)) mem mem1"
    using agrees_writes [OF a(1) assms(2,3,5), of 0 0 n mem] assms(9) src0 at0 [OF M(1)] by (auto simp: writes_def)
  have rw: "w_ptr mid = r_ptr mid" using stream_okD [OF M(1)] assms(7) by simp
  define mid' where "mid' = moved mid 0 (n * wd)"
  have mid': "audio_stream_produce mid (n * wd) = Done mid'" "r_ptr mid' = w_ptr mid" "addr mid' = addr mid" "st_size mid' = st_size mid"
      "end_addr mid' = end_addr mid" "stream_ok mid'"
    using produce_appends [of mid "n * wd"] moved_ok [of mid "n * wd" 0] M stream_okD [OF M(1)] assms(7-9) wd by (auto simp: mid'_def moved_def rw)
  have al: "aligned wd mid' (r_ptr mid')" and ap: "apart mid' sink" using assms(3,6) mid' by (auto simp: aligned_def apart_def)
  have "samples_at (load_s wd) wd mid (w_ptr mid) mem1 (length (map f1 ?xs)) = map (sext (8 * wd)) (map f1 ?xs)"
    by (rule samples_written [OF m1(2) assms(3)]) (simp add: load_sample_bytes(2))
  then have ys: "samples_at (load_s wd) wd mid' (r_ptr mid') mem1 n = map (\<lambda>x. sext (8 * wd) (f1 x)) ?xs"
    by (simp add: samples_at_def mid' comp_def)
  have "after mid' (r_ptr mid') 0 = r_ptr mid'" using stream_okD [OF mid'(6)] by simp
  then obtain mem2 where m2: "conv2 mid' 0 sink 0 n mem1 = Some (Done mem2)"
    "ring_written (addr sink) (st_size sink) (w_ptr sink) (encode ws (map f2 (map (\<lambda>x. sext (8 * wd) (f1 x)) ?xs))) mem1 mem2"
    using agrees_writes [OF a(2) al assms(4) ap, of 0 0 n mem1] assms(10) at0 [OF K(1)] ys by (auto simp: writes_def)
  have "samples_at rd ws sink (w_ptr sink) mem2 n = map fin (map f2 (map (\<lambda>x. sext (8 * wd) (f1 x)) ?xs))"
    using samples_written [OF m2(2) assms(4), of rd fin] fin by simp
  also have "\<dots> = ?xs" using assms(11) undo by (simp add: map_idI)
  finally show ?thesis using m1(1) mid'(1) m2(1) by blast
qed

lemma demo_empty: "a < 2 ^ 16 \<Longrightarrow> w dvd 4 \<Longrightarrow> aligned w (moved (demo_stream a) 0 0) (w_ptr (moved (demo_stream a) 0 0))"
  using demo_stream_ok [of a] moved_ok [of "demo_stream a" 0 0]
  by (auto simp: aligned_def demo_stream_def moved_def ring_at_def intro: dvd_trans [of w 4])

theorem pcm_round_trip_witness:
  "\<exists>mem1 mid' mem2. pcm_convert_s16_to_s32 (demo_stream 1000) 0 (moved (demo_stream 2000) 0 0) 0 3 (\<lambda>a. a mod 256) = Some (Done mem1) \<and>
    audio_stream_produce (moved (demo_stream 2000) 0 0) 12 = Done mid' \<and>
    pcm_convert_s32_to_s16 mid' 0 (demo_stream 3000) 0 3 mem1 = Some (Done mem2) \<and>
    samples_at (load_s 2) 2 (demo_stream 3000) (w_ptr (demo_stream 3000)) mem2 3 =
      samples_at (load_s 2) 2 (demo_stream 1000) (r_ptr (demo_stream 1000)) (\<lambda>a. a mod 256) 3"
proof -
  have "\<forall>x\<in>set (samples_at (load_s 2) 2 (demo_stream 1000) (r_ptr (demo_stream 1000)) (\<lambda>a. a mod 256) 3). within 16 x"
    by (auto simp: samples_at_def within_def load_s_def sext_range [of 16, simplified])
  then show ?thesis
    using pcm_round_trip [of pcm_convert_s16_to_s32 pcm_convert_s32_to_s16 "load_s 2" 2 4 "within 16" "demo_stream 1000" "moved (demo_stream 2000) 0 0" "demo_stream 3000" 3]
      demo_aligned [of 1000 2] demo_empty [of 2000 4] demo_aligned [of 3000 2]
    by (simp add: pcm_lossless_def) (simp add: demo_stream_def moved_def apart_def)
qed

end
