(* ===== verification/Mixer.thy ===== *)
theory Mixer
  imports PcmConverter_Props PipelineWalk
begin

text \<open>
  The mixer (\<^verbatim>\<open>src/audio/mixer/mixer_generic.c\<close>, \<^verbatim>\<open>mixer.c\<close>, \<^verbatim>\<open>mixer.h\<close>): the three mixing functions over rings,
  the choice of one of them by the format of the sink and the processing callback with its treatment of inactive sources. The limits of the
  platform (\<^verbatim>\<open>PLATFORM_MAX_CHANNELS\<close>, \<^verbatim>\<open>PLATFORM_MAX_STREAMS\<close>) are arguments. It is shown that every
  output sample is the saturated sum of the source samples.
\<close>

section \<open>Mixing functions\<close>

text \<open>The sum of one sample of every source in an accumulator of the width of \<^verbatim>\<open>val\<close>.\<close>

definition mix_s16 :: "int list \<Rightarrow> int" where
  "mix_s16 xs = sat_int16 (foldl (\<lambda>val x. s32 (val + x)) 0 xs)"

definition mix_s24 :: "int list \<Rightarrow> int" where
  "mix_s24 xs = sat_int24 (foldl (\<lambda>val x. s32 (val + drop_bit 8 (s32 (x * 2 ^ 8)))) 0 xs)"

definition mix_s32 :: "int list \<Rightarrow> int" where
  "mix_s32 xs = sat_int32 (foldl (\<lambda>val x. sext 64 (val + x)) 0 xs)"

text \<open>
  The source pointers are an array of \<^verbatim>\<open>PLATFORM_MAX_CHANNELS\<close> elements. The number of samples is an \<^verbatim>\<open>int\<close>: the loop does
  nothing when it is negative.
\<close>

definition mix_n :: "(int list \<Rightarrow> int) \<Rightarrow> nat \<Rightarrow> nat \<Rightarrow> audio_stream \<Rightarrow> audio_stream list \<Rightarrow> nat \<Rightarrow> memory \<Rightarrow> memory outcome option" where
  "mix_n k w max_channels sink sources frames mem =
     (if length sources > max_channels then Some OutOfBounds
      else process_loop (map_piece k (load_s w) w w) w w sources sink mem (map r_ptr sources) (w_ptr sink)
             (nat (s32 (int (frames * channels (runtime_stream_params sink))))))"

definition mix_n_s16 where
  "mix_n_s16 = mix_n mix_s16 2"

definition mix_n_s24 where
  "mix_n_s24 = mix_n mix_s24 4"

definition mix_n_s32 where
  "mix_n_s32 = mix_n mix_s32 4"

text \<open>\<^verbatim>\<open>mixer_func_map\<close> with all formats configured.\<close>

definition mixer_func_map where
  "mixer_func_map = [(SOF_IPC_FRAME_S16_LE, mix_n_s16), (SOF_IPC_FRAME_S24_4LE, mix_n_s24), (SOF_IPC_FRAME_S32_LE, mix_n_s32)]"

definition mixer_get_processing_function where
  "mixer_get_processing_function sink = map_of mixer_func_map (frame_fmt (runtime_stream_params sink))"

interpretation mixing_s16: ring_processing "map_piece mix_s16 (load_s 2) 2 2" "\<lambda>_. mix_s16" "load_s 2" 2 2 1
  by (rule map_piece_processing) (auto intro: load_s_cong)

interpretation mixing_s24: ring_processing "map_piece mix_s24 (load_s 4) 4 4" "\<lambda>_. mix_s24" "load_s 4" 4 4 1
  by (rule map_piece_processing) (auto intro: load_s_cong)

interpretation mixing_s32: ring_processing "map_piece mix_s32 (load_s 4) 4 4" "\<lambda>_. mix_s32" "load_s 4" 4 4 1
  by (rule map_piece_processing) (auto intro: load_s_cong)

section \<open>The processing callback\<close>

record input_stream_buffer =
  ib_data :: audio_stream
  ib_size :: nat
  ib_consumed :: nat
  ib_end_of_stream :: bool

record output_stream_buffer =
  ob_data :: audio_stream
  ob_size :: nat

text \<open>
  \<^verbatim>\<open>mixer_process\<close> over the input buffers and the first output buffer of the module, with the mixing function chosen at preparation, the limit
  on streams and the frames of a period of the device. A missing mixing function would be a call of \<^verbatim>\<open>NULL\<close>: \<open>Panic\<close>.
\<close>

definition mixer_process where
  "mixer_process max_streams mix_func frames_per_period inputs out mem =
     (if length inputs \<ge> max_streams then Some (Done (inputs, out, mem, - EINVAL))
      else
        let avail = (\<lambda>ib. audio_stream_avail_frames_aligned (ib_data ib) (ob_data out));
            active = filter (\<lambda>ib. avail ib \<noteq> 0) inputs;
            frames = foldl (\<lambda>f ib. min f (avail ib)) 2147483647 active
        in if active = []
           then let sink_bytes = u32 (frames_per_period * audio_stream_frame_bytes (ob_data out))
                in case audio_stream_set_zero (ob_data out) sink_bytes mem of
                     (mem', r) \<Rightarrow> Some (Done (inputs, if r = 0 then out\<lparr>ob_size := sink_bytes\<rparr> else out, mem', 0))
           else
             let source_bytes = u32 (frames * audio_stream_frame_bytes (ib_data (hd inputs)));
                 sink_bytes = u32 (frames * audio_stream_frame_bytes (ob_data out))
             in case mix_func of
                  None \<Rightarrow> Some Panic
                | Some mix \<Rightarrow>
                    map_option (\<lambda>r. obind r (\<lambda>mem'.
                        Done (map (\<lambda>ib. if avail ib \<noteq> 0 then ib\<lparr>ib_consumed := source_bytes\<rparr> else ib) inputs,
                          out\<lparr>ob_size := sink_bytes\<rparr>, mem', 0)))
                      (mix (ob_data out) (map ib_data active) frames mem))"

text \<open>
  \<^verbatim>\<open>mixer_prepare\<close> and \<^verbatim>\<open>mixer_reset\<close>: the mixing function and the answer to the pipeline walk. The states are those of the
  components that feed the mixer, \<open>None\<close> for a source buffer without component. Frame alignment is only changed in HiFi builds.
\<close>

definition mixer_prepare where
  "mixer_prepare sink states =
     (mixer_get_processing_function sink,
      if list_ex (\<lambda>s. s = Some COMP_STATE_PAUSED \<or> s = Some COMP_STATE_ACTIVE) states then PPL_STATUS_PATH_STOP else 0)"

definition mixer_reset where
  "mixer_reset mix_func dir states =
     (if dir = SOF_IPC_STREAM_PLAYBACK \<and> list_ex (\<lambda>s. s \<notin> {None, Some COMP_STATE_INIT, Some COMP_STATE_READY}) states
      then (mix_func, PPL_STATUS_PATH_STOP) else (None, 0))"

section \<open>Sums\<close>

lemma foldl_wrap_sum:
  assumes "\<And>v. \<bar>v\<bar> \<le> M \<Longrightarrow> wr v = v" and "\<forall>x\<in>set xs. \<bar>g x\<bar> \<le> B" and "\<bar>a\<bar> + int (length xs) * B \<le> M" and "0 \<le> B"
  shows "foldl (\<lambda>v x. wr (v + g x)) a xs = a + (\<Sum>x\<leftarrow>xs. g x)"
  using assms(2,3)
proof (induction xs arbitrary: a)
  case (Cons x xs)
  have "int (length (x # xs)) * B = B + int (length xs) * B" by (simp add: algebra_simps)
  moreover have "\<bar>a + g x\<bar> \<le> \<bar>a\<bar> + B" using Cons.prems(1) abs_triangle_ineq [of a "g x"] by simp
  moreover have "0 \<le> int (length xs) * B" using assms(4) by simp
  ultimately have "\<bar>a + g x\<bar> + int (length xs) * B \<le> M" "\<bar>a + g x\<bar> \<le> M" using Cons.prems(2) by linarith+
  then show ?case using Cons.IH [of "a + g x"] Cons.prems(1) assms(1) by simp
qed simp

lemma sum_abs: "\<forall>x\<in>set xs. \<bar>g x\<bar> \<le> B \<Longrightarrow> \<bar>\<Sum>x\<leftarrow>xs. g x\<bar> \<le> int (length xs) * B" for B :: int
proof (induction xs)
  case (Cons x xs)
  then have "\<bar>g x\<bar> \<le> B" "\<bar>\<Sum>x\<leftarrow>xs. g x\<bar> \<le> int (length xs) * B" by auto
  moreover have "int (length (x # xs)) * B = B + int (length xs) * B" by (simp add: algebra_simps)
  ultimately show ?case using abs_triangle_ineq [of "g x" "\<Sum>x\<leftarrow>xs. g x"] by simp
qed simp

text \<open>At most 255 terms of 24 bits do not leave a 32-bit accumulator.\<close>

lemma wrapped_sum:
  fixes g :: "'a \<Rightarrow> int"
  assumes "\<forall>x\<in>set xs. \<bar>g x\<bar> \<le> B" and "length xs \<le> 255" and "0 \<le> B" and "255 * B < M" and "\<And>v. - M \<le> v \<Longrightarrow> v < M \<Longrightarrow> wr v = v"
  shows "foldl (\<lambda>v x. wr (v + g x)) 0 xs = (\<Sum>x\<leftarrow>xs. g x)" "- M \<le> (\<Sum>x\<leftarrow>xs. g x)" "(\<Sum>x\<leftarrow>xs. g x) < M"
proof -
  have n: "int (length xs) * B \<le> 255 * B" using assms(2,3) by (intro mult_right_mono) auto
  then show "- M \<le> (\<Sum>x\<leftarrow>xs. g x)" "(\<Sum>x\<leftarrow>xs. g x) < M" using sum_abs [OF assms(1)] assms(4) by linarith+
  show "foldl (\<lambda>v x. wr (v + g x)) 0 xs = (\<Sum>x\<leftarrow>xs. g x)"
    using foldl_wrap_sum [OF assms(5) assms(1), of "255 * B" 0] n assms(3,4) by auto
qed

lemma within_abs: "within b x \<Longrightarrow> \<bar>x\<bar> \<le> 2 ^ (b - 1)"
  by (auto simp: within_def)

lemma sext_within: "0 < b \<Longrightarrow> within b (sext b x)"
  using sext_range [of b x] by (auto simp: within_def)

lemma mix_s16_eq: "\<forall>x\<in>set xs. within 16 x \<Longrightarrow> length xs \<le> 255 \<Longrightarrow> mix_s16 xs = clamp 16 (\<Sum>x\<leftarrow>xs. x)"
  using wrapped_sum [of xs "\<lambda>x. x" "2 ^ 15" "2 ^ 31" s32] within_abs [of 16]
  by (simp add: mix_s16_def s32_id sat_clamp)

lemma mix_s24_eq: "length xs \<le> 255 \<Longrightarrow> mix_s24 xs = clamp 24 (\<Sum>x\<leftarrow>xs. sext 24 x)"
proof -
  assume "length xs \<le> 255"
  moreover have "drop_bit 8 (s32 (x * 2 ^ 8)) = sext 24 x" for x using sign_extend_s24_eq [of x] by (simp add: sign_extend_s24_def)
  moreover have "\<bar>sext 24 x\<bar> \<le> 2 ^ 23" for x using within_abs [OF sext_within [of 24 x]] by simp
  ultimately show ?thesis using wrapped_sum [of xs "sext 24" "2 ^ 23" "2 ^ 31" s32]
    by (simp add: mix_s24_def s32_id sat_clamp)
qed

lemma mix_s32_eq: "\<forall>x\<in>set xs. within 32 x \<Longrightarrow> length xs \<le> 255 \<Longrightarrow> mix_s32 xs = clamp 32 (\<Sum>x\<leftarrow>xs. x)"
  using wrapped_sum [of xs "\<lambda>x. x" "2 ^ 31" "2 ^ 63" "sext 64"] within_abs [of 32]
  by (simp add: mix_s32_def sext_id sat_clamp)

section \<open>What is mixed\<close>

text \<open>The sample at a position of a ring in a format, and the saturated sum over several rings.\<close>

definition mixed :: "sof_ipc_frame \<Rightarrow> audio_stream list \<Rightarrow> memory \<Rightarrow> nat \<Rightarrow> int list" where
  "mixed fmt sources mem n =
     (let w = get_sample_bytes fmt; bits = get_sample_bitdepth fmt
      in map (\<lambda>i. clamp bits (\<Sum>b\<leftarrow>sources. sext bits (load_s w mem (after b (r_ptr b) (i * w))))) [0..<n])"

lemma outputs_rptr: "outputs (\<lambda>_. k) rd w sources (map r_ptr sources) mem n = map (\<lambda>i. k (map (\<lambda>b. rd mem (after b (r_ptr b) (i * w))) sources)) [0..<n]"
proof -
  have "map2 f sources (map r_ptr sources) = map (\<lambda>b. f b (r_ptr b)) sources" for f :: "audio_stream \<Rightarrow> nat \<Rightarrow> int"
    by (induction sources) auto
  then show ?thesis by (simp add: outputs_def)
qed

lemma mix_n_writes:
  assumes "ring_processing (map_piece k (load_s w) w w) (\<lambda>_. k) (load_s w) w w 1"
    and "\<forall>b\<in>set sources. aligned w b (r_ptr b) \<and> apart b sink" and "aligned w sink (w_ptr sink)"
    and "length sources \<le> max_channels" and "n = frames * channels (runtime_stream_params sink)" and "n * w \<le> st_size sink" and "n < 2 ^ 31"
  shows "writes (mix_n k w max_channels sink sources frames mem) sink (w_ptr sink)
    (encode w (map (\<lambda>i. k (map (\<lambda>b. load_s w mem (after b (r_ptr b) (i * w))) sources)) [0..<n])) mem"
proof -
  have "list_all2 (aligned w) sources (map r_ptr sources)" using assms(2) by (induction sources) auto
  moreover have "nat (s32 (int (frames * channels (runtime_stream_params sink)))) = n" using assms(5,7) by (simp add: s32_id flip: of_nat_mult)
  ultimately show ?thesis
    using ring_processing.process_loop_written [OF assms(1), of sources sink "map r_ptr sources" "w_ptr sink" n mem] assms(2-4,6)
    by (simp add: mix_n_def writes_def outputs_rptr)
qed

lemma mixers_write:
  assumes "map_of mixer_func_map fmt = Some mix" and "w = get_sample_bytes fmt"
    and "\<forall>b\<in>set sources. aligned w b (r_ptr b) \<and> apart b sink" and "aligned w sink (w_ptr sink)"
    and "length sources \<le> max_channels" and "length sources \<le> 255" and "n = frames * channels (runtime_stream_params sink)" and "n * w \<le> st_size sink"
  shows "writes (mix max_channels sink sources frames mem) sink (w_ptr sink) (encode w (mixed fmt sources mem n)) mem"
proof -
  have "2 \<le> w" using assms(1,2) by (auto simp: mixer_func_map_def split: if_splits)
  then have "n * 2 \<le> n * w" by simp
  then have "n * 2 \<le> st_size sink" using assms(8) by (rule le_trans)
  then have n: "n < 2 ^ 31" using stream_okD(3) [OF alignedD(1) [OF assms(4)]] by simp
  note W = mix_n_writes [OF _ _ _ assms(5,7) _ n, of _ _ mem]
  have L: "within (8 * w) (load_s w mem p)" for p using sext_within [of "8 * w"] \<open>2 \<le> w\<close> by (simp add: load_s_def)
  have id: "sext (8 * w) (load_s w mem p) = load_s w mem p" for p by (simp add: load_s_def)
  have L2: "within 16 (load_s 2 mem p)" "sext 16 (load_s 2 mem p) = load_s 2 mem p" if "w = 2" for p using L [of p] id [of p] that by auto
  have L4: "within 32 (load_s 4 mem p)" "sext 32 (load_s 4 mem p) = load_s 4 mem p" if "w = 4" for p using L [of p] id [of p] that by auto
  from assms(1) consider
      (s16) "fmt = SOF_IPC_FRAME_S16_LE" "mix = mix_n_s16"
    | (s24) "fmt = SOF_IPC_FRAME_S24_4LE" "mix = mix_n_s24"
    | (s32) "fmt = SOF_IPC_FRAME_S32_LE" "mix = mix_n_s32"
    by (auto simp: mixer_func_map_def split: if_splits)
  then show ?thesis
  proof cases
    case s16
    then show ?thesis using W [OF mixing_s16.ring_processing_axioms] assms(2-4,8) assms(6)
      by (simp add: mixed_def mix_n_s16_def mix_s16_eq L2 comp_def)
  next
    case s24
    then show ?thesis using W [OF mixing_s24.ring_processing_axioms] assms(2-4,8) assms(6)
      by (simp add: mixed_def mix_n_s24_def mix_s24_eq comp_def)
  next
    case s32
    then show ?thesis using W [OF mixing_s32.ring_processing_axioms] assms(2-4,8) assms(6)
      by (simp add: mixed_def mix_n_s32_def mix_s32_eq L4 comp_def)
  qed
qed

section \<open>The processing callback\<close>

text \<open>
  Streams as they are set up before processing: all in the format and with the channels of the sink, alignment computed
  (\<open>audio_stream_recalc_align\<close>), no permitted overruns or underruns.
\<close>

definition mixable :: "input_stream_buffer list \<Rightarrow> output_stream_buffer \<Rightarrow> bool" where
  "mixable inputs out \<longleftrightarrow>
     (let sink = ob_data out; par = runtime_stream_params sink; w = get_sample_bytes (frame_fmt par)
      in aligned w sink (w_ptr sink) \<and> stream_align_ok sink \<and> \<not> overrun_permitted par \<and> channels par < 2 ^ 16 \<and>
         (\<forall>ib\<in>set inputs. aligned w (ib_data ib) (r_ptr (ib_data ib)) \<and> apart (ib_data ib) sink \<and> stream_align_ok (ib_data ib) \<and>
            frame_fmt (runtime_stream_params (ib_data ib)) = frame_fmt par \<and> channels (runtime_stream_params (ib_data ib)) = channels par \<and>
            \<not> underrun_permitted (runtime_stream_params (ib_data ib))))"

text \<open>The sources that take part and the frames that all of them and the sink allow.\<close>

definition mixer_active :: "input_stream_buffer list \<Rightarrow> output_stream_buffer \<Rightarrow> input_stream_buffer list" where
  "mixer_active inputs out = filter (\<lambda>ib. audio_stream_avail_frames_aligned (ib_data ib) (ob_data out) \<noteq> 0) inputs"

definition mixer_frames :: "input_stream_buffer list \<Rightarrow> output_stream_buffer \<Rightarrow> nat" where
  "mixer_frames inputs out = Min ((\<lambda>ib. audio_stream_avail_frames_aligned (ib_data ib) (ob_data out)) ` set (mixer_active inputs out))"

lemma foldl_min_image: "foldl (\<lambda>m x. min m (f x)) M xs = Min (insert M (f ` set xs))" for M :: nat
proof (induction xs arbitrary: M)
  case (Cons x xs)
  have "Min (insert (min M (f x)) (f ` set xs)) = Min (insert M (insert (f x) (f ` set xs)))"
    by (cases "f ` set xs = {}") (simp_all add: min.assoc)
  then show ?case by (simp add: Cons.IH)
qed simp

lemma avail_frames_fit:
  assumes "stream_ok b" and "stream_ok sink" and "stream_align_ok b" and "stream_align_ok sink"
    and "\<not> underrun_permitted (runtime_stream_params b)" and "\<not> overrun_permitted (runtime_stream_params sink)"
  shows "audio_stream_avail_frames_aligned b sink * audio_stream_frame_bytes b \<le> st_avail b"
    and "audio_stream_avail_frames_aligned b sink * audio_stream_frame_bytes sink \<le> st_free sink"
proof -
  let ?src = "u32 (drop_bit (align_shift_idx (runtime_stream_params b)) (st_avail b) * align_frame_cnt (runtime_stream_params b))"
    and ?snk = "u32 (drop_bit (align_shift_idx (runtime_stream_params sink)) (st_free sink) * align_frame_cnt (runtime_stream_params sink))"
  have eq: "audio_stream_avail_frames_aligned b sink = min ?src ?snk"
    using assms(5,6) by (simp add: audio_stream_avail_frames_aligned_def audio_stream_get_avail_bytes_def audio_stream_get_free_bytes_def)
  have "st_avail b < 2 ^ 32" "st_free sink < 2 ^ 32" using stream_okD [OF assms(1)] stream_okD [OF assms(2)] by auto
  then have "?src * audio_stream_frame_bytes b \<le> st_avail b" "?snk * audio_stream_frame_bytes sink \<le> st_free sink"
    using assms(3,4) by (auto simp: stream_align_ok_def intro!: aligned_frames_fit)
  moreover have "min ?src ?snk * audio_stream_frame_bytes b \<le> ?src * audio_stream_frame_bytes b"
    "min ?src ?snk * audio_stream_frame_bytes sink \<le> ?snk * audio_stream_frame_bytes sink" by (intro mult_le_mono1; simp)+
  ultimately show "audio_stream_avail_frames_aligned b sink * audio_stream_frame_bytes b \<le> st_avail b"
    "audio_stream_avail_frames_aligned b sink * audio_stream_frame_bytes sink \<le> st_free sink" unfolding eq by linarith+
qed

lemma mixable_frames:
  assumes mx: "mixable inputs out" and act: "mixer_active inputs out \<noteq> []"
    and fmt: "mixer_get_processing_function (ob_data out) = Some mix"
  defines "bytes \<equiv> mixer_frames inputs out * audio_stream_frame_bytes (ob_data out)"
  shows "0 < mixer_frames inputs out" "bytes \<le> st_free (ob_data out)" "\<forall>ib\<in>set (mixer_active inputs out). bytes \<le> st_avail (ib_data ib)"
    "foldl (\<lambda>f ib. min f (audio_stream_avail_frames_aligned (ib_data ib) (ob_data out))) 2147483647 (mixer_active inputs out) = mixer_frames inputs out"
    "bytes = mixer_frames inputs out * channels (runtime_stream_params (ob_data out)) * get_sample_bytes (frame_fmt (runtime_stream_params (ob_data out)))"
    "\<forall>ib\<in>set inputs. audio_stream_frame_bytes (ib_data ib) = audio_stream_frame_bytes (ob_data out)"
proof -
  let ?sink = "ob_data out" and ?A = "mixer_active inputs out" and ?av = "\<lambda>ib. audio_stream_avail_frames_aligned (ib_data ib) (ob_data out)"
  let ?par = "runtime_stream_params ?sink" and ?w = "get_sample_bytes (frame_fmt (runtime_stream_params ?sink))"
  have A: "set ?A \<subseteq> set inputs" "\<forall>ib\<in>set ?A. 0 < ?av ib" by (auto simp: mixer_active_def)
  show fb: "\<forall>ib\<in>set inputs. audio_stream_frame_bytes (ib_data ib) = audio_stream_frame_bytes ?sink"
    using mx by (simp add: mixable_def Let_def audio_stream_frame_bytes_def)
  have fit: "?av ib * audio_stream_frame_bytes ?sink \<le> st_avail (ib_data ib)" "?av ib * audio_stream_frame_bytes ?sink \<le> st_free ?sink"
    if "ib \<in> set inputs" for ib
    using avail_frames_fit [of "ib_data ib" ?sink] mx that fb by (auto simp: mixable_def Let_def dest!: alignedD(1))
  have w2: "2 \<le> ?w" using fmt by (auto simp: mixer_get_processing_function_def mixer_func_map_def split: if_splits)
  have w4: "?w \<le> 4" by (cases "frame_fmt ?par") auto
  have "?w * channels ?par \<le> 4 * channels ?par" using w4 by (rule mult_le_mono1)
  moreover have "4 * channels ?par < 2 ^ 32" using mx by (simp add: mixable_def Let_def)
  ultimately have "u32 (?w * channels ?par) = ?w * channels ?par" by (intro u32_id) (rule le_less_trans)
  then have fbw: "audio_stream_frame_bytes ?sink = ?w * channels ?par" by (simp add: audio_stream_frame_bytes_def get_frame_bytes_def)
  have "0 < audio_stream_frame_bytes ?sink" using mx by (simp add: mixable_def Let_def stream_align_ok_def)
  then have fb2: "2 \<le> audio_stream_frame_bytes ?sink" using w2 fbw by (cases "channels ?par") auto
  have small: "?av ib \<le> 2147483647" if "ib \<in> set inputs" for ib
  proof -
    have "?av ib * 2 \<le> ?av ib * audio_stream_frame_bytes ?sink" using fb2 by (rule mult_le_mono2)
    then have "?av ib * 2 \<le> st_free ?sink" using fit(2) [OF that] by (rule le_trans)
    moreover have "stream_ok ?sink" using mx by (simp add: mixable_def Let_def aligned_def)
    ultimately show ?thesis using stream_okD [of ?sink] by auto
  qed
  have ne: "?av ` set ?A \<noteq> {}" "finite (?av ` set ?A)" using act by auto
  have "mixer_frames inputs out \<in> ?av ` set ?A" unfolding mixer_frames_def by (rule Min_in [OF ne(2,1)])
  then obtain ib where ib: "ib \<in> set ?A" "mixer_frames inputs out = ?av ib" by blast
  show "0 < mixer_frames inputs out" using ib A(2) by simp
  show "bytes \<le> st_free ?sink" using fit(2) ib A(1) by (auto simp: bytes_def)
  show "bytes = mixer_frames inputs out * channels ?par * ?w" by (simp add: bytes_def fbw)
  show "\<forall>ib\<in>set ?A. bytes \<le> st_avail (ib_data ib)"
  proof
    fix b assume b: "b \<in> set ?A"
    then have "mixer_frames inputs out \<le> ?av b" unfolding mixer_frames_def using ne(2) by (intro Min_le) auto
    then have "bytes \<le> ?av b * audio_stream_frame_bytes ?sink" unfolding bytes_def by (rule mult_le_mono1)
    then show "bytes \<le> st_avail (ib_data b)" using fit(1) [of b] b A(1) by auto
  qed
  have "Min (insert 2147483647 (?av ` set ?A)) = min 2147483647 (Min (?av ` set ?A))" using ne by simp
  moreover have "mixer_frames inputs out \<le> 2147483647" using small ib A(1) by auto
  ultimately show "foldl (\<lambda>f ib. min f (?av ib)) 2147483647 ?A = mixer_frames inputs out"
    unfolding foldl_min_image mixer_frames_def [symmetric] by (simp add: min_absorb2)
qed

text \<open>
  (C5) When a source has data, the mixer returns, takes the least number of frames that the active sources and the sink allow, writes for every
  sample the saturated sum of the samples of the active sources, across the ends of all rings, changes nothing else in memory, and reports bytes that
  every active source holds and that the sink has room for. Inactive sources are left alone.
\<close>

theorem mixer_process_mixes:
  assumes "mixable inputs out" and "mixer_get_processing_function (ob_data out) = Some mix" and "mixer_active inputs out \<noteq> []"
    and "length inputs < max_streams" and "length inputs \<le> max_channels" and "length inputs \<le> 255"
  defines "bytes \<equiv> mixer_frames inputs out * audio_stream_frame_bytes (ob_data out)"
    and "par \<equiv> runtime_stream_params (ob_data out)"
  shows "\<exists>mem'. mixer_process max_streams (Some (mix max_channels)) frames_per_period inputs out mem =
      Some (Done (map (\<lambda>ib. if ib \<in> set (mixer_active inputs out) then ib\<lparr>ib_consumed := bytes\<rparr> else ib) inputs, out\<lparr>ob_size := bytes\<rparr>, mem', 0)) \<and>
    ring_written (addr (ob_data out)) (st_size (ob_data out)) (w_ptr (ob_data out))
      (encode (get_sample_bytes (frame_fmt par))
        (mixed (frame_fmt par) (map ib_data (mixer_active inputs out)) mem (mixer_frames inputs out * channels par))) mem mem' \<and>
    0 < bytes \<and> bytes \<le> st_free (ob_data out) \<and> (\<forall>ib\<in>set (mixer_active inputs out). bytes \<le> st_avail (ib_data ib))"
proof -
  let ?sink = "ob_data out" and ?A = "mixer_active inputs out" and ?fr = "mixer_frames inputs out" and ?w = "get_sample_bytes (frame_fmt par)"
  note F = mixable_frames [OF assms(1,3,2), folded bytes_def par_def]
  have A: "set ?A \<subseteq> set inputs" "length ?A \<le> length inputs" by (auto simp: mixer_active_def)
  have ok: "stream_ok ?sink" "0 < audio_stream_frame_bytes ?sink" using assms(1) by (auto simp: mixable_def Let_def aligned_def stream_align_ok_def)
  have b: "bytes < 2 ^ 32" "bytes \<le> st_size ?sink" using F(2) stream_okD [OF ok(1)] by auto
  have "writes (mix max_channels ?sink (map ib_data ?A) ?fr mem) ?sink (w_ptr ?sink) (encode ?w (mixed (frame_fmt par) (map ib_data ?A) mem (?fr * channels par))) mem"
    using assms(1,2,5,6) A F(5) b(2)
    by (intro mixers_write) (auto simp: mixable_def Let_def mixer_get_processing_function_def par_def)
  then obtain mem' where m: "mix max_channels ?sink (map ib_data ?A) ?fr mem = Some (Done mem')"
    "ring_written (addr ?sink) (st_size ?sink) (w_ptr ?sink) (encode ?w (mixed (frame_fmt par) (map ib_data ?A) mem (?fr * channels par))) mem mem'"
    by (auto simp: writes_def)
  have hd: "audio_stream_frame_bytes (ib_data (hd inputs)) = audio_stream_frame_bytes ?sink"
    using F(6) assms(3) by (cases inputs) (auto simp: mixer_active_def)
  have "(ib \<in> set ?A) = (0 < audio_stream_avail_frames_aligned (ib_data ib) ?sink)" if "ib \<in> set inputs" for ib
    using that by (auto simp: mixer_active_def)
  then have "mixer_process max_streams (Some (mix max_channels)) frames_per_period inputs out mem =
      Some (Done (map (\<lambda>ib. if ib \<in> set ?A then ib\<lparr>ib_consumed := bytes\<rparr> else ib) inputs, out\<lparr>ob_size := bytes\<rparr>, mem', 0))"
    using assms(3,4) m(1) F(4) hd u32_id [OF b(1)] unfolding mixer_process_def Let_def mixer_active_def [symmetric]
    by (simp add: bytes_def)
  moreover have "0 < bytes" using F(1) ok(2) by (simp add: bytes_def)
  ultimately show ?thesis using m(2) F(2,3) by blast
qed

text \<open>Three sources, one of them inactive, and a sink, at different positions of their rings.\<close>

definition mix_demo :: "nat \<Rightarrow> audio_stream" where
  "mix_demo a = (demo_stream a)\<lparr>runtime_stream_params := (runtime_stream_params (demo_stream a))\<lparr>align_frame_cnt := 1, align_shift_idx := 2\<rparr>\<rparr>"

definition mix_demo_inputs :: "input_stream_buffer list" where
  "mix_demo_inputs = map (\<lambda>b. \<lparr>ib_data = b, ib_size = 0, ib_consumed = 0, ib_end_of_stream = False\<rparr>)
     [mix_demo 1000, moved (mix_demo 2000) 0 0, moved (mix_demo 3000) 4 4]"

definition mix_demo_out :: output_stream_buffer where
  "mix_demo_out = \<lparr>ob_data = mix_demo 4000, ob_size = 0\<rparr>"

lemma mix_demo_ok:
  "mixable mix_demo_inputs mix_demo_out"
  "mixer_active mix_demo_inputs mix_demo_out = [mix_demo_inputs ! 0, mix_demo_inputs ! 2]"
  "mixer_frames mix_demo_inputs mix_demo_out = 1" "length mix_demo_inputs = 3"
  "mixer_get_processing_function (ob_data mix_demo_out) = Some mix_n_s16" "audio_stream_frame_bytes (ob_data mix_demo_out) = 4"
proof -
  note D = mix_demo_inputs_def mix_demo_out_def mix_demo_def demo_stream_def moved_def
  note avail = audio_stream_avail_frames_aligned_def audio_stream_get_avail_bytes_def audio_stream_get_free_bytes_def drop_bit_eq_div u32_def
  show act: "mixer_active mix_demo_inputs mix_demo_out = [mix_demo_inputs ! 0, mix_demo_inputs ! 2]"
    by (simp add: mixer_active_def D avail)
  show "mixer_frames mix_demo_inputs mix_demo_out = 1" unfolding mixer_frames_def act by (simp add: D avail)
  show "mixable mix_demo_inputs mix_demo_out"
    by (simp add: mixable_def D aligned_def apart_def stream_ok_def stream_align_ok_def ring_at_def audio_stream_frame_bytes_def get_frame_bytes_def u32_def)
qed (simp_all add: mix_demo_inputs_def mix_demo_out_def mix_demo_def demo_stream_def mixer_get_processing_function_def mixer_func_map_def
      audio_stream_frame_bytes_def get_frame_bytes_def u32_def)

theorem mixer_process_mixes_witness:
  "\<exists>mem'. mixer_process 16 (Some (mix_n_s16 8)) 48 mix_demo_inputs mix_demo_out (\<lambda>a. a mod 256) =
      Some (Done (map (\<lambda>ib. if ib \<in> {mix_demo_inputs ! 0, mix_demo_inputs ! 2} then ib\<lparr>ib_consumed := 4\<rparr> else ib) mix_demo_inputs,
        mix_demo_out\<lparr>ob_size := 4\<rparr>, mem', 0)) \<and>
    ring_written 4000 16 4004 (encode 2 (mixed SOF_IPC_FRAME_S16_LE [mix_demo 1000, moved (mix_demo 3000) 4 4] (\<lambda>a. a mod 256) 2)) (\<lambda>a. a mod 256) mem'"
proof -
  have par: "ob_data mix_demo_out = mix_demo 4000" "channels (runtime_stream_params (mix_demo a)) = 2" "addr (mix_demo a) = a"
    "frame_fmt (runtime_stream_params (mix_demo a)) = SOF_IPC_FRAME_S16_LE" "st_size (mix_demo a) = 16" "w_ptr (mix_demo a) = a + 4" for a
    by (simp_all add: mix_demo_out_def mix_demo_def demo_stream_def)
  have ins: "ib_data (mix_demo_inputs ! 0) = mix_demo 1000" "ib_data (mix_demo_inputs ! 2) = moved (mix_demo 3000) 4 4"
    by (simp_all add: mix_demo_inputs_def)
  show ?thesis
    using mixer_process_mixes [OF mix_demo_ok(1,5), of 16 8 48 "\<lambda>a. a mod 256"] mix_demo_ok(2,3,4,6)
    by (auto simp: par ins)
qed


end
