(* ===== verification/Spec2Isabelle.thy ===== *)
theory Spec2Isabelle
  imports MmClaims Pipeline_Claims Mixer
begin

text \<open>
  A verification library for the core of the Sound Open Firmware: the heap allocator, the circular
  audio buffers with their sink and source interfaces, the pipelines that run components, and the small services they rest on. Paths
  are relative to the repository root.

  \<^bold>\<open>The program.\<close> The firmware connects audio components by buffers. A buffer is a ring of bytes
  with read and write positions; modules reach it through sink and source handles that follow a
  request and commit protocol; a lockless queue may stand in front of or behind a buffer for modules
  with their own thread. Rings live in memory from a block allocator with several pools. Events about
  buffers go through a notifier. Handles and buffers are kept in intrusive linked lists. A pipeline is a part of the graph of
  components and buffers that a task runs once per period; its operations walk the graph recursively. Messages to the host are queued.

  \<^bold>\<open>How C is read.\<close> \<open>Prelude\<close>: unsigned integers are naturals and every place where the source can wrap is
  written with \<open>u16\<close>, \<open>u32\<close>, \<open>u32_sub\<close>; signed ones are integers wrapped with \<open>s32\<close>; pointers are 32-bit addresses
  with 0 for \<^verbatim>\<open>NULL\<close>; memory is a map from addresses to bytes. A call returns \<open>Done\<close>, panics (\<open>Panic\<close>: a failed assertion or
  \<^verbatim>\<open>sof_panic\<close>) or leaves its object (\<open>OutOfBounds\<close>). C error codes are the negative \<^verbatim>\<open>errno\<close> values.
  Loops over a list are structural recursion; loops whose end is not syntactic are \<open>partial_function (option)\<close> or
  \<open>while_option\<close>, so that not returning is \<open>None\<close>, and the theorems about them show \<open>Some\<close>.

  \<^bold>\<open>Heap allocator\<close> (\<^verbatim>\<open>src/lib/alloc.c\<close>). \<open>MmHeap\<close> has the records \<open>block_hdr\<close>, \<open>block_map\<close>, \<open>mm_heap\<close>, \<open>mm\<close> and one
  definition per function of the source, the loops as separate functions. \<open>MmHeap_Inv\<close> states the heap invariant \<open>heap_ok\<close> and the
  live regions, \<open>MmHeap_Safety\<close> shows that every operation keeps them, \<open>MmHeap_Props\<close> packages this as the locale
  \<open>region_allocator\<close>, interpreted for single blocks (\<open>runtime_pool\<close>) and buffers (\<open>buffer_pool\<close>), \<open>MmApi\<close> lifts it
  to the public functions over the whole memory map, \<open>MmDemo\<close> has a concrete map and \<open>MmClaims\<close> the properties: no
  overlap for any client, exact release, reallocation keeps the contents.

  \<^bold>\<open>Linked lists\<close> (\<^verbatim>\<open>xtos/include/sof/list.h\<close>). \<open>LinkedList\<close>: the operations on a store of items, their refinement of plain
  lists, iteration and deletion during iteration.

  \<^bold>\<open>Notifier\<close> (\<^verbatim>\<open>src/lib/notifier.c\<close>). \<open>Notifier\<close>: registration, removal, delivery on the calling core and to other cores.

  \<^bold>\<open>Integer helpers\<close> (\<^verbatim>\<open>src/math/numbers.c\<close>). \<open>Numbers\<close>: the binary gcd, searches, normalisation and CRC-32 against
  reference definitions.

  \<^bold>\<open>Audio streams\<close> (\<^verbatim>\<open>src/include/sof/audio/audio_stream.h\<close>, \<^verbatim>\<open>src/audio/audio_stream.c\<close>, the copy routines of
  \<^verbatim>\<open>src/audio/component.c\<close>). \<open>AudioStream\<close> has the operations, \<open>AudioStream_Props\<close> the invariant \<open>stream_ok\<close>, the view of a ring as
  a byte queue (\<open>contents\<close>), the copies and the processing alignment.

  \<^bold>\<open>Sinks and sources\<close> (\<^verbatim>\<open>src/module/audio\<close>, \<^verbatim>\<open>src/audio/sink_source_utils.c\<close>). \<open>SinkSource\<close> has the handles over operation tables,
  \<open>SinkSource_Props\<close> the contracts as locales \<open>sink_provider\<close> and \<open>source_provider\<close> and, for every pair of providers, the correctness of
  \<^verbatim>\<open>source_to_sink_copy\<close> (locale \<open>transfer\<close>).

  \<^bold>\<open>Queues and buffers\<close> (\<^verbatim>\<open>src/audio/dp_queue.c\<close>, \<^verbatim>\<open>src/audio/buffer.c\<close>). \<open>DpQueue\<close> and \<open>Buffer\<close> have the operations; \<open>DpQueue_Props\<close>
  and \<open>Buffer_Props\<close> interpret the contracts for queues and for buffers, so that all four directions of a copy are instances, and
  state the properties of synchronisation, resizing and parameters.

  \<^bold>\<open>Components\<close> (\<^verbatim>\<open>src/audio/component.c\<close>, \<^verbatim>\<open>src/include/sof/audio/component.h\<close>, \<^verbatim>\<open>component_ext.h\<close>). \<open>Component\<close>: the state machine against its
  diagram, copy limits, period frames.

  \<^bold>\<open>Pipelines\<close> (\<^verbatim>\<open>src/audio/pipeline\<close>). \<open>PipelineWalk\<close> has the graph and \<^verbatim>\<open>pipeline_for_each_comp\<close> for an arbitrary
  \<open>walker\<close>, with the locales \<open>topo_walker\<close> (a walk returns and keeps the connections) and \<open>visiting_walker\<close> (what a walk reaches). The
  recursion depth is a bound \<open>n\<close>; a walk passes a buffer at most once on a path, so one more than the number of buffers is enough.
  \<open>Pipeline\<close> has construction, completion, reset, parameters and preparation, \<open>PipelineStream\<close> triggers, copying, xruns and the task.
  Drivers, scheduler and host interface are the record \<open>ppl_env\<close>; \<open>env_keeps\<close> says that drivers do not rewire the graph and do not change
  the period of a pipeline. A delayed start divides by the period; a zero period traps and is \<open>None\<close>. \<open>Pipeline_Props\<close> interprets the locales,
  \<open>Pipeline_Claims\<close> has the properties.

  \<^bold>\<open>Messages to the host\<close> (\<^verbatim>\<open>src/include/sof/ipc/msg.h\<close>, \<^verbatim>\<open>src/ipc/ipc-common.c\<close>). \<open>IpcMsg\<close>: the queue and its worker; whether the platform
  accepts a message is a parameter.

  \<^bold>\<open>Sample arithmetic and loops\<close> (\<^verbatim>\<open>src/include/sof/audio/format.h\<close>, \<^verbatim>\<open>format_generic.h\<close>). \<open>Samples\<close>: little endian access, saturation
  and rounding against \<open>clamp\<close> and \<open>round_shift\<close>. \<open>SampleLoops\<close>: the loop over pieces without wrap that the generic processing functions share, with the
  contract of a piece as the locale \<open>ring_processing\<close>; in it the loop is shown to return and to write exactly the processed samples. A piece of no
  samples would repeat for ever, which the alignment of rings to whole samples excludes.

  \<^bold>\<open>PCM converters\<close> (\<^verbatim>\<open>src/audio/pcm_converter\<close>). \<open>PcmConverter\<close> has the conversions, \<open>PcmConverter_Props\<close> the table of what each of them means, lossless
  pairs, exactness of the floating point conversion up to 24 bits and the properties.

  \<^bold>\<open>Mixer\<close> (\<^verbatim>\<open>src/audio/mixer\<close>). \<open>Mixer\<close>: the mixing functions as instances of the loop and the processing callback.

  \<^bold>\<open>Not modelled.\<close> Of the pipelines: dynamic clock control, DP tasks, the library variant of the trigger, the searches for a DAI,
  time stamps. Of IPC: the command handlers. The schedulers, the other signal processing modules and the endpoints. Locks and interrupts (each operation is sequential), cache contents (only the
  regions that cache maintenance names), trace output, the debug options of the allocator, the HiFi
  intrinsic variants, drivers and platform code.
\<close>

end
